(* ===== verification/Prelude.thy ===== *)
theory Prelude
  imports Main "HOL-Library.Word" "HOL-Library.AList" "HOL-Library.List_Lexorder"
begin

text \<open>
  What every component of the development shares: the machine integers of Rust and their
  saturating operations, the outcome of a Rust call (a value, an error, a panic), slices and
  indexing with their panics, big-endian byte encodings, strings as sequences of Unicode scalar
  values with their UTF-8 bytes, hash maps as association lists, and transition systems with
  their reachable states. The lemmas are declared to the simplifier or collected in
  \<open>result_simps\<close>, \<open>slice_simps\<close> and \<open>hm_simps\<close>.
\<close>

unbundle bit_operations_syntax

named_theorems result_simps \<open>inversion of successful calls\<close>
named_theorems slice_simps \<open>slices and indexing within range\<close>
named_theorems hm_simps \<open>lookups in an updated hash map\<close>

section \<open>Machine integers\<close>

type_synonym u8 = "8 word"
type_synonym u16 = "16 word"
type_synonym u32 = "32 word"
type_synonym u64 = "64 word"

text \<open>\<open>saturating_add\<close> and \<open>saturating_sub\<close> of Rust's unsigned integers.\<close>

definition sat_add :: "'a::len word \<Rightarrow> 'a word \<Rightarrow> 'a word" where
  "sat_add a b = (if unat a + unat b < 2 ^ LENGTH('a) then a + b else - 1)"

definition sat_sub :: "'a::len word \<Rightarrow> 'a word \<Rightarrow> 'a word" where
  "sat_sub a b = (if a < b then 0 else a - b)"

lemma unat_sat_add: "unat (sat_add a b) = min (unat a + unat b) (2 ^ LENGTH('a) - 1)"
  for a b :: "'a::len word"
proof (cases "unat a + unat b < 2 ^ LENGTH('a)")
  case True
  then have "unat (a + b) = unat a + unat b"
    by (simp add: unat_word_ariths)
  with True show ?thesis by (simp add: sat_add_def)
next
  case False
  then show ?thesis by (simp add: sat_add_def unsigned_minus_1_eq_mask mask_eq_exp_minus_1)
qed

lemma sat_add_ge: "a \<le> sat_add a b"
  for a b :: "'a::len word"
proof -
  have "unat a < 2 ^ LENGTH('a)" by (rule unsigned_less)
  then have "unat a \<le> 2 ^ LENGTH('a) - 1" by linarith
  then show ?thesis by (simp add: word_le_nat_alt unat_sat_add)
qed

lemma unat_sat_sub: "unat (sat_sub a b) = unat a - unat b"
proof (cases "a < b")
  case True
  then show ?thesis by (simp add: sat_sub_def word_less_nat_alt)
next
  case False
  then have "b \<le> a" by simp
  then show ?thesis using False by (simp add: sat_sub_def unat_sub)
qed

text \<open>\<open>core::cmp::Ordering\<close> and the comparison of a linear order.\<close>

datatype ordering = Less | Equal | Greater

definition cmp :: "'a::linorder \<Rightarrow> 'a \<Rightarrow> ordering" where
  "cmp a b = (if a < b then Less else if a = b then Equal else Greater)"

section \<open>The outcome of a Rust call\<close>

text \<open>
  \<open>Ok\<close> and \<open>Err\<close> are the constructors of \<open>core::result::Result\<close>; \<open>Panic\<close> is a call that
  aborts (a slice out of range, an \<open>unwrap\<close> of \<open>None\<close>), so that the absence of panics is a
  statement about the model.
\<close>

datatype ('a, 'e) result = Ok 'a | Err 'e | Panic

fun rbind :: "('a, 'e) result \<Rightarrow> ('a \<Rightarrow> ('b, 'e) result) \<Rightarrow> ('b, 'e) result" where
  "rbind (Ok a) f = f a"
| "rbind (Err e) f = Err e"
| "rbind Panic f = Panic"

lemma rbind_Ok_iff [result_simps]: "rbind m f = Ok y \<longleftrightarrow> (\<exists>x. m = Ok x \<and> f x = Ok y)"
  by (cases m) auto

lemma rbind_Err_iff [result_simps]:
  "rbind m f = Err e \<longleftrightarrow> m = Err e \<or> (\<exists>x. m = Ok x \<and> f x = Err e)"
  by (cases m) auto

lemma rbind_Panic_iff [result_simps]:
  "rbind m f = Panic \<longleftrightarrow> m = Panic \<or> (\<exists>x. m = Ok x \<and> f x = Panic)"
  by (cases m) auto

lemma rbind_not_Panic:
  "m \<noteq> Panic \<Longrightarrow> (\<And>x. m = Ok x \<Longrightarrow> f x \<noteq> Panic) \<Longrightarrow> rbind m f \<noteq> Panic"
  by (cases m) auto

section \<open>Slices\<close>

text \<open>\<open>&b[i..j]\<close>, \<open>b[i]\<close> and \<open>b[i..i + src.len()].copy_from_slice(src)\<close>.\<close>

definition slice :: "'a list \<Rightarrow> nat \<Rightarrow> nat \<Rightarrow> ('a list, 'e) result" where
  "slice b i j = (if i \<le> j \<and> j \<le> length b then Ok (take (j - i) (drop i b)) else Panic)"

definition index :: "'a list \<Rightarrow> nat \<Rightarrow> ('a, 'e) result" where
  "index b i = (if i < length b then Ok (b ! i) else Panic)"

definition copy_at :: "'a list \<Rightarrow> nat \<Rightarrow> 'a list \<Rightarrow> ('a list, 'e) result" where
  "copy_at b i src =
     (if i + length src \<le> length b then Ok (take i b @ src @ drop (i + length src) b) else Panic)"

lemma slice_ok [slice_simps]:
  "i \<le> j \<Longrightarrow> j \<le> length b \<Longrightarrow> slice b i j = Ok (take (j - i) (drop i b))"
  by (simp add: slice_def)

lemma index_ok [slice_simps]: "i < length b \<Longrightarrow> index b i = Ok (b ! i)"
  by (simp add: index_def)

lemma copy_at_append [slice_simps]:
  "length pre = i \<Longrightarrow> length old = length src \<Longrightarrow>
     copy_at (pre @ old @ post) i src = Ok (pre @ src @ post)"
  by (simp add: copy_at_def)

lemma slice_append_mid:
  "length pre = i \<Longrightarrow> j = i + length mid \<Longrightarrow> slice (pre @ mid @ post) i j = Ok mid"
  by (simp add: slice_def)

lemma copy_at_length: "copy_at b i src = Ok b' \<Longrightarrow> length b' = length b"
  by (auto simp: copy_at_def split: if_splits)

section \<open>Big-endian integers\<close>

text \<open>\<open>to_be_bytes\<close> and \<open>from_be_bytes\<close>, at a width of \<open>n\<close> bytes; \<open>to_le_bytes\<close>.\<close>

primrec to_be :: "nat \<Rightarrow> 'a::len word \<Rightarrow> u8 list" where
  "to_be 0 x = []"
| "to_be (Suc n) x = to_be n (drop_bit 8 x) @ [ucast x]"

definition from_be :: "u8 list \<Rightarrow> 'a::len word" where
  "from_be bs = foldl (\<lambda>acc b. push_bit 8 acc OR ucast b) 0 bs"

definition to_le :: "nat \<Rightarrow> 'a::len word \<Rightarrow> u8 list" where
  "to_le n x = rev (to_be n x)"

lemma length_to_be [simp]: "length (to_be n x) = n"
  by (induction n arbitrary: x) auto

lemma length_to_le [simp]: "length (to_le n x) = n"
  by (simp add: to_le_def)

lemma from_be_snoc: "from_be (bs @ [b]) = push_bit 8 (from_be bs) OR ucast b"
  by (simp add: from_be_def)

lemma from_be_to_be: "from_be (to_be n x) = take_bit (8 * n) x"
proof (induction n arbitrary: x)
  case 0
  show ?case by (simp add: from_be_def)
next
  case (Suc n)
  have "push_bit 8 (take_bit (8 * n) (drop_bit 8 x)) OR ucast (ucast x :: u8)
      = take_bit (8 * Suc n) x"
    by (rule bit_word_eqI) (auto simp: bit_simps)
  then show ?case by (simp add: from_be_snoc Suc)
qed

lemma take_bit_word_all: "LENGTH('a) \<le> n \<Longrightarrow> take_bit n x = x"
  for x :: "'a::len word"
  by (rule bit_word_eqI) (auto simp: bit_simps)

lemma from_be_to_be_u16 [simp]: "from_be (to_be 2 x) = (x :: u16)"
  by (simp add: from_be_to_be take_bit_word_all)

lemma to_be_drop: "drop k (to_be (k + n) x) = to_be n x"
  by (induction n arbitrary: x) (simp_all add: add.commute [of k])

lemma to_be_inj: "to_be n x = to_be n y \<Longrightarrow> LENGTH('a) \<le> 8 * n \<Longrightarrow> x = y"
  for x y :: "'a::len word"
  by (metis from_be_to_be take_bit_word_all)

lemma from_be_zeros: "from_be (replicate n 0 @ bs) = from_be bs"
  by (induction n) (simp_all add: from_be_def)

section \<open>Strings\<close>

text \<open>
  A Rust \<open>String\<close> is the sequence of its Unicode scalar values (what \<open>chars()\<close> yields);
  \<open>as_bytes\<close> is its UTF-8 encoding. UTF-8 keeps the lexicographic order and turns substrings
  into substrings, so comparison, prefix and \<open>contains\<close> are stated on the scalar values.
\<close>

type_synonym rchar = nat
type_synonym rstring = "rchar list"

definition str :: "string \<Rightarrow> rstring" where
  "str s = map of_char s"

definition utf8_char :: "rchar \<Rightarrow> u8 list" where
  "utf8_char c =
     (if c < 0x80 then [of_nat c]
      else if c < 0x800 then [0xC0 OR of_nat (c div 64), 0x80 OR of_nat (c mod 64)]
      else if c < 0x10000 then
        [0xE0 OR of_nat (c div 4096), 0x80 OR of_nat (c div 64 mod 64), 0x80 OR of_nat (c mod 64)]
      else
        [0xF0 OR of_nat (c div 262144), 0x80 OR of_nat (c div 4096 mod 64),
         0x80 OR of_nat (c div 64 mod 64), 0x80 OR of_nat (c mod 64)])"

definition as_bytes :: "rstring \<Rightarrow> u8 list" where
  "as_bytes s = concat (map utf8_char s)"

fun starts_with :: "'a list \<Rightarrow> 'a list \<Rightarrow> bool" where
  "starts_with xs [] = True"
| "starts_with [] (p # ps) = False"
| "starts_with (x # xs) (p # ps) = (x = p \<and> starts_with xs ps)"

fun contains :: "'a list \<Rightarrow> 'a list \<Rightarrow> bool" where
  "contains [] p = (p = [])"
| "contains (x # xs) p = (starts_with (x # xs) p \<or> contains xs p)"

lemma starts_with_iff: "starts_with xs p \<longleftrightarrow> (\<exists>post. xs = p @ post)"
  by (induction xs p rule: starts_with.induct) auto

lemma contains_iff: "contains xs p \<longleftrightarrow> (\<exists>pre post. xs = pre @ p @ post)"
proof (induction xs)
  case Nil
  show ?case by auto
next
  case (Cons x xs)
  note IH = Cons.IH
  show ?case (is "_ \<longleftrightarrow> ?R")
  proof
    assume "contains (x # xs) p"
    then show ?R
      by (metis Cons append_Cons append_Nil contains.simps(2) starts_with_iff)
  next
    assume ?R
    then obtain pre post where eq: "x # xs = pre @ p @ post" by blast
    show "contains (x # xs) p"
    proof (cases pre)
      case Nil
      with eq have "starts_with (x # xs) p" by (auto simp: starts_with_iff)
      then show ?thesis by simp
    next
      case (Cons y ys)
      with eq have "xs = ys @ p @ post" by simp
      then have "contains xs p" using IH by blast
      then show ?thesis by simp
    qed
  qed
qed

definition ascii_lower :: "rchar \<Rightarrow> rchar" where
  "ascii_lower c = (if 65 \<le> c \<and> c \<le> 90 then c + 32 else c)"

definition to_ascii_lowercase :: "rstring \<Rightarrow> rstring" where
  "to_ascii_lowercase s = map ascii_lower s"

text \<open>The Unicode property \<open>White_Space\<close>, which \<open>char::is_whitespace\<close> decides.\<close>

definition is_whitespace :: "rchar \<Rightarrow> bool" where
  "is_whitespace c \<longleftrightarrow>
     9 \<le> c \<and> c \<le> 13 \<or> c = 0x20 \<or> c = 0x85 \<or> c = 0xA0 \<or> c = 0x1680 \<or> 0x2000 \<le> c \<and> c \<le> 0x200A \<or>
     c = 0x2028 \<or> c = 0x2029 \<or> c = 0x202F \<or> c = 0x205F \<or> c = 0x3000"

text \<open>\<open>str::trim\<close> and \<open>str::split\<close> at one character.\<close>

definition trim :: "rstring \<Rightarrow> rstring" where
  "trim s = rev (dropWhile is_whitespace (rev (dropWhile is_whitespace s)))"

fun split_on :: "'a \<Rightarrow> 'a list \<Rightarrow> 'a list list" where
  "split_on c [] = [[]]"
| "split_on c (x # xs) =
     (if x = c then [] # split_on c xs
      else case split_on c xs of [] \<Rightarrow> [[x]] | p # ps \<Rightarrow> (x # p) # ps)"

text \<open>
  Two lower-case hexadecimal digits per byte (the format \<open>{:02x}\<close>), and back. Where the source
  calls crate \<open>hex\<close> the models take the operation as an argument; these functions are an instance
  of it.
\<close>

definition hex_digit :: "nat \<Rightarrow> rchar" where
  "hex_digit d = (if d < 10 then 48 + d else 87 + d)"

definition hex_byte :: "u8 \<Rightarrow> rstring" where
  "hex_byte b = [hex_digit (unat b div 16), hex_digit (unat b mod 16)]"

definition hex_encode :: "u8 list \<Rightarrow> rstring" where
  "hex_encode bs = concat (map hex_byte bs)"

definition hex_digit_val :: "rchar \<Rightarrow> nat option" where
  "hex_digit_val c =
     (if 48 \<le> c \<and> c \<le> 57 then Some (c - 48)
      else if 97 \<le> c \<and> c \<le> 102 then Some (c - 87)
      else if 65 \<le> c \<and> c \<le> 70 then Some (c - 55)
      else None)"

fun hex_decode :: "rstring \<Rightarrow> u8 list option" where
  "hex_decode [] = Some []"
| "hex_decode [c] = None"
| "hex_decode (c # d # s) =
     (case (hex_digit_val c, hex_digit_val d, hex_decode s) of
        (Some h, Some l, Some bs) \<Rightarrow> Some (of_nat (16 * h + l) # bs)
      | _ \<Rightarrow> None)"

lemma hex_digit_val_digit: "d < 16 \<Longrightarrow> hex_digit_val (hex_digit d) = Some d"
  by (auto simp: hex_digit_val_def hex_digit_def)

lemma hex_byte_val: "hex_decode (hex_byte b @ s) = map_option (\<lambda>bs. b # bs) (hex_decode s)"
proof -
  have "unat b < 256" using unsigned_less [of b] by simp
  then have "unat b div 16 < 16" by simp
  then show ?thesis
    by (simp add: hex_byte_def hex_digit_val_digit split: option.split)
qed

lemma hex_decode_encode [simp]: "hex_decode (hex_encode bs) = Some bs"
  by (induction bs) (simp_all add: hex_encode_def hex_byte_val)

lemma hex_encode_inj: "hex_encode a = hex_encode b \<longleftrightarrow> a = b"
  by (metis hex_decode_encode option.inject)

text \<open>The first hit of a partial function on a list: a loop that returns at its first match.\<close>

primrec first_some :: "('a \<Rightarrow> 'b option) \<Rightarrow> 'a list \<Rightarrow> 'b option" where
  "first_some f [] = None"
| "first_some f (x # xs) = (case f x of Some y \<Rightarrow> Some y | None \<Rightarrow> first_some f xs)"

lemma first_some_None_iff: "first_some f xs = None \<longleftrightarrow> (\<forall>x \<in> set xs. f x = None)"
  by (induction xs) (auto split: option.splits)

lemma first_some_SomeD: "first_some f xs = Some y \<Longrightarrow> \<exists>x \<in> set xs. f x = Some y"
  by (induction xs) (auto split: option.splits)

lemma first_some_append:
  "first_some f (xs @ ys) = (case first_some f xs of Some y \<Rightarrow> Some y | None \<Rightarrow> first_some f ys)"
  by (induction xs) (auto split: option.splits)

section \<open>Hash maps\<close>

text \<open>
  \<open>HashMap\<close> and \<open>BTreeMap\<close> are association lists with distinct keys: \<open>get\<close>, \<open>insert\<close>, \<open>remove\<close>,
  \<open>retain\<close> and \<open>len\<close>.
\<close>

type_synonym ('k, 'v) hmap = "('k \<times> 'v) list"

definition hm_get :: "('k, 'v) hmap \<Rightarrow> 'k \<Rightarrow> 'v option" where
  "hm_get m k = map_of m k"

definition hm_insert :: "'k \<Rightarrow> 'v \<Rightarrow> ('k, 'v) hmap \<Rightarrow> ('k, 'v) hmap" where
  "hm_insert k v m = AList.update k v m"

definition hm_remove :: "'k \<Rightarrow> ('k, 'v) hmap \<Rightarrow> ('k, 'v) hmap" where
  "hm_remove k m = AList.delete k m"

definition hm_retain :: "('k \<Rightarrow> 'v \<Rightarrow> bool) \<Rightarrow> ('k, 'v) hmap \<Rightarrow> ('k, 'v) hmap" where
  "hm_retain P m = filter (\<lambda>(k, v). P k v) m"

definition hm_wf :: "('k, 'v) hmap \<Rightarrow> bool" where
  "hm_wf m \<longleftrightarrow> distinct (map fst m)"

lemma hm_wf_empty [simp, intro]: "hm_wf []"
  by (simp add: hm_wf_def)

lemma hm_wf_insert [simp, intro]: "hm_wf m \<Longrightarrow> hm_wf (hm_insert k v m)"
  by (simp add: hm_wf_def hm_insert_def distinct_update)

lemma hm_wf_remove [simp, intro]: "hm_wf m \<Longrightarrow> hm_wf (hm_remove k m)"
  by (simp add: hm_wf_def hm_remove_def distinct_delete)

lemma hm_wf_retain [simp, intro]: "hm_wf m \<Longrightarrow> hm_wf (hm_retain P m)"
  by (simp add: hm_wf_def hm_retain_def distinct_map_filter)

lemma hm_get_empty [simp]: "hm_get [] k = None"
  by (simp add: hm_get_def)

lemma hm_get_insert [hm_simps, simp]:
  "hm_get (hm_insert k v m) k' = (if k' = k then Some v else hm_get m k')"
  by (simp add: hm_get_def hm_insert_def update_conv')

lemma hm_get_remove [hm_simps, simp]:
  "hm_get (hm_remove k m) k' = (if k' = k then None else hm_get m k')"
  by (simp add: hm_get_def hm_remove_def delete_conv')

lemma hm_get_retain [hm_simps]:
  "hm_wf m \<Longrightarrow> hm_get (hm_retain P m) k =
     (case hm_get m k of None \<Rightarrow> None | Some v \<Rightarrow> if P k v then Some v else None)"
proof (induction m)
  case Nil
  then show ?case by (simp add: hm_get_def hm_retain_def)
next
  case (Cons a m)
  obtain k' v' where a: "a = (k', v')" by force
  from Cons.prems have wf: "hm_wf m" and fresh: "k' \<notin> fst ` set m"
    by (auto simp: hm_wf_def a)
  have "map_of (filter (\<lambda>(k, v). P k v) m) k' = None"
    using fresh by (force simp: map_of_eq_None_iff)
  with Cons.IH [OF wf] show ?case
    by (auto simp: hm_get_def hm_retain_def a)
qed

lemma hm_get_mem: "hm_get m k = Some v \<Longrightarrow> (k, v) \<in> set m"
  by (simp add: hm_get_def map_of_SomeD)

lemma length_hm_insert:
  "length (hm_insert k v m) = (if hm_get m k = None then Suc (length m) else length m)"
proof (induction m)
  case Nil
  show ?case by (simp add: hm_insert_def hm_get_def)
next
  case (Cons a m)
  then show ?case
    by (cases a) (auto simp: hm_insert_def hm_get_def split: if_splits)
qed

lemma length_hm_remove_le: "length (hm_remove k m) \<le> length m"
  by (simp add: hm_remove_def AList.delete_eq)

lemma length_hm_retain_le: "length (hm_retain P m) \<le> length m"
  by (simp add: hm_retain_def)

text \<open>The keys and the values in a map.\<close>

definition hm_keys :: "('k, 'v) hmap \<Rightarrow> 'k set" where
  "hm_keys m = fst ` set m"

definition hm_vals :: "('k, 'v) hmap \<Rightarrow> 'v set" where
  "hm_vals m = snd ` set m"

lemma hm_keys_dom: "hm_keys m = dom (map_of m)"
  by (simp add: hm_keys_def dom_map_of_conv_image_fst)

lemma hm_keys_empty [simp]: "hm_keys [] = {}"
  by (simp add: hm_keys_def)

lemma hm_keys_insert [simp]: "hm_keys (hm_insert k v m) = insert k (hm_keys m)"
  by (simp add: hm_keys_dom hm_insert_def update_conv')

lemma hm_keys_remove [simp]: "hm_keys (hm_remove k m) = hm_keys m - {k}"
  by (simp add: hm_keys_dom hm_remove_def delete_conv')

lemma finite_hm_keys [simp]: "finite (hm_keys m)"
  by (simp add: hm_keys_def)

lemma hm_vals_empty [simp]: "hm_vals [] = {}"
  by (simp add: hm_vals_def)

lemma hm_vals_insertD: "x \<in> hm_vals (hm_insert k v m) \<Longrightarrow> x = v \<or> x \<in> hm_vals m"
proof -
  have "set (hm_insert k v m) \<subseteq> insert (k, v) (set m)"
    unfolding hm_insert_def by (induction m) auto
  then show "x \<in> hm_vals (hm_insert k v m) \<Longrightarrow> x = v \<or> x \<in> hm_vals m"
    by (force simp: hm_vals_def)
qed

lemma hm_vals_removeD: "x \<in> hm_vals (hm_remove k m) \<Longrightarrow> x \<in> hm_vals m"
  by (auto simp: hm_vals_def hm_remove_def AList.delete_eq)

lemma hm_vals_retainD: "x \<in> hm_vals (hm_retain P m) \<Longrightarrow> x \<in> hm_vals m"
  by (auto simp: hm_vals_def hm_retain_def)

lemma hm_get_None_iff: "hm_get m k = None \<longleftrightarrow> k \<notin> hm_keys m"
  by (simp add: hm_get_def hm_keys_def map_of_eq_None_iff)

lemma hm_get_vals: "hm_get m k = Some v \<Longrightarrow> v \<in> hm_vals m"
  using hm_get_mem by (force simp: hm_vals_def)

lemma card_hm_keys: "hm_wf m \<Longrightarrow> card (hm_keys m) = length m"
  using distinct_card [of "map fst m"] by (simp add: hm_wf_def hm_keys_def)

lemmas hm_valsD = hm_vals_insertD hm_vals_removeD hm_vals_retainD

text \<open>
  The interface the components use a map through, and the lemmas they share. The provider is the
  association list above.
\<close>

locale keyed_store =
  fixes get :: "'m \<Rightarrow> 'k \<Rightarrow> 'v option"
    and insert :: "'k \<Rightarrow> 'v \<Rightarrow> 'm \<Rightarrow> 'm"
    and remove :: "'k \<Rightarrow> 'm \<Rightarrow> 'm"
    and wf :: "'m \<Rightarrow> bool"
  assumes get_insert: "get (insert k v m) k' = (if k' = k then Some v else get m k')"
    and get_remove: "get (remove k m) k' = (if k' = k then None else get m k')"
    and wf_insert: "wf m \<Longrightarrow> wf (insert k v m)"
    and wf_remove: "wf m \<Longrightarrow> wf (remove k m)"
begin

lemma store_update_all:
  assumes "\<And>k v. get m k = Some v \<Longrightarrow> P k v" and "P k0 v0" and "get (insert k0 v0 m) k = Some v"
  shows "P k v"
  using assms by (auto simp: get_insert split: if_splits)

lemma store_remove_all:
  assumes "\<And>k v. get m k = Some v \<Longrightarrow> P k v" and "get (remove k0 m) k = Some v"
  shows "P k v"
  using assms by (auto simp: get_remove split: if_splits)

end

interpretation hm: keyed_store hm_get hm_insert hm_remove hm_wf
  by unfold_locales simp_all

section \<open>Transition systems\<close>

inductive reaches :: "('s \<Rightarrow> bool) \<Rightarrow> ('s \<Rightarrow> 's \<Rightarrow> bool) \<Rightarrow> 's \<Rightarrow> bool"
  for start :: "'s \<Rightarrow> bool" and step :: "'s \<Rightarrow> 's \<Rightarrow> bool" where
  reaches_start: "start s \<Longrightarrow> reaches start step s"
| reaches_step: "reaches start step s \<Longrightarrow> step s t \<Longrightarrow> reaches start step t"

text \<open>
  A component that runs as a state machine states its invariant through this interface; that the
  invariant holds in every reachable state is proved once.
\<close>

locale state_machine =
  fixes start :: "'s \<Rightarrow> bool"
    and step :: "'s \<Rightarrow> 's \<Rightarrow> bool"
    and inv :: "'s \<Rightarrow> bool"
  assumes inv_start: "start s \<Longrightarrow> inv s"
    and inv_step: "inv s \<Longrightarrow> step s t \<Longrightarrow> inv t"
begin

lemma inv_reaches: "reaches start step s \<Longrightarrow> inv s"
  by (induction rule: reaches.induct) (blast intro: inv_start inv_step)+

end

end
