(* ===== verification/Clock.thy ===== *)
theory Clock
  imports Prelude
begin

text \<open>
  The hybrid logical clock of \<open>axiom-types/src/clock.rs\<close> and the \<open>ClockManager\<close> of
  \<open>axiom-clock/src/lib.rs\<close>: ticks, merges, the causal order, the seven-byte wire form. The lemmas
  show that the order is linear, that a tick or a merge never moves a clock back and moves it
  strictly forward unless the 16-bit counter is saturated, and that the wire form determines the
  clock up to the 40 bits it keeps of the physical time.
\<close>

unbundle bit_operations_syntax

section \<open>The clock\<close>

datatype hybrid_clock = HybridClock (physical: u64) (logical: u16)

definition clock_zero :: hybrid_clock where
  "clock_zero = HybridClock 0 0"

text \<open>\<open>HybridClock::now\<close>, with the seconds the system clock shows as its argument.\<close>

definition clock_now :: "u64 \<Rightarrow> hybrid_clock" where
  "clock_now secs = HybridClock secs 0"

definition clock_tick :: "hybrid_clock \<Rightarrow> hybrid_clock" where
  "clock_tick c = HybridClock (physical c) (sat_add (logical c) 1)"

definition clock_update :: "hybrid_clock \<Rightarrow> hybrid_clock \<Rightarrow> hybrid_clock" where
  "clock_update c received =
     (case cmp (physical c) (physical received) of
        Less \<Rightarrow> HybridClock (physical received) (sat_add (logical received) 1)
      | Equal \<Rightarrow> HybridClock (physical c) (sat_add (max (logical c) (logical received)) 1)
      | Greater \<Rightarrow> HybridClock (physical c) (sat_add (logical c) 1))"

definition happens_before :: "hybrid_clock \<Rightarrow> hybrid_clock \<Rightarrow> bool" where
  "happens_before a b \<longleftrightarrow>
     physical a < physical b \<or> physical a = physical b \<and> logical a < logical b"

definition concurrent_with :: "hybrid_clock \<Rightarrow> hybrid_clock \<Rightarrow> bool" where
  "concurrent_with a b \<longleftrightarrow> \<not> happens_before a b \<and> \<not> happens_before b a"

definition clock_cmp :: "hybrid_clock \<Rightarrow> hybrid_clock \<Rightarrow> ordering" where
  "clock_cmp a b =
     (case cmp (physical a) (physical b) of
        Equal \<Rightarrow> cmp (logical a) (logical b)
      | other \<Rightarrow> other)"

definition MAX_PHYSICAL :: u64 where
  "MAX_PHYSICAL = push_bit 40 1 - 1"

text \<open>Bytes 3 to 7 of the eight big-endian bytes of the seconds, then the counter.\<close>

definition clock_to_bytes :: "hybrid_clock \<Rightarrow> u8 list" where
  "clock_to_bytes c = drop 3 (to_be 8 (physical c)) @ to_be 2 (logical c)"

definition clock_from_bytes :: "u8 list \<Rightarrow> hybrid_clock" where
  "clock_from_bytes bs =
     HybridClock (from_be (replicate 3 0 @ take 5 bs)) (from_be [bs ! 5, bs ! 6])"

section \<open>The manager\<close>

record clock_manager =
  cm_clock :: hybrid_clock

definition cm_tick :: "clock_manager \<Rightarrow> clock_manager \<times> hybrid_clock" where
  "cm_tick m = (let c = clock_tick (cm_clock m) in (m\<lparr>cm_clock := c\<rparr>, c))"

definition cm_update :: "clock_manager \<Rightarrow> hybrid_clock \<Rightarrow> clock_manager" where
  "cm_update m received = m\<lparr>cm_clock := clock_update (cm_clock m) received\<rparr>"

definition cm_sync_physical :: "clock_manager \<Rightarrow> u64 \<Rightarrow> clock_manager" where
  "cm_sync_physical m now =
     (if now > physical (cm_clock m) then m\<lparr>cm_clock := HybridClock now 0\<rparr> else m)"

section \<open>The order of the source is linear\<close>

instantiation hybrid_clock :: linorder
begin

definition less_eq_hybrid_clock :: "hybrid_clock \<Rightarrow> hybrid_clock \<Rightarrow> bool" where
  "less_eq_hybrid_clock a b \<longleftrightarrow> clock_cmp a b \<noteq> Greater"

definition less_hybrid_clock :: "hybrid_clock \<Rightarrow> hybrid_clock \<Rightarrow> bool" where
  "less_hybrid_clock a b \<longleftrightarrow> clock_cmp a b = Less"

instance
proof
  fix a b c :: hybrid_clock
  show "(a < b) = (a \<le> b \<and> \<not> b \<le> a)"
    by (auto simp: less_eq_hybrid_clock_def less_hybrid_clock_def clock_cmp_def cmp_def
        split: if_splits)
  show "a \<le> a"
    by (simp add: less_eq_hybrid_clock_def clock_cmp_def cmp_def)
  show "a \<le> b \<Longrightarrow> b \<le> c \<Longrightarrow> a \<le> c"
    by (auto simp: less_eq_hybrid_clock_def clock_cmp_def cmp_def split: if_splits)
  show "a \<le> b \<Longrightarrow> b \<le> a \<Longrightarrow> a = b"
    by (cases a; cases b)
      (auto simp: less_eq_hybrid_clock_def clock_cmp_def cmp_def split: if_splits)
  show "a \<le> b \<or> b \<le> a"
    by (auto simp: less_eq_hybrid_clock_def clock_cmp_def cmp_def split: if_splits)
qed

end

lemma happens_before_less: "happens_before a b \<longleftrightarrow> a < b"
  by (auto simp: happens_before_def less_hybrid_clock_def clock_cmp_def cmp_def split: if_splits)

lemma concurrent_iff_eq: "concurrent_with a b \<longleftrightarrow> a = b"
  by (auto simp: concurrent_with_def happens_before_less)

section \<open>Ticks and merges\<close>

lemma unat_max_u16: "unat (- 1 :: u16) = 65535"
  by (simp add: unsigned_minus_1_eq_mask mask_eq_exp_minus_1)

lemma sat_add_one_gt: "x \<noteq> - 1 \<Longrightarrow> x < sat_add x 1"
  for x :: u16
proof -
  assume "x \<noteq> - 1"
  then have "unat x \<noteq> unat (- 1 :: u16)" by (simp only: word_unat_eq_iff not_False_eq_True)
  moreover have "unat x < 65536" using unsigned_less [of x] by simp
  ultimately have "unat x + 1 < 65536" by (simp add: unat_max_u16)
  then show ?thesis by (simp add: word_less_nat_alt unat_sat_add)
qed

lemma clock_tick_ge: "c \<le> clock_tick c"
  using sat_add_ge [of "logical c" 1]
  by (auto simp: clock_tick_def less_eq_hybrid_clock_def clock_cmp_def cmp_def)

lemma clock_tick_less_iff: "c < clock_tick c \<longleftrightarrow> logical c \<noteq> - 1"
proof (cases "logical c = - 1")
  case True
  then have "clock_tick c = c"
    by (cases c) (simp add: clock_tick_def sat_add_def unat_max_u16)
  with True show ?thesis by simp
next
  case False
  then show ?thesis
    using sat_add_one_gt [of "logical c"]
    by (simp add: clock_tick_def less_hybrid_clock_def clock_cmp_def cmp_def)
qed

lemma clock_update_ge_both: "c \<le> clock_update c r \<and> r \<le> clock_update c r"
proof -
  have l: "x \<le> y \<Longrightarrow> x \<le> sat_add y 1" for x y :: u16
    using sat_add_ge [of y 1] by simp
  show ?thesis
    using l [of "logical c" "max (logical c) (logical r)"] l [of "logical r" "max (logical c) (logical r)"]
      l [of "logical c" "logical c"] l [of "logical r" "logical r"]
    by (auto simp: clock_update_def less_eq_hybrid_clock_def clock_cmp_def cmp_def)
qed

lemma clock_update_gt_both:
  assumes "logical c \<noteq> - 1" and "logical r \<noteq> - 1"
  shows "happens_before c (clock_update c r) \<and> happens_before r (clock_update c r)"
proof -
  have m: "max (logical c) (logical r) \<noteq> - 1"
    using assms by (simp add: max_def)
  show ?thesis
    using sat_add_one_gt [OF assms(1)] sat_add_one_gt [OF assms(2)] sat_add_one_gt [OF m]
    by (auto simp: clock_update_def happens_before_def cmp_def)
qed

section \<open>The wire form\<close>

lemma length_clock_to_bytes [simp]: "length (clock_to_bytes c) = 7"
  by (simp add: clock_to_bytes_def)

lemma clock_to_bytes_be: "clock_to_bytes c = to_be 5 (physical c) @ to_be 2 (logical c)"
proof -
  have "drop 3 (to_be (3 + 5) (physical c)) = to_be 5 (physical c)"
    by (rule to_be_drop)
  then show ?thesis by (simp add: clock_to_bytes_def)
qed

lemma to_be_2: "to_be 2 x = [ucast (drop_bit 8 x), ucast x]"
  unfolding numeral_2_eq_2 by simp

lemma clock_from_to_bytes:
  "clock_from_bytes (clock_to_bytes c) = HybridClock (take_bit 40 (physical c)) (logical c)"
proof -
  have "from_be [clock_to_bytes c ! 5, clock_to_bytes c ! 6] = logical c"
    using from_be_to_be_u16 [of "logical c"]
    by (simp add: clock_to_bytes_be nth_append to_be_2)
  moreover have "from_be (replicate 3 0 @ take 5 (clock_to_bytes c)) = take_bit 40 (physical c)"
    using from_be_to_be [of 5 "physical c"] by (simp only: from_be_zeros) (simp add: clock_to_bytes_be)
  ultimately show ?thesis by (simp add: clock_from_bytes_def)
qed

lemma take_bit_MAX_PHYSICAL: "p \<le> MAX_PHYSICAL \<Longrightarrow> take_bit 40 p = p"
proof -
  assume "p \<le> MAX_PHYSICAL"
  then have "unat p < 2 ^ 40" by (simp add: MAX_PHYSICAL_def word_le_nat_alt)
  then have "unat (take_bit 40 p) = unat p"
    by (simp add: unsigned_take_bit_eq take_bit_nat_eq_self)
  then show "take_bit 40 p = p" by (simp only: word_unat_eq_iff)
qed

lemma clock_round_trip_iff: "clock_from_bytes (clock_to_bytes c) = c \<longleftrightarrow> physical c \<le> MAX_PHYSICAL"
proof
  assume "clock_from_bytes (clock_to_bytes c) = c"
  then have "take_bit 40 (physical c) = physical c"
    by (metis clock_from_to_bytes hybrid_clock.sel(1))
  then have "unat (physical c) < 2 ^ 40"
    by (metis take_bit_nat_less_exp unsigned_take_bit_eq)
  then show "physical c \<le> MAX_PHYSICAL" by (simp add: MAX_PHYSICAL_def word_le_nat_alt)
qed (simp add: clock_from_to_bytes take_bit_MAX_PHYSICAL)

section \<open>Runs of the manager\<close>

datatype cm_op = CmTick | CmUpdate hybrid_clock | CmSync u64

fun cm_apply :: "cm_op \<Rightarrow> clock_manager \<Rightarrow> clock_manager" where
  "cm_apply CmTick m = fst (cm_tick m)"
| "cm_apply (CmUpdate r) m = cm_update m r"
| "cm_apply (CmSync now) m = cm_sync_physical m now"

lemma cm_apply_ge: "cm_clock m \<le> cm_clock (cm_apply op m)"
proof (cases op)
  case (CmSync now)
  then show ?thesis
    by (auto simp: cm_sync_physical_def less_eq_hybrid_clock_def clock_cmp_def cmp_def)
qed (simp_all add: cm_tick_def Let_def cm_update_def clock_tick_ge clock_update_ge_both)

lemma cm_run_ge: "cm_clock m \<le> cm_clock (fold cm_apply ops m)"
  by (induction ops arbitrary: m) (auto intro: order_trans cm_apply_ge)

lemma clock_tick_saturated: "logical c = - 1 \<Longrightarrow> clock_tick c = c"
  by (cases c) (simp add: clock_tick_def sat_add_def unat_max_u16)

text \<open>
  The clock of a node orders its events. Whatever the manager does in between (ticks, merges of
  received clocks, reads of the wall clock), a stamp it hands out is never before an earlier one or before a
  clock it merged, and strictly after both unless the 16-bit counter is at its maximum; there the
  counter saturates and the stamp repeats.
\<close>

lemma stamps_ordered:
  "let m' = fold cm_apply ops (cm_update m r); s = snd (cm_tick m') in
     cm_clock m \<le> s \<and> r \<le> s \<and>
     (if logical (cm_clock m') = - 1 then s = cm_clock m' else happens_before (cm_clock m) s \<and> happens_before r s)"
proof -
  let ?m' = "fold cm_apply ops (cm_update m r)"
  have "cm_clock m \<le> cm_clock ?m'" "r \<le> cm_clock ?m'"
    using clock_update_ge_both [of "cm_clock m" r] cm_run_ge [of "cm_update m r" ops]
    by (auto simp: cm_update_def)
  then show ?thesis
    using clock_tick_ge [of "cm_clock ?m'"] clock_tick_less_iff [of "cm_clock ?m'"]
    by (auto simp: Let_def cm_tick_def happens_before_less clock_tick_saturated)
qed

end
