(* ===== verification/Types.thy ===== *)
theory Types
  imports Clock
begin

text \<open>
  The identifiers, trust levels, payload types and error codes of \<open>axiom-types\<close>
  (\<open>crypto.rs\<close>, \<open>trust.rs\<close>, \<open>payload.rs\<close>, \<open>error.rs\<close>, the constants of \<open>lib.rs\<close>). Every
  enumeration has its code table in both directions; the lemmas show the tables inverse to each
  other on the codes the source assigns, and which codes are not kept.
\<close>

unbundle bit_operations_syntax

section \<open>Constants\<close>

definition PROTOCOL_VERSION :: u8 where "PROTOCOL_VERSION = 1"
definition MAGIC :: u8 where "MAGIC = 0b10"
definition MAX_PAYLOAD_SIZE :: nat where "MAX_PAYLOAD_SIZE = 0xFFFFFF"
definition FIXED_HEADER_SIZE :: nat where "FIXED_HEADER_SIZE = 58"
definition SIGNATURE_SIZE :: nat where "SIGNATURE_SIZE = 64"
definition SESSION_TOKEN_SIZE :: nat where "SESSION_TOKEN_SIZE = 16"
definition INTENT_HASH_SIZE :: nat where "INTENT_HASH_SIZE = 16"
definition NODE_ID_SIZE :: nat where "NODE_ID_SIZE = 32"
definition TRACE_ID_SIZE :: nat where "TRACE_ID_SIZE = 8"
definition CLOCK_SIZE :: nat where "CLOCK_SIZE = 7"
definition ROUTING_EXT_SIZE :: nat where "ROUTING_EXT_SIZE = NODE_ID_SIZE + 1"

lemmas size_defs = FIXED_HEADER_SIZE_def SIGNATURE_SIZE_def SESSION_TOKEN_SIZE_def
  INTENT_HASH_SIZE_def NODE_ID_SIZE_def TRACE_ID_SIZE_def CLOCK_SIZE_def ROUTING_EXT_SIZE_def

section \<open>Identifiers\<close>

text \<open>
  The tuple structs over fixed-size byte arrays. The array's length is part of the Rust type; here
  it is the predicate \<open>wf_\<dots>\<close> of each.
\<close>

datatype node_id = NodeId (node_id_bytes: "u8 list")
datatype signature = Signature (signature_bytes: "u8 list")
datatype intent_hash = IntentHash (intent_hash_bytes: "u8 list")
datatype session_token = SessionToken (session_token_bytes: "u8 list")
datatype trace_id = TraceId (trace_id_bytes: "u8 list")

definition wf_node_id :: "node_id \<Rightarrow> bool" where
  "wf_node_id n \<longleftrightarrow> length (node_id_bytes n) = NODE_ID_SIZE"

definition wf_signature :: "signature \<Rightarrow> bool" where
  "wf_signature s \<longleftrightarrow> length (signature_bytes s) = SIGNATURE_SIZE"

definition wf_intent_hash :: "intent_hash \<Rightarrow> bool" where
  "wf_intent_hash h \<longleftrightarrow> length (intent_hash_bytes h) = INTENT_HASH_SIZE"

definition wf_session_token :: "session_token \<Rightarrow> bool" where
  "wf_session_token t \<longleftrightarrow> length (session_token_bytes t) = SESSION_TOKEN_SIZE"

definition wf_trace_id :: "trace_id \<Rightarrow> bool" where
  "wf_trace_id t \<longleftrightarrow> length (trace_id_bytes t) = TRACE_ID_SIZE"

lemmas wf_id_defs = wf_node_id_def wf_signature_def wf_intent_hash_def wf_session_token_def
  wf_trace_id_def

definition node_id_zero :: node_id where
  "node_id_zero = NodeId (replicate NODE_ID_SIZE 0)"

definition node_id_is_zero :: "node_id \<Rightarrow> bool" where
  "node_id_is_zero n \<longleftrightarrow> list_all (\<lambda>b. b = 0) (node_id_bytes n)"

definition signature_zero :: signature where
  "signature_zero = Signature (replicate SIGNATURE_SIZE 0)"

definition intent_hash_zero :: intent_hash where
  "intent_hash_zero = IntentHash (replicate INTENT_HASH_SIZE 0)"

definition intent_hash_is_zero :: "intent_hash \<Rightarrow> bool" where
  "intent_hash_is_zero h \<longleftrightarrow> list_all (\<lambda>b. b = 0) (intent_hash_bytes h)"

definition session_token_zero :: session_token where
  "session_token_zero = SessionToken (replicate SESSION_TOKEN_SIZE 0)"

definition trace_id_from_u64 :: "u64 \<Rightarrow> trace_id" where
  "trace_id_from_u64 v = TraceId (to_be 8 v)"

definition trace_id_as_u64 :: "trace_id \<Rightarrow> u64" where
  "trace_id_as_u64 t = from_be (trace_id_bytes t)"

definition trace_id_zero :: trace_id where
  "trace_id_zero = TraceId (replicate TRACE_ID_SIZE 0)"

definition trace_id_is_zero :: "trace_id \<Rightarrow> bool" where
  "trace_id_is_zero t \<longleftrightarrow> list_all (\<lambda>b. b = 0) (trace_id_bytes t)"

lemma list_all_zero_iff: "list_all (\<lambda>b. b = 0) bs \<longleftrightarrow> bs = replicate (length bs) 0"
  by (induction bs) auto

lemma node_id_is_zero_iff: "wf_node_id n \<Longrightarrow> node_id_is_zero n \<longleftrightarrow> n = node_id_zero"
  by (cases n) (simp add: node_id_is_zero_def node_id_zero_def wf_node_id_def list_all_zero_iff)

lemma intent_hash_is_zero_iff:
  "wf_intent_hash h \<Longrightarrow> intent_hash_is_zero h \<longleftrightarrow> h = intent_hash_zero"
  by (cases h)
    (simp add: intent_hash_is_zero_def intent_hash_zero_def wf_intent_hash_def list_all_zero_iff)

lemma trace_id_is_zero_iff: "wf_trace_id t \<Longrightarrow> trace_id_is_zero t \<longleftrightarrow> t = trace_id_zero"
  by (cases t) (simp add: trace_id_is_zero_def trace_id_zero_def wf_trace_id_def list_all_zero_iff)

lemma trace_id_u64_round_trip: "trace_id_as_u64 (trace_id_from_u64 v) = v"
  by (simp add: trace_id_as_u64_def trace_id_from_u64_def from_be_to_be take_bit_word_all)

section \<open>Trust levels\<close>

datatype trust_level = TlFull | TlSig | TlCompress | TlRaw

definition tl_from_u8 :: "u8 \<Rightarrow> trust_level" where
  "tl_from_u8 v =
     (let w = v AND 0x03 in
      if w = 0 then TlFull else if w = 1 then TlSig else if w = 2 then TlCompress else TlRaw)"

fun tl_to_u8 :: "trust_level \<Rightarrow> u8" where
  "tl_to_u8 TlFull = 0"
| "tl_to_u8 TlSig = 1"
| "tl_to_u8 TlCompress = 2"
| "tl_to_u8 TlRaw = 3"

fun auth_overhead :: "trust_level \<Rightarrow> nat" where
  "auth_overhead TlFull = 64"
| "auth_overhead TlSig = 64"
| "auth_overhead TlCompress = 16"
| "auth_overhead TlRaw = 0"

definition requires_verification :: "trust_level \<Rightarrow> bool" where
  "requires_verification l \<longleftrightarrow> l \<noteq> TlRaw"

definition uses_signature :: "trust_level \<Rightarrow> bool" where
  "uses_signature l \<longleftrightarrow> l = TlFull \<or> l = TlSig"

fun upgrade_from :: "trust_level \<Rightarrow> trust_level option" where
  "upgrade_from TlFull = None"
| "upgrade_from TlSig = Some TlFull"
| "upgrade_from TlCompress = Some TlSig"
| "upgrade_from TlRaw = Some TlCompress"

definition tl_default :: trust_level where "tl_default = TlFull"

instantiation trust_level :: linorder
begin

definition less_eq_trust_level :: "trust_level \<Rightarrow> trust_level \<Rightarrow> bool" where
  "less_eq_trust_level a b \<longleftrightarrow> tl_to_u8 a \<le> tl_to_u8 b"

definition less_trust_level :: "trust_level \<Rightarrow> trust_level \<Rightarrow> bool" where
  "less_trust_level a b \<longleftrightarrow> tl_to_u8 a < tl_to_u8 b"

instance
proof
  fix a b c :: trust_level
  show "(a < b) = (a \<le> b \<and> \<not> b \<le> a)"
    by (auto simp: less_eq_trust_level_def less_trust_level_def)
  show "a \<le> a" by (simp add: less_eq_trust_level_def)
  show "a \<le> b \<Longrightarrow> b \<le> c \<Longrightarrow> a \<le> c" by (simp add: less_eq_trust_level_def)
  show "a \<le> b \<Longrightarrow> b \<le> a \<Longrightarrow> a = b"
    by (cases a; cases b) (simp_all add: less_eq_trust_level_def word_le_nat_alt)
  show "a \<le> b \<or> b \<le> a" by (auto simp: less_eq_trust_level_def)
qed

end

datatype trust_action =
  TaChallenge | TaResponse | TaProposeUpgrade | TaAcceptUpgrade | TaReject | TaDowngrade
| TaKeyRotate

definition ta_from_u8 :: "u8 \<Rightarrow> trust_action option" where
  "ta_from_u8 v =
     (if v = 0x00 then Some TaChallenge
      else if v = 0x01 then Some TaResponse
      else if v = 0x02 then Some TaProposeUpgrade
      else if v = 0x03 then Some TaAcceptUpgrade
      else if v = 0x04 then Some TaReject
      else if v = 0x05 then Some TaDowngrade
      else if v = 0x06 then Some TaKeyRotate
      else None)"

fun ta_to_u8 :: "trust_action \<Rightarrow> u8" where
  "ta_to_u8 TaChallenge = 0x00"
| "ta_to_u8 TaResponse = 0x01"
| "ta_to_u8 TaProposeUpgrade = 0x02"
| "ta_to_u8 TaAcceptUpgrade = 0x03"
| "ta_to_u8 TaReject = 0x04"
| "ta_to_u8 TaDowngrade = 0x05"
| "ta_to_u8 TaKeyRotate = 0x06"

datatype trust_reject_reason =
  TrInvalidSignature | TrChallengeFailed | TrUnsupportedLevel | TrUnauthorized
| TrSessionExpired | TrRateLimited | TrVersionMismatch | TrOther

definition tr_from_u8 :: "u8 \<Rightarrow> trust_reject_reason" where
  "tr_from_u8 v =
     (if v = 0x00 then TrInvalidSignature
      else if v = 0x01 then TrChallengeFailed
      else if v = 0x02 then TrUnsupportedLevel
      else if v = 0x03 then TrUnauthorized
      else if v = 0x04 then TrSessionExpired
      else if v = 0x05 then TrRateLimited
      else if v = 0x06 then TrVersionMismatch
      else TrOther)"

fun tr_to_u8 :: "trust_reject_reason \<Rightarrow> u8" where
  "tr_to_u8 TrInvalidSignature = 0x00"
| "tr_to_u8 TrChallengeFailed = 0x01"
| "tr_to_u8 TrUnsupportedLevel = 0x02"
| "tr_to_u8 TrUnauthorized = 0x03"
| "tr_to_u8 TrSessionExpired = 0x04"
| "tr_to_u8 TrRateLimited = 0x05"
| "tr_to_u8 TrVersionMismatch = 0x06"
| "tr_to_u8 TrOther = 0xFF"

lemma tl_round_trip [simp]: "tl_from_u8 (tl_to_u8 l) = l"
  by (cases l) (simp_all add: tl_from_u8_def)

lemma ta_round_trip: "ta_from_u8 (ta_to_u8 a) = Some a"
  by (cases a) (simp_all add: ta_from_u8_def)

lemma ta_from_u8_Some: "ta_from_u8 v = Some a \<Longrightarrow> ta_to_u8 a = v"
  by (auto simp: ta_from_u8_def split: if_splits)

lemma tr_round_trip: "tr_from_u8 (tr_to_u8 r) = r"
  by (cases r) (simp_all add: tr_from_u8_def)

lemma upgrade_from_one_step:
  "upgrade_from l = Some m \<Longrightarrow> m < l \<and> (\<forall>k. m < k \<longrightarrow> l \<le> k)"
proof -
  assume "upgrade_from l = Some m"
  moreover have "m < k \<Longrightarrow> upgrade_from l = Some m \<Longrightarrow> l \<le> k" for k
    by (cases l; cases k; cases m) (simp_all add: less_trust_level_def less_eq_trust_level_def)
  ultimately show ?thesis
    by (cases l) (auto simp: less_trust_level_def)
qed

section \<open>Error codes\<close>

datatype error_severity = SevInfo | SevWarn | SevError | SevFatal

definition sev_from_u8 :: "u8 \<Rightarrow> error_severity" where
  "sev_from_u8 v =
     (let w = v AND 0x03 in
      if w = 0 then SevInfo else if w = 1 then SevWarn else if w = 2 then SevError else SevFatal)"

fun sev_to_u8 :: "error_severity \<Rightarrow> u8" where
  "sev_to_u8 SevInfo = 0"
| "sev_to_u8 SevWarn = 1"
| "sev_to_u8 SevError = 2"
| "sev_to_u8 SevFatal = 3"

datatype error_category =
  EcUnknown | EcCapabilityUnavailable | EcCapabilityOverloaded | EcTrustDenied | EcTrustExpired
| EcClockSkew | EcPayloadMalformed | EcPayloadTooLarge | EcResourceExhausted | EcIntentTimeout
| EcRouteUnreachable | EcVersionMismatch | EcCompressionFailed | EcFragmentError
| EcFlowViolation | EcInternal

definition ec_from_u8 :: "u8 \<Rightarrow> error_category" where
  "ec_from_u8 v =
     (if v = 0x00 then EcUnknown
      else if v = 0x01 then EcCapabilityUnavailable
      else if v = 0x02 then EcCapabilityOverloaded
      else if v = 0x03 then EcTrustDenied
      else if v = 0x04 then EcTrustExpired
      else if v = 0x05 then EcClockSkew
      else if v = 0x06 then EcPayloadMalformed
      else if v = 0x07 then EcPayloadTooLarge
      else if v = 0x08 then EcResourceExhausted
      else if v = 0x09 then EcIntentTimeout
      else if v = 0x0A then EcRouteUnreachable
      else if v = 0x0B then EcVersionMismatch
      else if v = 0x0C then EcCompressionFailed
      else if v = 0x0D then EcFragmentError
      else if v = 0x0E then EcFlowViolation
      else if v = 0xFF then EcInternal
      else EcUnknown)"

fun ec_to_u8 :: "error_category \<Rightarrow> u8" where
  "ec_to_u8 EcUnknown = 0x00"
| "ec_to_u8 EcCapabilityUnavailable = 0x01"
| "ec_to_u8 EcCapabilityOverloaded = 0x02"
| "ec_to_u8 EcTrustDenied = 0x03"
| "ec_to_u8 EcTrustExpired = 0x04"
| "ec_to_u8 EcClockSkew = 0x05"
| "ec_to_u8 EcPayloadMalformed = 0x06"
| "ec_to_u8 EcPayloadTooLarge = 0x07"
| "ec_to_u8 EcResourceExhausted = 0x08"
| "ec_to_u8 EcIntentTimeout = 0x09"
| "ec_to_u8 EcRouteUnreachable = 0x0A"
| "ec_to_u8 EcVersionMismatch = 0x0B"
| "ec_to_u8 EcCompressionFailed = 0x0C"
| "ec_to_u8 EcFragmentError = 0x0D"
| "ec_to_u8 EcFlowViolation = 0x0E"
| "ec_to_u8 EcInternal = 0xFF"

fun default_severity :: "error_category \<Rightarrow> error_severity" where
  "default_severity EcUnknown = SevError"
| "default_severity EcCapabilityUnavailable = SevError"
| "default_severity EcCapabilityOverloaded = SevWarn"
| "default_severity EcTrustDenied = SevError"
| "default_severity EcTrustExpired = SevWarn"
| "default_severity EcClockSkew = SevWarn"
| "default_severity EcPayloadMalformed = SevError"
| "default_severity EcPayloadTooLarge = SevError"
| "default_severity EcResourceExhausted = SevWarn"
| "default_severity EcIntentTimeout = SevWarn"
| "default_severity EcRouteUnreachable = SevError"
| "default_severity EcVersionMismatch = SevFatal"
| "default_severity EcCompressionFailed = SevError"
| "default_severity EcFragmentError = SevError"
| "default_severity EcFlowViolation = SevWarn"
| "default_severity EcInternal = SevFatal"

datatype codec_error =
  InvalidMagic
| UnsupportedVersion u8
| BufferTooSmall nat nat
| InvalidFrameType u8
| InvalidPayloadType u8
| PayloadTooLarge nat
| InvalidSignature
| InvalidToken
| TruncatedFrame
| InvalidUtf8
| InvalidDType u8

lemma sev_round_trip: "sev_from_u8 (sev_to_u8 s) = s"
  by (cases s) (simp_all add: sev_from_u8_def)

lemma ec_round_trip: "ec_from_u8 (ec_to_u8 c) = c"
  by (cases c) (simp_all add: ec_from_u8_def)

section \<open>Payload types\<close>

datatype payload_type =
  PtRaw | PtTensor | PtEmbed | PtDelta | PtIntentDesc | PtGraph | PtLegacy | PtDictRef | PtKv
| PtError | PtTrust | PtRoute | PtFlow | PtReserved u8

definition pt_from_u8 :: "u8 \<Rightarrow> payload_type" where
  "pt_from_u8 v =
     (let w = v AND 0x0F in
      if w = 0x0 then PtRaw
      else if w = 0x1 then PtTensor
      else if w = 0x2 then PtEmbed
      else if w = 0x3 then PtDelta
      else if w = 0x4 then PtIntentDesc
      else if w = 0x5 then PtGraph
      else if w = 0x6 then PtLegacy
      else if w = 0x7 then PtDictRef
      else if w = 0x8 then PtKv
      else if w = 0x9 then PtError
      else if w = 0xA then PtTrust
      else if w = 0xB then PtRoute
      else if w = 0xC then PtFlow
      else PtReserved w)"

fun pt_to_u8 :: "payload_type \<Rightarrow> u8" where
  "pt_to_u8 PtRaw = 0x0"
| "pt_to_u8 PtTensor = 0x1"
| "pt_to_u8 PtEmbed = 0x2"
| "pt_to_u8 PtDelta = 0x3"
| "pt_to_u8 PtIntentDesc = 0x4"
| "pt_to_u8 PtGraph = 0x5"
| "pt_to_u8 PtLegacy = 0x6"
| "pt_to_u8 PtDictRef = 0x7"
| "pt_to_u8 PtKv = 0x8"
| "pt_to_u8 PtError = 0x9"
| "pt_to_u8 PtTrust = 0xA"
| "pt_to_u8 PtRoute = 0xB"
| "pt_to_u8 PtFlow = 0xC"
| "pt_to_u8 (PtReserved v) = v"

text \<open>The reserved codes the four bits of the wire can carry.\<close>

definition wf_payload_type :: "payload_type \<Rightarrow> bool" where
  "wf_payload_type t \<longleftrightarrow> (case t of PtReserved v \<Rightarrow> v = 0xD \<or> v = 0xE \<or> v = 0xF | _ \<Rightarrow> True)"

lemma pt_round_trip: "wf_payload_type t \<Longrightarrow> pt_from_u8 (pt_to_u8 t) = t"
  by (cases t) (auto simp: pt_from_u8_def wf_payload_type_def)

lemma pt_to_u8_small: "wf_payload_type t \<Longrightarrow> pt_to_u8 t AND 0x0F = pt_to_u8 t"
  by (cases t) (auto simp: wf_payload_type_def)

lemma pt_from_u8_masked: "pt_from_u8 (v AND 0x0F) = pt_from_u8 v"
  by (simp add: pt_from_u8_def and.assoc)

section \<open>Tensors and embeddings\<close>

datatype dtype =
  DtF16 | DtF32 | DtF64 | DtBF16 | DtI8 | DtI16 | DtI32 | DtI64 | DtU8 | DtU16 | DtU32 | DtU64
| DtBool | DtComplex64 | DtComplex128

definition dt_from_u8 :: "u8 \<Rightarrow> dtype option" where
  "dt_from_u8 v =
     (if v = 0x00 then Some DtF16
      else if v = 0x01 then Some DtF32
      else if v = 0x02 then Some DtF64
      else if v = 0x03 then Some DtBF16
      else if v = 0x04 then Some DtI8
      else if v = 0x05 then Some DtI16
      else if v = 0x06 then Some DtI32
      else if v = 0x07 then Some DtI64
      else if v = 0x08 then Some DtU8
      else if v = 0x09 then Some DtU16
      else if v = 0x0A then Some DtU32
      else if v = 0x0B then Some DtU64
      else if v = 0x0C then Some DtBool
      else if v = 0x0D then Some DtComplex64
      else if v = 0x0E then Some DtComplex128
      else None)"

fun dt_to_u8 :: "dtype \<Rightarrow> u8" where
  "dt_to_u8 DtF16 = 0x00"
| "dt_to_u8 DtF32 = 0x01"
| "dt_to_u8 DtF64 = 0x02"
| "dt_to_u8 DtBF16 = 0x03"
| "dt_to_u8 DtI8 = 0x04"
| "dt_to_u8 DtI16 = 0x05"
| "dt_to_u8 DtI32 = 0x06"
| "dt_to_u8 DtI64 = 0x07"
| "dt_to_u8 DtU8 = 0x08"
| "dt_to_u8 DtU16 = 0x09"
| "dt_to_u8 DtU32 = 0x0A"
| "dt_to_u8 DtU64 = 0x0B"
| "dt_to_u8 DtBool = 0x0C"
| "dt_to_u8 DtComplex64 = 0x0D"
| "dt_to_u8 DtComplex128 = 0x0E"

text \<open>Sizes are \<open>usize\<close>; products of sizes are kept at 64 bits, where they wrap.\<close>

fun element_size :: "dtype \<Rightarrow> u64" where
  "element_size DtF16 = 2"
| "element_size DtBF16 = 2"
| "element_size DtI16 = 2"
| "element_size DtU16 = 2"
| "element_size DtF32 = 4"
| "element_size DtI32 = 4"
| "element_size DtU32 = 4"
| "element_size DtF64 = 8"
| "element_size DtI64 = 8"
| "element_size DtU64 = 8"
| "element_size DtComplex64 = 8"
| "element_size DtI8 = 1"
| "element_size DtU8 = 1"
| "element_size DtBool = 1"
| "element_size DtComplex128 = 16"

fun is_float :: "dtype \<Rightarrow> bool" where
  "is_float d = (d = DtF16 \<or> d = DtF32 \<or> d = DtF64 \<or> d = DtBF16)"

fun is_signed_int :: "dtype \<Rightarrow> bool" where
  "is_signed_int d = (d = DtI8 \<or> d = DtI16 \<or> d = DtI32 \<or> d = DtI64)"

fun is_unsigned_int :: "dtype \<Rightarrow> bool" where
  "is_unsigned_int d = (d = DtU8 \<or> d = DtU16 \<or> d = DtU32 \<or> d = DtU64)"

record tensor_payload =
  tp_ndim :: u8
  tp_dtype :: dtype
  tp_shape :: "u32 list"
  tp_data :: "u8 list"

definition tensor_new :: "dtype \<Rightarrow> u32 list \<Rightarrow> u8 list \<Rightarrow> tensor_payload" where
  "tensor_new d sh dat =
     \<lparr>tp_ndim = of_nat (length sh), tp_dtype = d, tp_shape = sh, tp_data = dat\<rparr>"

definition num_elements :: "tensor_payload \<Rightarrow> u64" where
  "num_elements t = prod_list (map ucast (tp_shape t))"

definition expected_data_size :: "tensor_payload \<Rightarrow> u64" where
  "expected_data_size t =
     (let elements = prod_list (map ucast (tp_shape t)) in elements * element_size (tp_dtype t))"

definition tensor_is_valid :: "tensor_payload \<Rightarrow> bool" where
  "tensor_is_valid t \<longleftrightarrow> length (tp_data t) = unat (expected_data_size t)"

definition tensor_vector :: "dtype \<Rightarrow> u8 list \<Rightarrow> tensor_payload" where
  "tensor_vector d dat =
     (let elements = length dat div unat (element_size d) in
      \<lparr>tp_ndim = 1, tp_dtype = d, tp_shape = [of_nat elements], tp_data = dat\<rparr>)"

definition tensor_matrix :: "dtype \<Rightarrow> u32 \<Rightarrow> u32 \<Rightarrow> u8 list \<Rightarrow> tensor_payload" where
  "tensor_matrix d rows cols dat =
     \<lparr>tp_ndim = 2, tp_dtype = d, tp_shape = [rows, cols], tp_data = dat\<rparr>"

record embedding_payload =
  ep_dim :: u16
  ep_dtype :: dtype
  ep_model_hash :: u64
  ep_data :: "u8 list"

definition embedding_new :: "u16 \<Rightarrow> dtype \<Rightarrow> u8 list \<Rightarrow> embedding_payload" where
  "embedding_new dim d dat = \<lparr>ep_dim = dim, ep_dtype = d, ep_model_hash = 0, ep_data = dat\<rparr>"

definition with_model_hash :: "embedding_payload \<Rightarrow> u64 \<Rightarrow> embedding_payload" where
  "with_model_hash e h = e\<lparr>ep_model_hash := h\<rparr>"

definition embedding_is_valid :: "embedding_payload \<Rightarrow> bool" where
  "embedding_is_valid e \<longleftrightarrow>
     length (ep_data e) = unat ((ucast (ep_dim e) :: u64) * element_size (ep_dtype e))"

datatype legacy_protocol = LpTcpRaw | LpHttp1 | LpHttp2 | LpGrpc | LpWebSocket | LpMqtt | LpAmqp

definition lp_from_u8 :: "u8 \<Rightarrow> legacy_protocol option" where
  "lp_from_u8 v =
     (if v = 0x00 then Some LpTcpRaw
      else if v = 0x01 then Some LpHttp1
      else if v = 0x02 then Some LpHttp2
      else if v = 0x03 then Some LpGrpc
      else if v = 0x04 then Some LpWebSocket
      else if v = 0x05 then Some LpMqtt
      else if v = 0x06 then Some LpAmqp
      else None)"

fun lp_to_u8 :: "legacy_protocol \<Rightarrow> u8" where
  "lp_to_u8 LpTcpRaw = 0x00"
| "lp_to_u8 LpHttp1 = 0x01"
| "lp_to_u8 LpHttp2 = 0x02"
| "lp_to_u8 LpGrpc = 0x03"
| "lp_to_u8 LpWebSocket = 0x04"
| "lp_to_u8 LpMqtt = 0x05"
| "lp_to_u8 LpAmqp = 0x06"

datatype delta_encoding = DeXor | DeSparse | DeQuantized | DeCustom

definition de_from_u8 :: "u8 \<Rightarrow> delta_encoding option" where
  "de_from_u8 v =
     (if v = 0x00 then Some DeXor
      else if v = 0x01 then Some DeSparse
      else if v = 0x02 then Some DeQuantized
      else if v = 0x03 then Some DeCustom
      else None)"

fun de_to_u8 :: "delta_encoding \<Rightarrow> u8" where
  "de_to_u8 DeXor = 0x00"
| "de_to_u8 DeSparse = 0x01"
| "de_to_u8 DeQuantized = 0x02"
| "de_to_u8 DeCustom = 0x03"

text \<open>
  The partial code tables share one contract: decoding inverts encoding, and a code that decodes
  is the code of what it decodes to.
\<close>

locale code_table =
  fixes enc :: "'t \<Rightarrow> u8"
    and dec :: "u8 \<Rightarrow> 't option"
  assumes dec_enc: "dec (enc t) = Some t"
    and enc_dec: "dec v = Some t \<Longrightarrow> enc t = v"
begin

lemma code_iff: "dec v = Some t \<longleftrightarrow> v = enc t"
  using dec_enc enc_dec by blast

lemma enc_eq_iff: "enc s = enc t \<longleftrightarrow> s = t"
  by (metis dec_enc option.inject)

lemma dec_None_iff: "dec v = None \<longleftrightarrow> v \<notin> range enc"
  using dec_enc code_iff by (metis not_None_eq rangeE rangeI)

end

interpretation ta: code_table ta_to_u8 ta_from_u8
  by unfold_locales (simp_all add: ta_round_trip ta_from_u8_Some)

interpretation dt: code_table dt_to_u8 dt_from_u8
proof
  show "dt_from_u8 (dt_to_u8 t) = Some t" for t
    by (cases t) (simp_all add: dt_from_u8_def)
  show "dt_from_u8 v = Some t \<Longrightarrow> dt_to_u8 t = v" for v t
    by (auto simp: dt_from_u8_def split: if_splits)
qed

interpretation lp: code_table lp_to_u8 lp_from_u8
proof
  show "lp_from_u8 (lp_to_u8 t) = Some t" for t
    by (cases t) (simp_all add: lp_from_u8_def)
  show "lp_from_u8 v = Some t \<Longrightarrow> lp_to_u8 t = v" for v t
    by (auto simp: lp_from_u8_def split: if_splits)
qed

interpretation de: code_table de_to_u8 de_from_u8
proof
  show "de_from_u8 (de_to_u8 t) = Some t" for t
    by (cases t) (simp_all add: de_from_u8_def)
  show "de_from_u8 v = Some t \<Longrightarrow> de_to_u8 t = v" for v t
    by (auto simp: de_from_u8_def split: if_splits)
qed

end
