(* ===== verification/Frame.thy ===== *)
theory Frame
  imports Types
begin

text \<open>
  The frame of \<open>axiom-types/src/frame.rs\<close>: frame types, priorities, flags, fragment and routing
  extensions, the fixed header, the payload header, the authentication and the complete frame with
  its builders and its wire size. \<open>wf_frame\<close> is what the Rust types guarantee (the lengths of the
  byte arrays) together with what the code that builds frames keeps (codes that fit their bit
  fields, flags that agree with the extensions present, an authentication that fits the trust
  level); the builders keep it.
\<close>

unbundle bit_operations_syntax

section \<open>Frame types, priorities and flags\<close>

datatype frame_type =
  FtIntent | FtFulfill | FtStream | FtSync | FtTrust | FtRoute | FtCompress | FtBridge
| FtAnnounce | FtFlow | FtError | FtFragment | FtPing | FtPong | FtAck | FtNack | FtJoin
| FtLeave | FtReserved u8

definition ft_from_u8 :: "u8 \<Rightarrow> frame_type" where
  "ft_from_u8 v =
     (if v = 0x00 then FtIntent
      else if v = 0x01 then FtFulfill
      else if v = 0x02 then FtStream
      else if v = 0x03 then FtSync
      else if v = 0x04 then FtTrust
      else if v = 0x05 then FtRoute
      else if v = 0x06 then FtCompress
      else if v = 0x07 then FtBridge
      else if v = 0x08 then FtAnnounce
      else if v = 0x09 then FtFlow
      else if v = 0x0A then FtError
      else if v = 0x0B then FtFragment
      else if v = 0x0C then FtPing
      else if v = 0x0D then FtPong
      else if v = 0x0E then FtAck
      else if v = 0x0F then FtNack
      else if v = 0x10 then FtJoin
      else if v = 0x11 then FtLeave
      else FtReserved v)"

fun ft_to_u8 :: "frame_type \<Rightarrow> u8" where
  "ft_to_u8 FtIntent = 0x00"
| "ft_to_u8 FtFulfill = 0x01"
| "ft_to_u8 FtStream = 0x02"
| "ft_to_u8 FtSync = 0x03"
| "ft_to_u8 FtTrust = 0x04"
| "ft_to_u8 FtRoute = 0x05"
| "ft_to_u8 FtCompress = 0x06"
| "ft_to_u8 FtBridge = 0x07"
| "ft_to_u8 FtAnnounce = 0x08"
| "ft_to_u8 FtFlow = 0x09"
| "ft_to_u8 FtError = 0x0A"
| "ft_to_u8 FtFragment = 0x0B"
| "ft_to_u8 FtPing = 0x0C"
| "ft_to_u8 FtPong = 0x0D"
| "ft_to_u8 FtAck = 0x0E"
| "ft_to_u8 FtNack = 0x0F"
| "ft_to_u8 FtJoin = 0x10"
| "ft_to_u8 FtLeave = 0x11"
| "ft_to_u8 (FtReserved v) = v"

fun requires_intent_hash :: "frame_type \<Rightarrow> bool" where
  "requires_intent_hash FtIntent = True"
| "requires_intent_hash FtFulfill = True"
| "requires_intent_hash FtStream = True"
| "requires_intent_hash FtFlow = True"
| "requires_intent_hash _ = False"

fun is_control :: "frame_type \<Rightarrow> bool" where
  "is_control FtSync = True"
| "is_control FtTrust = True"
| "is_control FtRoute = True"
| "is_control FtCompress = True"
| "is_control FtAnnounce = True"
| "is_control FtFlow = True"
| "is_control FtError = True"
| "is_control FtPing = True"
| "is_control FtPong = True"
| "is_control FtAck = True"
| "is_control FtNack = True"
| "is_control FtJoin = True"
| "is_control FtLeave = True"
| "is_control _ = False"

datatype priority = PrLow | PrNormal | PrHigh | PrCritical

definition pr_from_u8 :: "u8 \<Rightarrow> priority" where
  "pr_from_u8 v =
     (let w = v AND 0x03 in
      if w = 0 then PrLow else if w = 1 then PrNormal else if w = 2 then PrHigh else PrCritical)"

fun pr_to_u8 :: "priority \<Rightarrow> u8" where
  "pr_to_u8 PrLow = 0"
| "pr_to_u8 PrNormal = 1"
| "pr_to_u8 PrHigh = 2"
| "pr_to_u8 PrCritical = 3"

definition pr_default :: priority where "pr_default = PrNormal"

instantiation priority :: linorder
begin

definition less_eq_priority :: "priority \<Rightarrow> priority \<Rightarrow> bool" where
  "less_eq_priority a b \<longleftrightarrow> pr_to_u8 a \<le> pr_to_u8 b"

definition less_priority :: "priority \<Rightarrow> priority \<Rightarrow> bool" where
  "less_priority a b \<longleftrightarrow> pr_to_u8 a < pr_to_u8 b"

instance
proof
  fix a b c :: priority
  show "(a < b) = (a \<le> b \<and> \<not> b \<le> a)"
    by (auto simp: less_eq_priority_def less_priority_def)
  show "a \<le> a" by (simp add: less_eq_priority_def)
  show "a \<le> b \<Longrightarrow> b \<le> c \<Longrightarrow> a \<le> c" by (simp add: less_eq_priority_def)
  show "a \<le> b \<Longrightarrow> b \<le> a \<Longrightarrow> a = b"
    by (cases a; cases b) (simp_all add: less_eq_priority_def word_le_nat_alt)
  show "a \<le> b \<or> b \<le> a" by (auto simp: less_eq_priority_def)
qed

end

record frame_flags =
  encrypted :: bool
  compressed :: bool
  fragmented :: bool

definition flags_default :: frame_flags where
  "flags_default = \<lparr>encrypted = False, compressed = False, fragmented = False\<rparr>"

definition flags_from_u8 :: "u8 \<Rightarrow> frame_flags" where
  "flags_from_u8 v =
     \<lparr>encrypted = (v AND 0b001 \<noteq> 0), compressed = (v AND 0b010 \<noteq> 0),
      fragmented = (v AND 0b100 \<noteq> 0)\<rparr>"

definition flags_to_u8 :: "frame_flags \<Rightarrow> u8" where
  "flags_to_u8 f =
     (let v0 = 0;
          v1 = (if encrypted f then v0 OR 0b001 else v0);
          v2 = (if compressed f then v1 OR 0b010 else v1)
      in if fragmented f then v2 OR 0b100 else v2)"

text \<open>The reserved frame types that five bits of the wire can carry.\<close>

definition wf_frame_type :: "frame_type \<Rightarrow> bool" where
  "wf_frame_type t \<longleftrightarrow> (case t of FtReserved v \<Rightarrow> 0x12 \<le> v \<and> v < 0x20 | _ \<Rightarrow> True)"

lemma ft_to_from: "ft_to_u8 (ft_from_u8 v) = v"
  by (simp add: ft_from_u8_def)

lemma ft_from_to: "wf_frame_type t \<Longrightarrow> ft_from_u8 (ft_to_u8 t) = t"
  by (cases t) (auto simp: ft_from_u8_def wf_frame_type_def word_le_nat_alt)

lemma pr_round_trip [simp]: "pr_from_u8 (pr_to_u8 p) = p"
  by (cases p) (simp_all add: pr_from_u8_def)

lemma flags_round_trip [simp]: "flags_from_u8 (flags_to_u8 f) = f"
  by (cases f) (auto simp: flags_from_u8_def flags_to_u8_def)

lemma flags_to_u8_small: "flags_to_u8 f AND 0x07 = flags_to_u8 f"
  by (auto simp: flags_to_u8_def)

section \<open>Extensions\<close>

record fragment_info =
  fi_sequence :: u16
  fi_total :: u16

definition fragment_info_new :: "u16 \<Rightarrow> u16 \<Rightarrow> fragment_info" where
  "fragment_info_new s t = \<lparr>fi_sequence = s, fi_total = t\<rparr>"

definition is_first :: "fragment_info \<Rightarrow> bool" where
  "is_first i \<longleftrightarrow> fi_sequence i = 0"

definition is_last :: "fragment_info \<Rightarrow> bool" where
  "is_last i \<longleftrightarrow> fi_sequence i + 1 = fi_total i"

record routing_ext =
  re_destination :: node_id
  re_ttl :: u8

definition routing_ext_new :: "node_id \<Rightarrow> u8 \<Rightarrow> routing_ext" where
  "routing_ext_new d t = \<lparr>re_destination = d, re_ttl = t\<rparr>"

section \<open>Headers\<close>

record frame_header =
  fh_version :: u8
  fh_frame_type :: frame_type
  fh_flags :: frame_flags
  fh_trust_level :: trust_level
  fh_priority :: priority
  fh_clock :: hybrid_clock
  fh_intent_hash :: intent_hash
  fh_sender_id :: node_id

definition frame_header_new :: "frame_type \<Rightarrow> node_id \<Rightarrow> frame_header" where
  "frame_header_new t sender =
     \<lparr>fh_version = PROTOCOL_VERSION, fh_frame_type = t, fh_flags = flags_default,
      fh_trust_level = tl_default, fh_priority = pr_default, fh_clock = clock_zero,
      fh_intent_hash = intent_hash_zero, fh_sender_id = sender\<rparr>"

definition with_intent :: "frame_header \<Rightarrow> intent_hash \<Rightarrow> frame_header" where
  "with_intent h i = h\<lparr>fh_intent_hash := i\<rparr>"

definition with_clock :: "frame_header \<Rightarrow> hybrid_clock \<Rightarrow> frame_header" where
  "with_clock h c = h\<lparr>fh_clock := c\<rparr>"

definition with_trust_level :: "frame_header \<Rightarrow> trust_level \<Rightarrow> frame_header" where
  "with_trust_level h l = h\<lparr>fh_trust_level := l\<rparr>"

definition with_priority :: "frame_header \<Rightarrow> priority \<Rightarrow> frame_header" where
  "with_priority h p = h\<lparr>fh_priority := p\<rparr>"

definition with_flags :: "frame_header \<Rightarrow> frame_flags \<Rightarrow> frame_header" where
  "with_flags h f = h\<lparr>fh_flags := f\<rparr>"

definition frame_header_default :: frame_header where
  "frame_header_default = frame_header_new FtIntent node_id_zero"

record payload_header =
  ph_payload_type :: payload_type
  ph_length :: u32
  ph_flags :: u8

definition payload_header_new :: "payload_type \<Rightarrow> u32 \<Rightarrow> payload_header" where
  "payload_header_new t len = \<lparr>ph_payload_type = t, ph_length = len, ph_flags = 0\<rparr>"

definition ph_has_trace_id :: "payload_header \<Rightarrow> bool" where
  "ph_has_trace_id h \<longleftrightarrow> ph_flags h AND 0x01 \<noteq> 0"

definition ph_with_trace_id :: "payload_header \<Rightarrow> payload_header" where
  "ph_with_trace_id h = h\<lparr>ph_flags := ph_flags h OR 0x01\<rparr>"

datatype authentication = AuthSignature signature | AuthToken session_token | AuthNone

fun auth_wire_size :: "authentication \<Rightarrow> nat" where
  "auth_wire_size (AuthSignature _) = SIGNATURE_SIZE"
| "auth_wire_size (AuthToken _) = SESSION_TOKEN_SIZE"
| "auth_wire_size AuthNone = 0"

section \<open>Frames\<close>

record frame =
  fr_header :: frame_header
  fr_trace_id :: "trace_id option"
  fr_routing :: "routing_ext option"
  fr_fragment_info :: "fragment_info option"
  fr_payload_header :: payload_header
  fr_payload :: "u8 list"
  fr_auth :: authentication

definition frame_new :: "frame_header \<Rightarrow> payload_type \<Rightarrow> u8 list \<Rightarrow> frame" where
  "frame_new h pt p =
     \<lparr>fr_header = h, fr_trace_id = None, fr_routing = None, fr_fragment_info = None,
      fr_payload_header = payload_header_new pt (of_nat (length p)), fr_payload = p,
      fr_auth = (case fh_trust_level h of
                   TlFull \<Rightarrow> AuthSignature signature_zero
                 | TlSig \<Rightarrow> AuthSignature signature_zero
                 | TlCompress \<Rightarrow> AuthToken session_token_zero
                 | TlRaw \<Rightarrow> AuthNone)\<rparr>"

definition with_routing :: "frame \<Rightarrow> node_id \<Rightarrow> u8 \<Rightarrow> frame" where
  "with_routing f d t = f\<lparr>fr_routing := Some (routing_ext_new d t)\<rparr>"

definition frame_wire_size :: "frame \<Rightarrow> nat" where
  "frame_wire_size f =
     FIXED_HEADER_SIZE
     + (if fr_trace_id f \<noteq> None then TRACE_ID_SIZE else 0)
     + (if fr_routing f \<noteq> None then ROUTING_EXT_SIZE else 0)
     + (if fr_fragment_info f \<noteq> None then 4 else 0)
     + 4 + length (fr_payload f) + auth_wire_size (fr_auth f)"

definition frame_with_trace_id :: "frame \<Rightarrow> trace_id \<Rightarrow> frame" where
  "frame_with_trace_id f t =
     f\<lparr>fr_trace_id := Some t, fr_payload_header := ph_with_trace_id (fr_payload_header f)\<rparr>"

definition with_fragment_info :: "frame \<Rightarrow> fragment_info \<Rightarrow> frame" where
  "with_fragment_info f i =
     f\<lparr>fr_fragment_info := Some i,
       fr_header := (fr_header f)\<lparr>fh_flags := (fh_flags (fr_header f))\<lparr>fragmented := True\<rparr>\<rparr>\<rparr>"

section \<open>Well-formed frames\<close>

definition wf_header :: "frame_header \<Rightarrow> bool" where
  "wf_header h \<longleftrightarrow>
     fh_version h = PROTOCOL_VERSION \<and> wf_frame_type (fh_frame_type h) \<and>
     physical (fh_clock h) \<le> MAX_PHYSICAL \<and> wf_intent_hash (fh_intent_hash h) \<and>
     wf_node_id (fh_sender_id h)"

fun wf_auth :: "trust_level \<Rightarrow> authentication \<Rightarrow> bool" where
  "wf_auth l (AuthSignature s) = (uses_signature l \<and> wf_signature s)"
| "wf_auth l (AuthToken t) = (l = TlCompress \<and> wf_session_token t)"
| "wf_auth l AuthNone = (l = TlRaw)"

definition wf_frame :: "frame \<Rightarrow> bool" where
  "wf_frame f \<longleftrightarrow>
     wf_header (fr_header f) \<and>
     (case fr_trace_id f of None \<Rightarrow> True | Some t \<Rightarrow> wf_trace_id t) \<and>
     (case fr_routing f of None \<Rightarrow> True | Some r \<Rightarrow> wf_node_id (re_destination r)) \<and>
     (fragmented (fh_flags (fr_header f)) \<longleftrightarrow> fr_fragment_info f \<noteq> None) \<and>
     wf_payload_type (ph_payload_type (fr_payload_header f)) \<and>
     ph_length (fr_payload_header f) = of_nat (length (fr_payload f)) \<and>
     ph_flags (fr_payload_header f) AND 0x0F = ph_flags (fr_payload_header f) \<and>
     length (fr_payload f) \<le> MAX_PAYLOAD_SIZE \<and>
     wf_auth (fh_trust_level (fr_header f)) (fr_auth f)"

lemma wf_auth_wire_size: "wf_auth l a \<Longrightarrow> auth_wire_size a = auth_overhead l"
  by (cases l; cases a) (simp_all add: uses_signature_def size_defs)

lemma wf_zero_ids [simp]:
  "wf_intent_hash intent_hash_zero" "wf_signature signature_zero"
  "wf_session_token session_token_zero" "wf_node_id node_id_zero"
  by (simp_all add: wf_id_defs intent_hash_zero_def signature_zero_def session_token_zero_def
      node_id_zero_def)

lemma wf_frame_new:
  assumes "wf_header h" and "\<not> fragmented (fh_flags h)" and "wf_payload_type pt"
    and "length p \<le> MAX_PAYLOAD_SIZE"
  shows "wf_frame (frame_new h pt p)"
  using assms
  by (cases "fh_trust_level h")
    (simp_all add: wf_frame_def frame_new_def payload_header_new_def uses_signature_def)

lemma wf_frame_with_routing: "wf_frame f \<Longrightarrow> wf_node_id d \<Longrightarrow> wf_frame (with_routing f d t)"
  by (simp add: wf_frame_def with_routing_def routing_ext_new_def)

lemma or_one_small: "x AND 0x0F = x \<Longrightarrow> (x OR 0x01) AND 0x0F = x OR (0x01 :: u8)"
  by (simp add: bit.conj_disj_distrib2)

lemma wf_frame_with_trace_id: "wf_frame f \<Longrightarrow> wf_trace_id t \<Longrightarrow> wf_frame (frame_with_trace_id f t)"
  by (simp add: wf_frame_def frame_with_trace_id_def ph_with_trace_id_def or_one_small)

lemma wf_frame_with_fragment_info: "wf_frame f \<Longrightarrow> wf_frame (with_fragment_info f i)"
  by (simp add: wf_frame_def with_fragment_info_def wf_header_def)

lemmas wf_frame_builders = wf_frame_new wf_frame_with_routing wf_frame_with_trace_id
  wf_frame_with_fragment_info

end
