(* ===== verification/Codec.thy ===== *)
theory Codec
  imports Frame
begin

text \<open>
  The frame codec, crate \<open>axiom-codec\<close> (\<open>lib.rs\<close>, \<open>encoder.rs\<close>, \<open>decoder.rs\<close>). The encoder
  writes into a caller's buffer: an operation takes the buffer and returns it written together with
  its outcome, and writing out of range is a panic. The decoder reads slices, out of range again a
  panic. \<open>frame_bytes\<close> is the layout both implement: the encoder writes it and nothing else, the
  decoder inverts it, accepts nothing else up to four reserved bits, and never panics.
\<close>

unbundle bit_operations_syntax

section \<open>Writing into a buffer\<close>

type_synonym 'a enc = "u8 list \<Rightarrow> u8 list \<times> ('a, codec_error) result"

definition ereturn :: "'a \<Rightarrow> 'a enc" where
  "ereturn x buf = (buf, Ok x)"

definition efail :: "codec_error \<Rightarrow> 'a enc" where
  "efail e buf = (buf, Err e)"

definition ebind :: "'a enc \<Rightarrow> ('a \<Rightarrow> 'b enc) \<Rightarrow> 'b enc" where
  "ebind m k buf =
     (case m buf of (b, Ok x) \<Rightarrow> k x b | (b, Err e) \<Rightarrow> (b, Err e) | (b, Panic) \<Rightarrow> (b, Panic))"

text \<open>
  \<open>buffer[i..j].copy_from_slice(src)\<close> (a panic when the range is out of bounds or its length is
  not that of the source), \<open>buffer[i] = v\<close> and a call on \<open>&mut buffer[i..]\<close>.
\<close>

definition put_slice :: "nat \<Rightarrow> nat \<Rightarrow> u8 list \<Rightarrow> unit enc" where
  "put_slice i j src buf =
     (if i \<le> j \<and> j \<le> length buf \<and> length src = j - i
      then (take i buf @ src @ drop j buf, Ok ())
      else (buf, Panic))"

definition put_byte :: "nat \<Rightarrow> u8 \<Rightarrow> unit enc" where
  "put_byte i v buf = (if i < length buf then (buf[i := v], Ok ()) else (buf, Panic))"

definition at_offset :: "nat \<Rightarrow> 'a enc \<Rightarrow> 'a enc" where
  "at_offset i m buf =
     (if i \<le> length buf then (case m (drop i buf) of (b, r) \<Rightarrow> (take i buf @ b, r))
      else (buf, Panic))"

section \<open>The encoder\<close>

definition MIN_FRAME_SIZE :: nat where "MIN_FRAME_SIZE = FIXED_HEADER_SIZE + 4"

definition codec_wire_size :: "nat \<Rightarrow> trust_level \<Rightarrow> bool \<Rightarrow> bool \<Rightarrow> nat" where
  "codec_wire_size payload_len l has_trace_id is_fragmented =
     FIXED_HEADER_SIZE + (if has_trace_id then TRACE_ID_SIZE else 0)
     + (if is_fragmented then 4 else 0) + 4 + payload_len + auth_overhead l"

definition header_byte0 :: "frame_header \<Rightarrow> u8" where
  "header_byte0 h =
     push_bit 6 MAGIC OR push_bit 2 (fh_version h AND 0x0F)
     OR (drop_bit 3 (ft_to_u8 (fh_frame_type h)) AND 0x03)"

definition header_byte1 :: "frame_header \<Rightarrow> u8" where
  "header_byte1 h =
     push_bit 5 (ft_to_u8 (fh_frame_type h) AND 0x07)
     OR push_bit 2 (flags_to_u8 (fh_flags h) AND 0x07)
     OR (tl_to_u8 (fh_trust_level h) AND 0x03)"

definition header_byte2 :: "frame_header \<Rightarrow> bool \<Rightarrow> bool \<Rightarrow> u8" where
  "header_byte2 h has_trace_id has_routing =
     (let trace_flag = (if has_trace_id then 0x20 else 0x00);
          routing_flag = (if has_routing then 0x10 else 0x00)
      in push_bit 6 (pr_to_u8 (fh_priority h) AND 0x03) OR trace_flag OR routing_flag)"

definition encode_fixed_header :: "frame_header \<Rightarrow> bool \<Rightarrow> bool \<Rightarrow> nat enc" where
  "encode_fixed_header h has_trace_id has_routing buf =
     (if length buf < FIXED_HEADER_SIZE
      then efail (BufferTooSmall FIXED_HEADER_SIZE (length buf)) buf
      else
        ebind (put_byte 0 (header_byte0 h)) (\<lambda>_.
        ebind (put_byte 1 (header_byte1 h)) (\<lambda>_.
        ebind (put_byte 2 (header_byte2 h has_trace_id has_routing)) (\<lambda>_.
        ebind (put_slice 3 (3 + CLOCK_SIZE) (clock_to_bytes (fh_clock h))) (\<lambda>_.
        ebind (put_slice 10 (10 + INTENT_HASH_SIZE) (intent_hash_bytes (fh_intent_hash h))) (\<lambda>_.
        ebind (put_slice 26 (26 + NODE_ID_SIZE) (node_id_bytes (fh_sender_id h))) (\<lambda>_.
        ereturn FIXED_HEADER_SIZE)))))) buf)"

definition payload_header_bytes :: "payload_type \<Rightarrow> u32 \<Rightarrow> u8 \<Rightarrow> u8 list" where
  "payload_header_bytes t len flags =
     [push_bit 4 (pt_to_u8 t AND 0x0F) OR (ucast (drop_bit 20 len) AND 0x0F),
      ucast (drop_bit 12 len AND 0xFF),
      ucast (drop_bit 4 len AND 0xFF),
      ucast (push_bit 4 (len AND 0x0F) OR (ucast flags AND 0x0F))]"

definition encode_payload_header :: "payload_type \<Rightarrow> u32 \<Rightarrow> u8 \<Rightarrow> nat enc" where
  "encode_payload_header t len flags buf =
     (if length buf < 4 then efail (BufferTooSmall 4 (length buf)) buf
      else
        (let bs = payload_header_bytes t len flags in
         ebind (put_byte 0 (bs ! 0)) (\<lambda>_.
         ebind (put_byte 1 (bs ! 1)) (\<lambda>_.
         ebind (put_byte 2 (bs ! 2)) (\<lambda>_.
         ebind (put_byte 3 (bs ! 3)) (\<lambda>_.
         ereturn 4)))) buf))"

fun encode_auth :: "authentication \<Rightarrow> nat enc" where
  "encode_auth (AuthSignature sig) buf =
     (if length buf < 64 then efail (BufferTooSmall 64 (length buf)) buf
      else ebind (put_slice 0 64 (signature_bytes sig)) (\<lambda>_. ereturn 64) buf)"
| "encode_auth (AuthToken token) buf =
     (if length buf < 16 then efail (BufferTooSmall 16 (length buf)) buf
      else ebind (put_slice 0 16 (session_token_bytes token)) (\<lambda>_. ereturn 16) buf)"
| "encode_auth AuthNone buf = ereturn 0 buf"

text \<open>The three optional parts of the extended header; each returns the offset behind it.\<close>

definition encode_trace_id :: "trace_id option \<Rightarrow> nat \<Rightarrow> nat enc" where
  "encode_trace_id x offset =
     (case x of
        None \<Rightarrow> ereturn offset
      | Some t \<Rightarrow>
          ebind (put_slice offset (offset + TRACE_ID_SIZE) (trace_id_bytes t)) (\<lambda>_.
          ereturn (offset + TRACE_ID_SIZE)))"

definition encode_routing :: "routing_ext option \<Rightarrow> nat \<Rightarrow> nat enc" where
  "encode_routing x offset =
     (case x of
        None \<Rightarrow> ereturn offset
      | Some r \<Rightarrow>
          ebind (put_slice offset (offset + NODE_ID_SIZE) (node_id_bytes (re_destination r))) (\<lambda>_.
          ebind (put_byte (offset + NODE_ID_SIZE) (re_ttl r)) (\<lambda>_.
          ereturn (offset + NODE_ID_SIZE + 1))))"

definition encode_fragment_info :: "fragment_info option \<Rightarrow> nat \<Rightarrow> nat enc" where
  "encode_fragment_info x offset =
     (case x of
        None \<Rightarrow> ereturn offset
      | Some i \<Rightarrow>
          ebind (put_slice offset (offset + 2) (to_be 2 (fi_sequence i))) (\<lambda>_.
          ebind (put_slice (offset + 2) (offset + 4) (to_be 2 (fi_total i))) (\<lambda>_.
          ereturn (offset + 4))))"

definition encode :: "frame \<Rightarrow> nat enc" where
  "encode f buf =
     (let required_size = frame_wire_size f;
          has_trace_id = (fr_trace_id f \<noteq> None);
          has_routing = (fr_routing f \<noteq> None);
          ph = fr_payload_header f
      in
      if length buf < required_size
      then efail (BufferTooSmall required_size (length buf)) buf
      else if length (fr_payload f) > MAX_PAYLOAD_SIZE
      then efail (PayloadTooLarge (length (fr_payload f))) buf
      else
        ebind (at_offset 0 (encode_fixed_header (fr_header f) has_trace_id has_routing)) (\<lambda>n.
        ebind (encode_trace_id (fr_trace_id f) n) (\<lambda>n.
        ebind (encode_routing (fr_routing f) n) (\<lambda>n.
        ebind (encode_fragment_info (fr_fragment_info f) n) (\<lambda>n.
        ebind (at_offset n (encode_payload_header (ph_payload_type ph)
                 (of_nat (length (fr_payload f))) (ph_flags ph))) (\<lambda>k.
        ebind (put_slice (n + k) (n + k + length (fr_payload f)) (fr_payload f)) (\<lambda>_.
        ebind (at_offset (n + k + length (fr_payload f)) (encode_auth (fr_auth f))) (\<lambda>a.
        ereturn (n + k + length (fr_payload f) + a)))))))) buf)"

text \<open>
  \<open>signature_data\<close> drops the outcome of \<open>encode\<close>, as the source does (\<open>let _ = \<dots>\<close>): after
  an error the buffer is still the zeros it was created with.
\<close>

definition canonical_routing :: "frame \<Rightarrow> frame" where
  "canonical_routing f = f\<lparr>fr_routing := map_option (\<lambda>r. r\<lparr>re_ttl := 0\<rparr>) (fr_routing f)\<rparr>"

definition signature_data :: "frame \<Rightarrow> u8 list" where
  "signature_data f =
     (let canonical = canonical_routing f;
          auth_size = auth_wire_size (fr_auth canonical);
          total_size = frame_wire_size canonical;
          data_size = total_size - auth_size;
          buffer = fst (encode canonical (replicate total_size 0))
      in take data_size buffer)"

section \<open>The decoder\<close>

record decoded_frame =
  df_header :: frame_header
  df_trace_id :: "trace_id option"
  df_routing :: "routing_ext option"
  df_fragment_info :: "fragment_info option"
  df_payload_header :: payload_header
  df_payload :: "u8 list"
  df_auth :: authentication

definition decode_fixed_header ::
    "u8 list \<Rightarrow> (frame_header \<times> bool \<times> bool, codec_error) result" where
  "decode_fixed_header buf =
     rbind (index buf 0) (\<lambda>byte0.
     rbind (index buf 1) (\<lambda>byte1.
     rbind (index buf 2) (\<lambda>byte2.
     if drop_bit 6 byte0 \<noteq> MAGIC then Err InvalidMagic
     else
       (let version = drop_bit 2 byte0 AND 0x0F in
        if version \<noteq> PROTOCOL_VERSION then Err (UnsupportedVersion version)
        else
          rbind (slice buf 3 (3 + CLOCK_SIZE)) (\<lambda>clock_bytes.
          rbind (slice buf 10 (10 + INTENT_HASH_SIZE)) (\<lambda>intent_bytes.
          rbind (slice buf 26 (26 + NODE_ID_SIZE)) (\<lambda>sender_bytes.
          Ok (\<lparr>fh_version = version,
               fh_frame_type =
                 ft_from_u8 (push_bit 3 (byte0 AND 0x03) OR (drop_bit 5 byte1 AND 0x07)),
               fh_flags = flags_from_u8 (drop_bit 2 byte1 AND 0x07),
               fh_trust_level = tl_from_u8 (byte1 AND 0x03),
               fh_priority = pr_from_u8 (drop_bit 6 byte2),
               fh_clock = clock_from_bytes clock_bytes,
               fh_intent_hash = IntentHash intent_bytes,
               fh_sender_id = NodeId sender_bytes\<rparr>,
              byte2 AND 0x20 \<noteq> 0, byte2 AND 0x10 \<noteq> 0))))))))"

definition decode_payload_header :: "u8 list \<Rightarrow> (payload_header, codec_error) result" where
  "decode_payload_header buf =
     rbind (index buf 0) (\<lambda>b0.
     rbind (index buf 1) (\<lambda>b1.
     rbind (index buf 2) (\<lambda>b2.
     rbind (index buf 3) (\<lambda>b3.
     Ok \<lparr>ph_payload_type = pt_from_u8 (drop_bit 4 b0),
         ph_length = push_bit 20 (ucast b0 AND 0x0F) OR push_bit 12 (ucast b1)
                     OR push_bit 4 (ucast b2) OR drop_bit 4 (ucast b3),
         ph_flags = b3 AND 0x0F\<rparr>))))"

fun decode_auth :: "trust_level \<Rightarrow> u8 list \<Rightarrow> (authentication, codec_error) result" where
  "decode_auth TlCompress buf =
     (if length buf < SESSION_TOKEN_SIZE then Err TruncatedFrame
      else rbind (slice buf 0 SESSION_TOKEN_SIZE) (\<lambda>b. Ok (AuthToken (SessionToken b))))"
| "decode_auth TlRaw buf = Ok AuthNone"
| "decode_auth _ buf =
     (if length buf < SIGNATURE_SIZE then Err TruncatedFrame
      else rbind (slice buf 0 SIGNATURE_SIZE) (\<lambda>b. Ok (AuthSignature (Signature b))))"

text \<open>The optional parts: each takes its presence flag and returns the offset behind it.\<close>

definition decode_trace_id ::
    "bool \<Rightarrow> u8 list \<Rightarrow> nat \<Rightarrow> (trace_id option \<times> nat, codec_error) result" where
  "decode_trace_id present buf offset =
     (if present then
        if length buf < offset + TRACE_ID_SIZE then Err TruncatedFrame
        else rbind (slice buf offset (offset + TRACE_ID_SIZE)) (\<lambda>b.
             Ok (Some (TraceId b), offset + TRACE_ID_SIZE))
      else Ok (None, offset))"

definition decode_routing ::
    "bool \<Rightarrow> u8 list \<Rightarrow> nat \<Rightarrow> (routing_ext option \<times> nat, codec_error) result" where
  "decode_routing present buf offset =
     (if present then
        if length buf < offset + NODE_ID_SIZE + 1 then Err TruncatedFrame
        else rbind (slice buf offset (offset + NODE_ID_SIZE)) (\<lambda>b.
             rbind (index buf (offset + NODE_ID_SIZE)) (\<lambda>ttl.
             Ok (Some (routing_ext_new (NodeId b) ttl), offset + NODE_ID_SIZE + 1)))
      else Ok (None, offset))"

definition decode_fragment_info ::
    "bool \<Rightarrow> u8 list \<Rightarrow> nat \<Rightarrow> (fragment_info option \<times> nat, codec_error) result" where
  "decode_fragment_info present buf offset =
     (if present then
        if length buf < offset + 4 then Err TruncatedFrame
        else rbind (index buf offset) (\<lambda>s0.
             rbind (index buf (offset + 1)) (\<lambda>s1.
             rbind (index buf (offset + 2)) (\<lambda>t0.
             rbind (index buf (offset + 3)) (\<lambda>t1.
             Ok (Some (fragment_info_new (from_be [s0, s1]) (from_be [t0, t1])), offset + 4)))))
      else Ok (None, offset))"

text \<open>From the payload header on.\<close>

definition decode_body ::
    "trust_level \<Rightarrow> u8 list \<Rightarrow> nat \<Rightarrow>
       (payload_header \<times> u8 list \<times> authentication, codec_error) result" where
  "decode_body l buf offset =
     (if length buf < offset + 4 then Err TruncatedFrame
      else
        rbind (slice buf offset (offset + 4)) (\<lambda>hb.
        rbind (decode_payload_header hb) (\<lambda>ph.
        (let start = offset + 4; payload_len = unat (ph_length ph); auth_size = auth_overhead l in
         if payload_len > MAX_PAYLOAD_SIZE then Err (PayloadTooLarge payload_len)
         else if length buf < start + payload_len + auth_size then Err TruncatedFrame
         else
           rbind (slice buf start (start + payload_len)) (\<lambda>payload.
           rbind (slice buf (start + payload_len) (start + payload_len + auth_size)) (\<lambda>ab.
           rbind (decode_auth l ab) (\<lambda>auth.
           Ok (ph, payload, auth))))))))"

definition decode :: "u8 list \<Rightarrow> (decoded_frame, codec_error) result" where
  "decode buf =
     (if length buf < MIN_FRAME_SIZE then Err (BufferTooSmall MIN_FRAME_SIZE (length buf))
      else
        rbind (slice buf 0 FIXED_HEADER_SIZE) (\<lambda>hb.
        rbind (decode_fixed_header hb) (\<lambda>(header, has_trace_id, has_routing).
        rbind (decode_trace_id has_trace_id buf FIXED_HEADER_SIZE) (\<lambda>(trace_id, n).
        rbind (decode_routing has_routing buf n) (\<lambda>(routing, n).
        rbind (decode_fragment_info (fragmented (fh_flags header)) buf n) (\<lambda>(fragment_info, n).
        rbind (decode_body (fh_trust_level header) buf n) (\<lambda>(ph, payload, auth).
        Ok \<lparr>df_header = header, df_trace_id = trace_id, df_routing = routing,
            df_fragment_info = fragment_info, df_payload_header = ph, df_payload = payload,
            df_auth = auth\<rparr>)))))))"

definition decode_header :: "u8 list \<Rightarrow> (frame_header, codec_error) result" where
  "decode_header buf =
     (if length buf < FIXED_HEADER_SIZE then Err (BufferTooSmall FIXED_HEADER_SIZE (length buf))
      else
        rbind (slice buf 0 FIXED_HEADER_SIZE) (\<lambda>hb.
        rbind (decode_fixed_header hb) (\<lambda>(header, _, _). Ok header)))"

definition payload_slice :: "u8 list \<Rightarrow> (u8 list, codec_error) result" where
  "payload_slice buf =
     (if length buf < MIN_FRAME_SIZE then Err (BufferTooSmall MIN_FRAME_SIZE (length buf))
      else
        rbind (slice buf 0 FIXED_HEADER_SIZE) (\<lambda>hb.
        rbind (decode_fixed_header hb) (\<lambda>(header, has_trace_id, has_routing).
        (let offset = FIXED_HEADER_SIZE
               + (if has_trace_id then TRACE_ID_SIZE else 0)
               + (if has_routing then NODE_ID_SIZE + 1 else 0)
               + (if fragmented (fh_flags header) then 4 else 0)
         in
         if length buf < offset + 4 then Err TruncatedFrame
         else
           rbind (slice buf offset (offset + 4)) (\<lambda>pb.
           rbind (decode_payload_header pb) (\<lambda>ph.
           (let start = offset + 4; payload_len = unat (ph_length ph) in
            if length buf < start + payload_len then Err TruncatedFrame
            else slice buf start (start + payload_len))))))))"

section \<open>The layout\<close>

definition header_bytes :: "frame_header \<Rightarrow> bool \<Rightarrow> bool \<Rightarrow> u8 list" where
  "header_bytes h t r =
     [header_byte0 h, header_byte1 h, header_byte2 h t r] @ clock_to_bytes (fh_clock h)
     @ intent_hash_bytes (fh_intent_hash h) @ node_id_bytes (fh_sender_id h)"

definition trace_bytes :: "trace_id option \<Rightarrow> u8 list" where
  "trace_bytes x = (case x of None \<Rightarrow> [] | Some t \<Rightarrow> trace_id_bytes t)"

definition routing_bytes :: "routing_ext option \<Rightarrow> u8 list" where
  "routing_bytes x = (case x of None \<Rightarrow> [] | Some r \<Rightarrow> node_id_bytes (re_destination r) @ [re_ttl r])"

definition fragment_bytes :: "fragment_info option \<Rightarrow> u8 list" where
  "fragment_bytes x = (case x of None \<Rightarrow> [] | Some i \<Rightarrow> to_be 2 (fi_sequence i) @ to_be 2 (fi_total i))"

fun auth_bytes :: "authentication \<Rightarrow> u8 list" where
  "auth_bytes (AuthSignature s) = signature_bytes s"
| "auth_bytes (AuthToken t) = session_token_bytes t"
| "auth_bytes AuthNone = []"

definition signed_bytes :: "frame \<Rightarrow> u8 list" where
  "signed_bytes f =
     header_bytes (fr_header f) (fr_trace_id f \<noteq> None) (fr_routing f \<noteq> None)
     @ trace_bytes (fr_trace_id f) @ routing_bytes (fr_routing f)
     @ fragment_bytes (fr_fragment_info f)
     @ payload_header_bytes (ph_payload_type (fr_payload_header f)) (of_nat (length (fr_payload f)))
         (ph_flags (fr_payload_header f))
     @ fr_payload f"

definition frame_bytes :: "frame \<Rightarrow> u8 list" where
  "frame_bytes f = signed_bytes f @ auth_bytes (fr_auth f)"

text \<open>What the Rust types guarantee of any frame: the lengths of its byte arrays.\<close>

fun typed_auth :: "authentication \<Rightarrow> bool" where
  "typed_auth (AuthSignature s) = wf_signature s"
| "typed_auth (AuthToken t) = wf_session_token t"
| "typed_auth AuthNone = True"

definition typed_trace :: "trace_id option \<Rightarrow> bool" where
  "typed_trace x = (case x of None \<Rightarrow> True | Some t \<Rightarrow> wf_trace_id t)"

definition typed_routing :: "routing_ext option \<Rightarrow> bool" where
  "typed_routing x = (case x of None \<Rightarrow> True | Some r \<Rightarrow> wf_node_id (re_destination r))"

definition typed_frame :: "frame \<Rightarrow> bool" where
  "typed_frame f \<longleftrightarrow>
     wf_intent_hash (fh_intent_hash (fr_header f)) \<and> wf_node_id (fh_sender_id (fr_header f)) \<and>
     typed_trace (fr_trace_id f) \<and> typed_routing (fr_routing f) \<and> typed_auth (fr_auth f)"

lemma wf_auth_typed: "wf_auth l a \<Longrightarrow> typed_auth a"
  by (cases a) auto

lemma wf_frame_typed: "wf_frame f \<Longrightarrow> typed_frame f"
  by (auto simp: wf_frame_def typed_frame_def wf_header_def typed_trace_def typed_routing_def
      intro: wf_auth_typed)

lemma length_auth_bytes: "typed_auth a \<Longrightarrow> length (auth_bytes a) = auth_wire_size a"
  by (cases a) (simp_all add: wf_id_defs)

lemma length_header_bytes:
  "wf_intent_hash (fh_intent_hash h) \<Longrightarrow> wf_node_id (fh_sender_id h) \<Longrightarrow>
     length (header_bytes h t r) = FIXED_HEADER_SIZE"
  by (simp add: header_bytes_def wf_id_defs size_defs)

lemma length_trace_bytes:
  "typed_trace x \<Longrightarrow> length (trace_bytes x) = (if x \<noteq> None then TRACE_ID_SIZE else 0)"
  by (cases x) (simp_all add: typed_trace_def trace_bytes_def wf_id_defs)

lemma length_routing_bytes:
  "typed_routing x \<Longrightarrow> length (routing_bytes x) = (if x \<noteq> None then ROUTING_EXT_SIZE else 0)"
  by (cases x) (simp_all add: typed_routing_def routing_bytes_def wf_id_defs size_defs)

lemma length_fragment_bytes: "length (fragment_bytes x) = (if x \<noteq> None then 4 else 0)"
  by (cases x) (simp_all add: fragment_bytes_def)

lemma length_payload_header_bytes [simp]: "length (payload_header_bytes t n fl) = 4"
  by (simp add: payload_header_bytes_def)

lemmas length_parts = length_auth_bytes length_header_bytes length_trace_bytes
  length_routing_bytes length_fragment_bytes

lemma length_frame_bytes: "typed_frame f \<Longrightarrow> length (frame_bytes f) = frame_wire_size f"
  by (simp add: typed_frame_def frame_bytes_def signed_bytes_def frame_wire_size_def length_parts)

lemma length_signed_bytes:
  "typed_frame f \<Longrightarrow> length (signed_bytes f) = frame_wire_size f - auth_wire_size (fr_auth f)"
  using length_frame_bytes [of f] by (simp add: frame_bytes_def typed_frame_def length_auth_bytes)

section \<open>The encoder writes the layout\<close>

text \<open>
  A writer called with the bytes \<open>pre\<close> already in the buffer appends its own; what lies behind
  them is untouched.
\<close>

definition writes :: "'a enc \<Rightarrow> nat \<Rightarrow> u8 list \<Rightarrow> 'a \<Rightarrow> bool" where
  "writes m n w x \<longleftrightarrow>
     (\<forall>pre rest. length pre = n \<longrightarrow> length w \<le> length rest \<longrightarrow>
        m (pre @ rest) = (pre @ w @ drop (length w) rest, Ok x))"

lemma writesD:
  "writes m n w x \<Longrightarrow> length pre = n \<Longrightarrow> length w \<le> length rest \<Longrightarrow>
     m (pre @ rest) = (pre @ w @ drop (length w) rest, Ok x)"
  by (simp add: writes_def)

lemma writes_return: "writes (ereturn x) n [] x"
  by (simp add: writes_def ereturn_def)

lemma writes_bind:
  assumes m: "writes m n w x" and k: "writes (k x) (n + length w) v y"
  shows "writes (ebind m k) n (w @ v) y"
  unfolding writes_def
proof (intro allI impI)
  fix pre rest :: "u8 list"
  assume pre: "length pre = n" and len: "length (w @ v) \<le> length rest"
  have 1: "m (pre @ rest) = ((pre @ w) @ drop (length w) rest, Ok x)"
    using writesD [OF m pre] len by simp
  have "k x ((pre @ w) @ drop (length w) rest)
      = ((pre @ w) @ v @ drop (length v) (drop (length w) rest), Ok y)"
    using writesD [OF k, of "pre @ w" "drop (length w) rest"] pre len by simp
  then show "ebind m k (pre @ rest) = (pre @ (w @ v) @ drop (length (w @ v)) rest, Ok y)"
    using 1 by (simp add: ebind_def add.commute)
qed

lemma writes_put_slice:
  "i = n \<Longrightarrow> j = n + length w \<Longrightarrow> writes (put_slice i j w) n w ()"
  by (auto simp: writes_def put_slice_def)

lemma writes_put_byte: "i = n \<Longrightarrow> writes (put_byte i v) n [v] ()"
  unfolding writes_def
proof (intro allI impI)
  fix pre rest :: "u8 list"
  assume "i = n" "length pre = n" "length [v] \<le> length rest"
  then show "put_byte i v (pre @ rest) = (pre @ [v] @ drop (length [v]) rest, Ok ())"
    by (cases rest) (simp_all add: put_byte_def list_update_append)
qed

lemma writes_at_offset: "writes m 0 w x \<Longrightarrow> i = n \<Longrightarrow> writes (at_offset i m) n w x"
  using writesD [of m 0 w x "[]"] by (auto simp: writes_def at_offset_def)

lemma writes_guard:
  "length w = b \<Longrightarrow> writes m 0 w x \<Longrightarrow>
     writes (\<lambda>buf. if length buf < b then e buf else m buf) 0 w x"
  by (auto simp: writes_def)

lemmas writes_intros = writes_put_byte writes_put_slice writes_return

lemma writes_bind_append:
  "writes m n w x \<Longrightarrow> writes (k x) (n + length w) v y \<Longrightarrow> u = w @ v \<Longrightarrow>
     writes (ebind m k) n u y"
  by (simp add: writes_bind)

lemma writes_fixed_header:
  assumes "wf_intent_hash (fh_intent_hash h)" and "wf_node_id (fh_sender_id h)"
  shows "writes (encode_fixed_header h t r) 0 (header_bytes h t r) FIXED_HEADER_SIZE"
  unfolding encode_fixed_header_def
  by (rule writes_guard, simp add: length_header_bytes assms)
    (rule writes_bind_append | rule writes_intros
      | simp add: header_bytes_def size_defs assms [unfolded wf_id_defs])+

lemma writes_payload_header:
  "writes (encode_payload_header t len flags) 0 (payload_header_bytes t len flags) 4"
  unfolding encode_payload_header_def Let_def
  by (rule writes_guard, simp)
    (rule writes_bind_append | rule writes_intros | simp add: payload_header_bytes_def)+

lemma writes_auth:
  assumes "typed_auth a"
  shows "writes (encode_auth a) 0 (auth_bytes a) (auth_wire_size a)"
proof (cases a)
  case (AuthSignature s)
  then have len: "length (signature_bytes s) = 64" using assms by (simp add: wf_id_defs size_defs)
  show ?thesis unfolding AuthSignature encode_auth.simps auth_bytes.simps auth_wire_size.simps
    by (rule writes_guard, simp add: len)
      (rule writes_bind_append | rule writes_intros | simp add: size_defs len)+
next
  case (AuthToken t)
  then have len: "length (session_token_bytes t) = 16" using assms by (simp add: wf_id_defs size_defs)
  show ?thesis unfolding AuthToken encode_auth.simps auth_bytes.simps auth_wire_size.simps
    by (rule writes_guard, simp add: len)
      (rule writes_bind_append | rule writes_intros | simp add: size_defs len)+
next
  case AuthNone
  then show ?thesis by (simp add: writes_def ereturn_def)
qed

lemma writes_trace_id:
  "typed_trace x \<Longrightarrow>
     writes (encode_trace_id x n) n (trace_bytes x) (n + length (trace_bytes x))"
  by (cases x)
    (auto simp: encode_trace_id_def trace_bytes_def typed_trace_def wf_id_defs
      intro!: writes_return writes_bind_append [OF writes_put_slice])

lemma writes_routing:
  assumes "typed_routing x"
  shows "writes (encode_routing x n) n (routing_bytes x) (n + length (routing_bytes x))"
proof (cases x)
  case None
  then show ?thesis by (simp add: encode_routing_def routing_bytes_def writes_return)
next
  case (Some r)
  then have len: "length (node_id_bytes (re_destination r)) = NODE_ID_SIZE"
    using assms by (simp add: typed_routing_def wf_id_defs)
  have "writes (ebind (put_byte (n + NODE_ID_SIZE) (re_ttl r))
                  (\<lambda>_. ereturn (n + NODE_ID_SIZE + 1)))
          (n + length (node_id_bytes (re_destination r))) [re_ttl r] (n + NODE_ID_SIZE + 1)"
    by (rule writes_bind_append [OF writes_put_byte writes_return]) (simp_all add: len)
  with Some len show ?thesis
    by (auto simp: encode_routing_def routing_bytes_def
        intro!: writes_bind_append [OF writes_put_slice])
qed

lemma writes_fragment_info:
  "writes (encode_fragment_info x n) n (fragment_bytes x) (n + length (fragment_bytes x))"
proof (cases x)
  case None
  then show ?thesis by (simp add: encode_fragment_info_def fragment_bytes_def writes_return)
next
  case (Some i)
  have "writes (ebind (put_slice (n + 2) (n + 4) (to_be 2 (fi_total i))) (\<lambda>_. ereturn (n + 4)))
          (n + length (to_be 2 (fi_sequence i))) (to_be 2 (fi_total i)) (n + 4)"
    by (rule writes_bind_append [OF writes_put_slice writes_return]) simp_all
  from writes_bind [OF writes_put_slice, of n n "n + 2" "to_be 2 (fi_sequence i)" "\<lambda>_. _", OF _ _ this]
  show ?thesis by (simp add: Some encode_fragment_info_def fragment_bytes_def)
qed

lemma writes_body:
  assumes "typed_auth (fr_auth f)"
  shows "writes
     (ebind (at_offset n (encode_payload_header (ph_payload_type (fr_payload_header f))
               (of_nat (length (fr_payload f))) (ph_flags (fr_payload_header f)))) (\<lambda>k.
      ebind (put_slice (n + k) (n + k + length (fr_payload f)) (fr_payload f)) (\<lambda>_.
      ebind (at_offset (n + k + length (fr_payload f)) (encode_auth (fr_auth f))) (\<lambda>a.
      ereturn (n + k + length (fr_payload f) + a)))))
     n
     (payload_header_bytes (ph_payload_type (fr_payload_header f)) (of_nat (length (fr_payload f)))
        (ph_flags (fr_payload_header f)) @ fr_payload f @ auth_bytes (fr_auth f))
     (n + 4 + length (fr_payload f) + auth_wire_size (fr_auth f))"
  by (rule writes_bind_append [OF writes_at_offset [OF writes_payload_header]] refl
      writes_bind_append [OF writes_put_slice]
      writes_bind_append [OF writes_at_offset [OF writes_auth [OF assms]]]
      writes_return | simp)+

lemma encode_writes:
  assumes t: "typed_frame f" and big: "length (fr_payload f) \<le> MAX_PAYLOAD_SIZE"
    and room: "frame_wire_size f \<le> length buf"
  shows "encode f buf =
           (frame_bytes f @ drop (frame_wire_size f) buf, Ok (frame_wire_size f))"
proof -
  let ?h = "fr_header f" and ?t = "fr_trace_id f" and ?r = "fr_routing f" and ?i = "fr_fragment_info f"
  have ty: "wf_intent_hash (fh_intent_hash ?h)" "wf_node_id (fh_sender_id ?h)"
    "typed_trace ?t" "typed_routing ?r" "typed_auth (fr_auth f)"
    using t by (simp_all add: typed_frame_def)
  let ?m = "ebind (at_offset 0 (encode_fixed_header ?h (?t \<noteq> None) (?r \<noteq> None))) (\<lambda>n.
        ebind (encode_trace_id ?t n) (\<lambda>n.
        ebind (encode_routing ?r n) (\<lambda>n.
        ebind (encode_fragment_info ?i n) (\<lambda>n.
        ebind (at_offset n (encode_payload_header (ph_payload_type (fr_payload_header f))
                 (of_nat (length (fr_payload f))) (ph_flags (fr_payload_header f)))) (\<lambda>k.
        ebind (put_slice (n + k) (n + k + length (fr_payload f)) (fr_payload f)) (\<lambda>_.
        ebind (at_offset (n + k + length (fr_payload f)) (encode_auth (fr_auth f))) (\<lambda>a.
        ereturn (n + k + length (fr_payload f) + a))))))))"
  have "writes ?m 0 (frame_bytes f) (length (signed_bytes f) + auth_wire_size (fr_auth f))"
    unfolding frame_bytes_def signed_bytes_def append.assoc
    by (rule writes_bind [OF writes_at_offset [OF writes_fixed_header]] ty refl
        writes_bind [OF writes_trace_id] writes_bind [OF writes_routing]
        writes_bind [OF writes_fragment_info]
      | simp add: length_header_bytes ty
      | rule writes_body [OF ty(5), THEN arg_cong [of _ _ "writes _ _ _", THEN iffD1, rotated]])+
  moreover have len: "length (frame_bytes f) = frame_wire_size f"
    by (rule length_frame_bytes [OF t])
  moreover from len ty(5) have "length (signed_bytes f) + auth_wire_size (fr_auth f) = frame_wire_size f"
    by (simp add: frame_bytes_def length_auth_bytes)
  ultimately have "writes ?m 0 (frame_bytes f) (frame_wire_size f)" by (simp only:)
  from writesD [OF this, of "[]" buf] len room
  have "?m buf = (frame_bytes f @ drop (frame_wire_size f) buf, Ok (frame_wire_size f))"
    by (simp only: list.size append_Nil)
  moreover have "encode f buf = ?m buf"
    using room big by (simp only: encode_def Let_def not_less [symmetric] if_False)
  ultimately show ?thesis by (simp only:)
qed

lemma encode_cases:
  assumes "typed_frame f"
  shows "encode f buf =
     (if length buf < frame_wire_size f
      then (buf, Err (BufferTooSmall (frame_wire_size f) (length buf)))
      else if length (fr_payload f) > MAX_PAYLOAD_SIZE
      then (buf, Err (PayloadTooLarge (length (fr_payload f))))
      else (frame_bytes f @ drop (frame_wire_size f) buf, Ok (frame_wire_size f)))"
  using encode_writes [OF assms, of buf] by (simp add: encode_def efail_def)

section \<open>The bit fields of the headers\<close>

lemma u8_eqI:
  assumes "\<And>n. n \<in> {0, 1, 2, 3, 4, 5, 6, 7} \<Longrightarrow> bit x n \<longleftrightarrow> bit (y :: u8) n"
  shows "x = y"
proof (rule bit_word_eqI)
  fix n :: nat
  assume "n < LENGTH(8)"
  then have "n \<in> {0, 1, 2, 3, 4, 5, 6, 7}" by auto
  then show "bit x n \<longleftrightarrow> bit y n" by (rule assms)
qed

lemma byte0_fields:
  fixes v t :: u8
  defines "b \<equiv> push_bit 6 MAGIC OR push_bit 2 (v AND 0x0F) OR (drop_bit 3 t AND 0x03)"
  shows "drop_bit 6 b = MAGIC" and "drop_bit 2 b AND 0x0F = v AND 0x0F"
    and "b AND 0x03 = drop_bit 3 t AND 0x03"
  unfolding b_def by (rule u8_eqI; auto simp: bit_simps MAGIC_def)+

lemma byte1_fields:
  fixes t f l :: u8
  defines "b \<equiv> push_bit 5 (t AND 0x07) OR push_bit 2 (f AND 0x07) OR (l AND 0x03)"
  shows "drop_bit 5 b AND 0x07 = t AND 0x07" and "drop_bit 2 b AND 0x07 = f AND 0x07"
    and "b AND 0x03 = l AND 0x03"
  unfolding b_def by (rule u8_eqI; auto simp: bit_simps)+

lemma byte2_fields:
  fixes p :: u8
  defines "b \<equiv> \<lambda>t r. push_bit 6 (p AND 0x03) OR (if t then 0x20 else 0) OR (if r then 0x10 else 0)"
  shows "drop_bit 6 (b t r) = p AND 0x03" and "b t r AND 0x20 \<noteq> 0 \<longleftrightarrow> t"
    and "b t r AND 0x10 \<noteq> 0 \<longleftrightarrow> r"
proof -
  show "drop_bit 6 (b t r) = p AND 0x03"
    unfolding b_def by (rule u8_eqI) (auto simp: bit_simps)
  have "b t r AND 0x20 = (if t then 0x20 else 0)"
    unfolding b_def by (rule u8_eqI) (auto simp: bit_simps)
  then show "b t r AND 0x20 \<noteq> 0 \<longleftrightarrow> t" by simp
  have "b t r AND 0x10 = (if r then 0x10 else 0)"
    unfolding b_def by (rule u8_eqI) (auto simp: bit_simps)
  then show "b t r AND 0x10 \<noteq> 0 \<longleftrightarrow> r" by simp
qed

lemma type_fields: "push_bit 3 (drop_bit 3 t AND 0x03) OR (t AND 0x07) = t AND (0x1F :: u8)"
  by (rule u8_eqI) (auto simp: bit_simps)

lemma ft_to_u8_small: "wf_frame_type t \<Longrightarrow> ft_to_u8 t AND 0x1F = ft_to_u8 t"
proof (cases t)
  case (FtReserved v)
  moreover assume "wf_frame_type t"
  ultimately have "unat v < 2 ^ 5" by (simp add: wf_frame_type_def word_less_nat_alt)
  then have "unat (take_bit 5 v) = unat v"
    by (simp only: unsigned_take_bit_eq take_bit_nat_eq_self)
  then have "take_bit 5 v = v" by (simp only: word_unat_eq_iff)
  then show ?thesis using FtReserved by (simp add: take_bit_eq_mask mask_eq_exp_minus_1)
qed simp_all

lemma tl_bits: "tl_from_u8 (tl_to_u8 l AND 0x03) = l"
  by (cases l) (simp_all add: tl_from_u8_def)

lemma pr_bits: "pr_from_u8 (pr_to_u8 p AND 0x03) = p"
  by (cases p) (simp_all add: pr_from_u8_def)

section \<open>The decoder inverts the layout\<close>

lemma decode_header_bytes:
  assumes "wf_header h"
  shows "decode_fixed_header (header_bytes h t r) = Ok (h, t, r)"
proof -
  have ids: "length (intent_hash_bytes (fh_intent_hash h)) = 16"
    "length (node_id_bytes (fh_sender_id h)) = 32"
    using assms by (simp_all add: wf_header_def wf_id_defs size_defs)
  have clk: "clock_from_bytes (clock_to_bytes (fh_clock h)) = fh_clock h"
    using assms by (cases "fh_clock h")
      (simp add: clock_from_to_bytes wf_header_def take_bit_MAX_PHYSICAL)
  have ver: "fh_version h = PROTOCOL_VERSION" "wf_frame_type (fh_frame_type h)"
    using assms by (simp_all add: wf_header_def)
  have byte0: "drop_bit 6 (header_byte0 h) = MAGIC"
    "drop_bit 2 (header_byte0 h) AND 0x0F = fh_version h AND 0x0F"
    "header_byte0 h AND 0x03 = drop_bit 3 (ft_to_u8 (fh_frame_type h)) AND 0x03"
    unfolding header_byte0_def by (rule byte0_fields)+
  have byte1: "drop_bit 5 (header_byte1 h) AND 0x07 = ft_to_u8 (fh_frame_type h) AND 0x07"
    "drop_bit 2 (header_byte1 h) AND 0x07 = flags_to_u8 (fh_flags h) AND 0x07"
    "header_byte1 h AND 0x03 = tl_to_u8 (fh_trust_level h) AND 0x03"
    unfolding header_byte1_def by (rule byte1_fields)+
  have byte2: "drop_bit 6 (header_byte2 h t r) = pr_to_u8 (fh_priority h) AND 0x03"
    "header_byte2 h t r AND 0x20 \<noteq> 0 \<longleftrightarrow> t" "header_byte2 h t r AND 0x10 \<noteq> 0 \<longleftrightarrow> r"
    unfolding header_byte2_def Let_def by (rule byte2_fields)+
  have ver': "fh_version h AND 0x0F = fh_version h"
    using ver by (simp add: PROTOCOL_VERSION_def)
  have fields: "index (header_bytes h t r) 0 = Ok (header_byte0 h)"
    "index (header_bytes h t r) 1 = Ok (header_byte1 h)"
    "index (header_bytes h t r) 2 = Ok (header_byte2 h t r)"
    "slice (header_bytes h t r) 3 (3 + CLOCK_SIZE) = Ok (clock_to_bytes (fh_clock h))"
    "slice (header_bytes h t r) 10 (10 + INTENT_HASH_SIZE) = Ok (intent_hash_bytes (fh_intent_hash h))"
    "slice (header_bytes h t r) 26 (26 + NODE_ID_SIZE) = Ok (node_id_bytes (fh_sender_id h))"
    using ids by (simp_all add: header_bytes_def index_def slice_def size_defs)
  show ?thesis
    unfolding decode_fixed_header_def fields rbind.simps Let_def byte0 byte1 byte2 ver' type_fields
    by (simp add: ver clk ft_to_u8_small ft_from_to flags_to_u8_small tl_bits pr_bits)
qed


text \<open>
  The contract of an optional field: given the flag that says whether the field is there, its
  reader returns what was written and the offset behind it; it never reads out of range; what it
  reads is what the writer writes for the value it returns.
\<close>

locale optional_field =
  fixes enc :: "'a option \<Rightarrow> u8 list"
    and dec :: "bool \<Rightarrow> u8 list \<Rightarrow> nat \<Rightarrow> ('a option \<times> nat, codec_error) result"
    and typed :: "'a option \<Rightarrow> bool"
  assumes dec_enc: "typed x \<Longrightarrow> length pre = n \<Longrightarrow>
      dec (x \<noteq> None) (pre @ enc x @ post) n = Ok (x, n + length (enc x))"
    and dec_total: "dec b buf n \<noteq> Panic"
    and dec_sound: "dec b buf n = Ok (x, m) \<Longrightarrow> n \<le> length buf \<Longrightarrow>
      typed x \<and> (x \<noteq> None \<longleftrightarrow> b) \<and> m = n + length (enc x) \<and> m \<le> length buf \<and>
      take (length (enc x)) (drop n buf) = enc x"
    and dec_error: "dec b buf n = Err e \<Longrightarrow> e = TruncatedFrame"
begin

lemma dec_enc_bind:
  "typed x \<Longrightarrow> length pre = n \<Longrightarrow>
     rbind (dec (x \<noteq> None) (pre @ enc x @ post) n) k = k (x, n + length (enc x))"
  by (simp only: dec_enc rbind.simps)

lemma dec_bind_total:
  "(\<And>x m. dec b buf n = Ok (x, m) \<Longrightarrow> k (x, m) \<noteq> Panic) \<Longrightarrow> rbind (dec b buf n) k \<noteq> Panic"
  by (rule rbind_not_Panic) (auto simp: dec_total)

lemma dec_take:
  "dec b buf n = Ok (x, m) \<Longrightarrow> n \<le> length buf \<Longrightarrow> take m buf = take n buf @ enc x"
  using dec_sound [of b buf n x m] by (auto simp: take_add)

end

lemma take_drop_nth: "n + 1 \<le> length xs \<Longrightarrow> take 1 (drop n xs) = [xs ! n]"
  by (cases "drop n xs") (auto simp: nth_via_drop)

interpretation trace: optional_field trace_bytes decode_trace_id typed_trace
proof
  fix x :: "trace_id option" and pre post :: "u8 list" and n
  assume "typed_trace x" "length pre = n"
  then show "decode_trace_id (x \<noteq> None) (pre @ trace_bytes x @ post) n
      = Ok (x, n + length (trace_bytes x))"
    by (cases x) (auto simp: decode_trace_id_def trace_bytes_def typed_trace_def wf_id_defs slice_def)
next
  fix b buf n x m
  assume "decode_trace_id b buf n = Ok (x, m)" "n \<le> length buf"
  then show "typed_trace x \<and> (x \<noteq> None \<longleftrightarrow> b) \<and> m = n + length (trace_bytes x) \<and> m \<le> length buf \<and>
      take (length (trace_bytes x)) (drop n buf) = trace_bytes x"
    by (auto simp: decode_trace_id_def trace_bytes_def typed_trace_def wf_id_defs slice_def
        split: if_splits)
qed (auto simp: decode_trace_id_def slice_def split: if_splits)

interpretation routing: optional_field routing_bytes decode_routing typed_routing
proof
  fix x :: "routing_ext option" and pre post :: "u8 list" and n
  assume "typed_routing x" "length pre = n"
  then show "decode_routing (x \<noteq> None) (pre @ routing_bytes x @ post) n
      = Ok (x, n + length (routing_bytes x))"
    by (cases x) (auto simp: decode_routing_def routing_bytes_def typed_routing_def wf_id_defs
        slice_def index_def routing_ext_new_def nth_append)
next
  fix b buf n x m
  assume "decode_routing b buf n = Ok (x, m)" "n \<le> length buf"
  then show "typed_routing x \<and> (x \<noteq> None \<longleftrightarrow> b) \<and> m = n + length (routing_bytes x) \<and>
      m \<le> length buf \<and> take (length (routing_bytes x)) (drop n buf) = routing_bytes x"
    using take_drop_nth [of "n + NODE_ID_SIZE" buf]
    by (auto simp: decode_routing_def routing_bytes_def typed_routing_def wf_id_defs slice_def
        index_def routing_ext_new_def take_Suc_conv_app_nth split: if_splits)
qed (auto simp: decode_routing_def slice_def index_def split: if_splits)

lemma to_be_from_be_2: "to_be 2 (from_be [a, b] :: u16) = [a, b]"
proof -
  have "ucast (drop_bit 8 (push_bit 8 (ucast a) OR ucast b :: u16)) = a"
    by (rule u8_eqI) (auto simp: bit_simps dest: bit_imp_le_length)
  moreover have "ucast (push_bit 8 (ucast a) OR ucast b :: u16) = b"
    by (rule u8_eqI) (auto simp: bit_simps)
  ultimately show ?thesis by (simp add: to_be_2 from_be_def)
qed

lemma from_be_split_2: "from_be [to_be 2 x ! 0, to_be 2 x ! 1] = (x :: u16)"
  using from_be_to_be_u16 [of x] by (simp add: to_be_2)

lemma take_4_nth:
  "n + 4 \<le> length xs \<Longrightarrow> take 4 (drop n xs) = [xs ! n, xs ! (n + 1), xs ! (n + 2), xs ! (n + 3)]"
  by (rule nth_equalityI) (auto simp: less_Suc_eq numeral_eq_Suc)

interpretation frag: optional_field fragment_bytes decode_fragment_info "\<lambda>_. True"
proof
  fix x :: "fragment_info option" and pre post :: "u8 list" and n
  assume "length pre = n"
  then show "decode_fragment_info (x \<noteq> None) (pre @ fragment_bytes x @ post) n
      = Ok (x, n + length (fragment_bytes x))"
    using from_be_split_2
    by (cases x) (auto simp: decode_fragment_info_def fragment_bytes_def index_def
        fragment_info_new_def nth_append)
next
  fix b buf n x m
  assume "decode_fragment_info b buf n = Ok (x, m)" "n \<le> length buf"
  then show "True \<and> (x \<noteq> None \<longleftrightarrow> b) \<and> m = n + length (fragment_bytes x) \<and>
      m \<le> length buf \<and> take (length (fragment_bytes x)) (drop n buf) = fragment_bytes x"
    unfolding length_fragment_bytes
    by (auto simp: decode_fragment_info_def fragment_bytes_def index_def fragment_info_new_def
        to_be_from_be_2 take_4_nth split: if_splits)
qed (auto simp: decode_fragment_info_def index_def split: if_splits)

section \<open>Payload header and body\<close>

lemma low_24: "unat (z :: u32) < 2 ^ 24 \<Longrightarrow> bit z n \<Longrightarrow> n < 24"
proof (rule ccontr)
  assume z: "unat z < 2 ^ 24" and b: "bit z n" and "\<not> n < 24"
  have "take_bit 24 z = z"
    using z by (simp only: word_unat_eq_iff unsigned_take_bit_eq take_bit_nat_eq_self)
  then have "bit (take_bit 24 z) n" using b by simp
  then show False using \<open>\<not> n < 24\<close> by (simp add: bit_simps)
qed

lemma below_32:
  "n < (32 :: nat) \<Longrightarrow>
     n \<in> {0,1,2,3,4,5,6,7,8,9,10,11,12,13,14,15,16,17,18,19,20,21,22,23,24,25,26,27,28,29,30,31}"
  by (simp add: eval_nat_numeral less_Suc_eq)

lemma length_fields:
  fixes len :: u32
  assumes "unat len < 2 ^ 24"
  defines "b0 \<equiv> \<lambda>t. push_bit 4 (t AND 0x0F) OR (ucast (drop_bit 20 len) AND 0x0F) :: u8"
    and "b3 \<equiv> \<lambda>fl :: u8. ucast (push_bit 4 (len AND 0x0F) OR (ucast fl AND 0x0F)) :: u8"
  shows "push_bit 20 (ucast (b0 t) AND 0x0F) OR push_bit 12 (ucast (ucast (drop_bit 12 len AND 0xFF) :: u8))
      OR push_bit 4 (ucast (ucast (drop_bit 4 len AND 0xFF) :: u8)) OR drop_bit 4 (ucast (b3 fl)) = len"
    (is "?l = len")
proof (rule bit_word_eqI)
  fix n :: nat
  assume "n < LENGTH(32)"
  then have n: "n < 32" by simp
  have high: "24 \<le> m \<Longrightarrow> \<not> bit len m" for m
    using low_24 [OF assms(1), of m] by auto
  from below_32 [OF n] show "bit ?l n \<longleftrightarrow> bit len n"
    by (simp only: insert_iff empty_iff) (elim disjE; simp add: b0_def b3_def bit_simps high)
qed

lemma type_field:
  "drop_bit 4 (push_bit 4 (t AND 0x0F) OR (x AND 0x0F)) = t AND (0x0F :: u8)"
  by (rule u8_eqI) (auto simp: bit_simps)

lemma flags_field:
  "ucast (push_bit 4 (len AND 0x0F) OR (ucast fl AND 0x0F) :: u32) AND 0x0F = fl AND (0x0F :: u8)"
  by (rule u8_eqI) (auto simp: bit_simps)

lemma decode_payload_header_bytes:
  assumes "wf_payload_type t" and "unat len < 2 ^ 24" and "fl AND 0x0F = fl"
  shows "decode_payload_header (payload_header_bytes t len fl)
       = Ok \<lparr>ph_payload_type = t, ph_length = len, ph_flags = fl\<rparr>"
proof -
  let ?b = "payload_header_bytes t len fl"
  have ix: "index ?b 0 = Ok (?b ! 0)" "index ?b 1 = Ok (?b ! 1)" "index ?b 2 = Ok (?b ! 2)"
    "index ?b 3 = Ok (?b ! 3)"
    by (simp_all add: index_def)
  have nth: "?b ! 0 = push_bit 4 (pt_to_u8 t AND 0x0F) OR (ucast (drop_bit 20 len) AND 0x0F)"
    "?b ! 1 = ucast (drop_bit 12 len AND 0xFF)" "?b ! 2 = ucast (drop_bit 4 len AND 0xFF)"
    "?b ! 3 = ucast (push_bit 4 (len AND 0x0F) OR (ucast fl AND 0x0F))"
    by (simp_all add: payload_header_bytes_def)
  show ?thesis
    unfolding decode_payload_header_def ix rbind.simps nth length_fields [OF assms(2)] type_field
      flags_field
    by (simp add: assms(3) pt_to_u8_small pt_round_trip assms(1))
qed

lemma unat_payload_length: "n \<le> MAX_PAYLOAD_SIZE \<Longrightarrow> unat (of_nat n :: u32) = n"
  by (simp add: MAX_PAYLOAD_SIZE_def unsigned_of_nat take_bit_nat_eq_self)

lemma decode_auth_bytes: "wf_auth l a \<Longrightarrow> decode_auth l (auth_bytes a) = Ok a"
  by (cases l; cases a) (auto simp: slice_def wf_id_defs uses_signature_def)

lemma decode_body_bytes:
  assumes "wf_frame f" and pre: "length pre = n"
  shows "decode_body (fh_trust_level (fr_header f))
      (pre @ payload_header_bytes (ph_payload_type (fr_payload_header f))
         (of_nat (length (fr_payload f))) (ph_flags (fr_payload_header f))
       @ fr_payload f @ auth_bytes (fr_auth f) @ post) n
    = Ok (fr_payload_header f, fr_payload f, fr_auth f)"
proof -
  let ?l = "fh_trust_level (fr_header f)" and ?p = "fr_payload f"
  let ?h = "payload_header_bytes (ph_payload_type (fr_payload_header f)) (of_nat (length ?p))
              (ph_flags (fr_payload_header f))"
  let ?buf = "pre @ ?h @ ?p @ auth_bytes (fr_auth f) @ post"
  have wf: "wf_payload_type (ph_payload_type (fr_payload_header f))" "length ?p \<le> MAX_PAYLOAD_SIZE"
    "ph_flags (fr_payload_header f) AND 0x0F = ph_flags (fr_payload_header f)"
    "ph_length (fr_payload_header f) = of_nat (length ?p)" "wf_auth ?l (fr_auth f)"
    using assms(1) by (simp_all add: wf_frame_def)
  have len: "unat (of_nat (length ?p) :: u32) = length ?p"
    using wf(2) by (rule unat_payload_length)
  have alen: "auth_overhead ?l = length (auth_bytes (fr_auth f))"
    using wf(5) by (simp add: wf_auth_wire_size [symmetric] length_auth_bytes wf_auth_typed)
  have ph: "decode_payload_header ?h = Ok (fr_payload_header f)"
    using wf by (simp add: decode_payload_header_bytes len MAX_PAYLOAD_SIZE_def)
  have s1: "slice ?buf n (n + 4) = Ok ?h"
    using pre by (simp add: slice_def)
  have s2: "slice ?buf (n + 4) (n + 4 + length ?p) = Ok ?p"
    using pre slice_append_mid [of "pre @ ?h" "n + 4" "n + 4 + length ?p" ?p] by simp
  have s3: "slice ?buf (n + 4 + length ?p) (n + 4 + length ?p + length (auth_bytes (fr_auth f)))
      = Ok (auth_bytes (fr_auth f))"
    using pre slice_append_mid [of "pre @ ?h @ ?p" "n + 4 + length ?p"
        "n + 4 + length ?p + length (auth_bytes (fr_auth f))" "auth_bytes (fr_auth f)"]
    by simp
  show ?thesis
    using wf(2) pre
    by (simp add: decode_body_def s1 s2 s3 ph wf(4) len alen Let_def decode_auth_bytes [OF wf(5)])
qed

definition as_frame :: "decoded_frame \<Rightarrow> frame" where
  "as_frame d =
     \<lparr>fr_header = df_header d, fr_trace_id = df_trace_id d, fr_routing = df_routing d,
      fr_fragment_info = df_fragment_info d, fr_payload_header = df_payload_header d,
      fr_payload = df_payload d, fr_auth = df_auth d\<rparr>"

lemma as_frame_inj: "as_frame d = as_frame e \<Longrightarrow> d = e"
  by (simp add: as_frame_def)

definition of_frame :: "frame \<Rightarrow> decoded_frame" where
  "of_frame f =
     \<lparr>df_header = fr_header f, df_trace_id = fr_trace_id f, df_routing = fr_routing f,
      df_fragment_info = fr_fragment_info f, df_payload_header = fr_payload_header f,
      df_payload = fr_payload f, df_auth = fr_auth f\<rparr>"

lemma as_of_frame [simp]: "as_frame (of_frame f) = f"
  by (simp add: as_frame_def of_frame_def)

section \<open>Decoding what was encoded\<close>

lemma decode_frame_bytes:
  assumes "wf_frame f"
  shows "decode (frame_bytes f @ rest) = Ok (of_frame f)"
proof -
  let ?h = "fr_header f" and ?t = "fr_trace_id f" and ?r = "fr_routing f" and ?i = "fr_fragment_info f"
  let ?hb = "header_bytes ?h (?t \<noteq> None) (?r \<noteq> None)"
  let ?pb = "payload_header_bytes (ph_payload_type (fr_payload_header f))
      (of_nat (length (fr_payload f))) (ph_flags (fr_payload_header f))"
  let ?tail = "?pb @ fr_payload f @ auth_bytes (fr_auth f) @ rest"
  let ?n0 = FIXED_HEADER_SIZE
  let ?n1 = "?n0 + length (trace_bytes ?t)"
  let ?n2 = "?n1 + length (routing_bytes ?r)"
  let ?n3 = "?n2 + length (fragment_bytes ?i)"
  have ty: "typed_trace ?t" "typed_routing ?r" "wf_header ?h"
    "fragmented (fh_flags ?h) \<longleftrightarrow> ?i \<noteq> None"
    using wf_frame_typed [OF assms] assms by (simp_all add: typed_frame_def wf_frame_def)
  have hl: "length ?hb = ?n0" using ty(3) by (simp add: wf_header_def length_header_bytes)
  have buf: "frame_bytes f @ rest
      = ?hb @ trace_bytes ?t @ routing_bytes ?r @ fragment_bytes ?i @ ?tail"
    by (simp add: frame_bytes_def signed_bytes_def)
  have min: "MIN_FRAME_SIZE \<le> length (frame_bytes f @ rest)"
    using hl unfolding buf by (simp add: MIN_FRAME_SIZE_def)
  have s0: "slice (frame_bytes f @ rest) 0 ?n0 = Ok ?hb"
    unfolding buf using hl by (simp add: slice_def)
  have s1: "decode_trace_id (?t \<noteq> None) (frame_bytes f @ rest) ?n0 = Ok (?t, ?n1)"
    unfolding buf by (rule trace.dec_enc [OF ty(1) hl])
  have s2: "decode_routing (?r \<noteq> None) (frame_bytes f @ rest) ?n1 = Ok (?r, ?n2)"
    using routing.dec_enc [OF ty(2), of "?hb @ trace_bytes ?t" ?n1] hl
    unfolding buf append.assoc by (simp only: length_append)
  have s3: "decode_fragment_info (?i \<noteq> None) (frame_bytes f @ rest) ?n2 = Ok (?i, ?n3)"
    using frag.dec_enc [OF TrueI, of "?hb @ trace_bytes ?t @ routing_bytes ?r" ?n2] hl
    unfolding buf append.assoc by (simp only: length_append add.assoc)
  have s4: "decode_body (fh_trust_level ?h) (frame_bytes f @ rest) ?n3
      = Ok (fr_payload_header f, fr_payload f, fr_auth f)"
    using decode_body_bytes [OF assms,
        of "?hb @ trace_bytes ?t @ routing_bytes ?r @ fragment_bytes ?i" ?n3 rest] hl
    unfolding buf append.assoc by (simp only: length_append add.assoc)
  show ?thesis
    using min unfolding decode_def s0 rbind.simps decode_header_bytes [OF ty(3)] split_conv s1 s2
      ty(4) s3 s4 by (simp add: of_frame_def)
qed

section \<open>Decoding anything\<close>

lemma decode_fixed_header_total: "length buf = FIXED_HEADER_SIZE \<Longrightarrow> decode_fixed_header buf \<noteq> Panic"
  by (simp add: decode_fixed_header_def index_def slice_def size_defs Let_def)

lemma decode_payload_header_ok: "length buf = 4 \<Longrightarrow> \<exists>ph. decode_payload_header buf = Ok ph"
  by (simp add: decode_payload_header_def index_def)

lemma decode_auth_total: "length buf = auth_overhead l \<Longrightarrow> \<exists>a. decode_auth l buf = Ok a"
  by (cases l) (simp_all add: slice_def size_defs)

lemma decode_body_total: "decode_body l buf n \<noteq> Panic"
proof (cases "length buf < n + 4")
  case False
  then have s: "slice buf n (n + 4) = Ok (take 4 (drop n buf))" and
    l: "length (take 4 (drop n buf)) = 4"
    by (simp_all add: slice_def)
  obtain ph where ph: "decode_payload_header (take 4 (drop n buf)) = Ok ph"
    using decode_payload_header_ok [OF l] by blast
  show ?thesis
    using False decode_auth_total [of "take (auth_overhead l) (drop (n + 4 + unat (ph_length ph)) buf)" l]
    by (auto simp: decode_body_def s ph Let_def slice_def result_simps)
qed (simp add: decode_body_def)

lemma decode_total: "decode buf \<noteq> Panic"
proof (cases "length buf < MIN_FRAME_SIZE")
  case False
  then have "length (take FIXED_HEADER_SIZE buf) = FIXED_HEADER_SIZE"
    by (simp add: MIN_FRAME_SIZE_def)
  with False show ?thesis
    using decode_fixed_header_total [of "take FIXED_HEADER_SIZE buf"]
    by (auto simp: decode_def slice_def MIN_FRAME_SIZE_def result_simps trace.dec_total
        routing.dec_total frag.dec_total decode_body_total)
qed (simp add: decode_def)

lemma payload_slice_total: "payload_slice buf \<noteq> Panic"
proof (cases "length buf < MIN_FRAME_SIZE")
  case False
  then have "slice buf 0 FIXED_HEADER_SIZE = Ok (take FIXED_HEADER_SIZE buf)"
    and "length (take FIXED_HEADER_SIZE buf) = FIXED_HEADER_SIZE"
    by (simp_all add: slice_def MIN_FRAME_SIZE_def)
  moreover have "decode_payload_header (take 4 (drop n buf)) \<noteq> Panic" if "\<not> length buf < n + 4" for n
    using decode_payload_header_ok [of "take 4 (drop n buf)"] that by auto
  ultimately show ?thesis
    using False decode_fixed_header_total [of "take FIXED_HEADER_SIZE buf"]
    by (auto simp: payload_slice_def slice_def Let_def result_simps split: if_splits)
qed (simp add: payload_slice_def)

section \<open>What is decoded is what was on the wire\<close>

lemma to_be_from_be:
  "8 * length bs \<le> LENGTH('a) \<Longrightarrow> to_be (length bs) (from_be bs :: 'a::len word) = bs"
proof (induction bs rule: rev_induct)
  case Nil
  show ?case by simp
next
  case (snoc b bs)
  let ?x = "from_be bs :: 'a word"
  have IH: "to_be (length bs) ?x = bs" using snoc by simp
  have tb: "take_bit (8 * length bs) ?x = ?x"
    using from_be_to_be [of "length bs" ?x] by (simp add: IH)
  have "drop_bit 8 (push_bit 8 ?x OR ucast b) = ?x"
  proof (rule bit_word_eqI)
    fix n
    assume "n < LENGTH('a)"
    have "bit ?x n \<Longrightarrow> n < 8 * length bs"
      using tb by (metis bit_take_bit_iff)
    then show "bit (drop_bit 8 (push_bit 8 ?x OR ucast b)) n \<longleftrightarrow> bit ?x n"
      using snoc.prems by (auto simp: bit_simps dest: bit_imp_le_length)
  qed
  moreover have "ucast (push_bit 8 ?x OR ucast b) = b"
    using snoc.prems by (intro u8_eqI) (auto simp: bit_simps)
  ultimately show ?case by (simp add: from_be_snoc IH)
qed

lemma from_be_5_bound: "length bs = 5 \<Longrightarrow> (from_be bs :: u64) \<le> MAX_PHYSICAL"
proof -
  assume len: "length bs = 5"
  have "from_be bs = take_bit 40 (from_be bs :: u64)"
    using to_be_from_be [of bs, where 'a = 64] from_be_to_be [of 5 "from_be bs :: u64"] len by simp
  then have "unat (from_be bs :: u64) = take_bit 40 (unat (from_be bs :: u64))"
    by (metis unsigned_take_bit_eq)
  then have "unat (from_be bs :: u64) < 2 ^ 40" by (metis take_bit_nat_less_exp)
  then show ?thesis by (simp add: MAX_PHYSICAL_def word_le_nat_alt)
qed

lemma clock_to_from_bytes:
  assumes "length bs = 7"
  shows "clock_to_bytes (clock_from_bytes bs) = bs"
    and "physical (clock_from_bytes bs) \<le> MAX_PHYSICAL"
proof -
  have "to_be 5 (from_be (take 5 bs) :: u64) = take 5 bs"
    using to_be_from_be [of "take 5 bs", where 'a = 64] assms by (simp add: min_def)
  moreover have "[bs ! 5, bs ! 6] = drop 5 bs"
    using assms by (intro nth_equalityI) (auto simp: less_Suc_eq numeral_eq_Suc)
  ultimately show "clock_to_bytes (clock_from_bytes bs) = bs"
    unfolding clock_to_bytes_be clock_from_bytes_def hybrid_clock.sel from_be_zeros to_be_from_be_2
    by simp
  show "physical (clock_from_bytes bs) \<le> MAX_PHYSICAL"
    unfolding clock_from_bytes_def hybrid_clock.sel from_be_zeros
    by (rule from_be_5_bound) (simp add: assms)
qed

lemma flags_to_from: "flags_to_u8 (flags_from_u8 v) = v AND 0x07"
proof -
  have b: "v AND 1 \<noteq> 0 \<longleftrightarrow> bit v 0" "v AND 2 \<noteq> 0 \<longleftrightarrow> bit v 1" "v AND 4 \<noteq> 0 \<longleftrightarrow> bit v 2"
    using bit_iff_and_push_bit_not_eq_0 [of v 0] bit_iff_and_push_bit_not_eq_0 [of v 1]
      bit_iff_and_push_bit_not_eq_0 [of v 2]
    by simp_all
  show ?thesis
    unfolding flags_to_u8_def flags_from_u8_def Let_def frame_flags.simps b
    by (rule u8_eqI) (auto simp: bit_simps)
qed

lemma and_3_cases: "(v :: u8) AND 3 = 0 \<or> v AND 3 = 1 \<or> v AND 3 = 2 \<or> v AND 3 = 3"
proof -
  have "v AND 3 = take_bit 2 v" by (simp add: take_bit_eq_mask mask_eq_exp_minus_1)
  then have "unat (v AND 3) < 4"
    using take_bit_nat_less_exp [of 2 "unat v"] by (simp add: unsigned_take_bit_eq)
  then have "unat (v AND 3) = unat (0 :: u8) \<or> unat (v AND 3) = unat (1 :: u8) \<or>
      unat (v AND 3) = unat (2 :: u8) \<or> unat (v AND 3) = unat (3 :: u8)"
    by auto
  then show ?thesis by (simp only: word_unat_eq_iff)
qed

lemma pr_to_from: "pr_to_u8 (pr_from_u8 v) = v AND 0x03"
  using and_3_cases [of v] by (auto simp: pr_from_u8_def)

lemma tl_to_from: "tl_to_u8 (tl_from_u8 v) = v AND 0x03"
  using and_3_cases [of v] by (auto simp: tl_from_u8_def)

lemma byte0_unpack:
  "push_bit 6 (drop_bit 6 b0) OR push_bit 2 ((drop_bit 2 b0 AND 0x0F) AND 0x0F)
   OR (drop_bit 3 (push_bit 3 (b0 AND 0x03) OR (drop_bit 5 b1 AND 0x07)) AND 0x03) = (b0 :: u8)"
  by (rule u8_eqI) (auto simp: bit_simps numeral_2_eq_2 [symmetric])

lemma byte1_unpack:
  "push_bit 5 ((push_bit 3 (b0 AND 0x03) OR (drop_bit 5 b1 AND 0x07)) AND 0x07)
   OR push_bit 2 (((drop_bit 2 b1 AND 0x07) AND 0x07) AND 0x07) OR (((b1 AND 0x03) AND 0x03) AND 0x03)
   = (b1 :: u8)"
  by (rule u8_eqI) (auto simp: bit_simps numeral_2_eq_2 [symmetric])

lemma byte2_unpack:
  "push_bit 6 ((drop_bit 6 b AND 0x03) AND 0x03) OR (if b AND 0x20 \<noteq> 0 then 0x20 else 0)
   OR (if b AND 0x10 \<noteq> 0 then 0x10 else 0) = b AND (0xF0 :: u8)"
proof -
  have "(if b AND 0x20 \<noteq> 0 then 0x20 else 0) = b AND 0x20" "(if b AND 0x10 \<noteq> 0 then 0x10 else 0) = b AND 0x10"
    by (rule u8_eqI; auto simp: bit_simps and_exp_eq_0_iff_not_bit [where n = 5, simplified]
        and_exp_eq_0_iff_not_bit [where n = 4, simplified])+
  then show ?thesis by simp (rule u8_eqI; auto simp: bit_simps)
qed

lemma wf_type_of_bits: "v AND 0x1F = v \<Longrightarrow> wf_frame_type (ft_from_u8 v)"
proof -
  assume v: "v AND 0x1F = v"
  then have "take_bit 5 v = v" by (simp add: take_bit_eq_mask mask_eq_exp_minus_1)
  then have u: "unat v < 2 ^ 5" by (metis take_bit_nat_less_exp unsigned_take_bit_eq)
  have "18 \<le> unat v" if "ft_from_u8 v = FtReserved v"
  proof (rule ccontr)
    assume "\<not> 18 \<le> unat v"
    then have "unat v \<in> {0,1,2,3,4,5,6,7,8,9,10,11,12,13,14,15,16,17}"
      by (simp add: eval_nat_numeral less_Suc_eq not_le)
    then have "of_nat (unat v) \<in> (of_nat ` {0,1,2,3,4,5,6,7,8,9,10,11,12,13,14,15,16,17} :: u8 set)"
      by (rule imageI)
    then have "v \<in> {0,1,2,3,4,5,6,7,8,9,10,11,12,13,14,15,16,17}" by simp
    then show False using that by (elim insertE) (simp_all add: ft_from_u8_def)
  qed
  then show ?thesis
    using u by (auto simp: wf_frame_type_def ft_from_u8_def word_le_nat_alt word_less_nat_alt)
qed

lemma decode_fixed_header_sound:
  assumes ok: "decode_fixed_header buf = Ok (h, t, r)" and len: "length buf = FIXED_HEADER_SIZE"
  shows "wf_header h" and "header_bytes h t r = buf[2 := buf ! 2 AND 0xF0]"
proof -
  let ?ft = "push_bit 3 (buf ! 0 AND 0x03) OR (drop_bit 5 (buf ! 1) AND 0x07)"
  have ft: "?ft AND 0x1F = ?ft" by (rule u8_eqI) (auto simp: bit_simps)
  have f: "drop_bit 6 (buf ! 0) = MAGIC" "drop_bit 2 (buf ! 0) AND 0x0F = PROTOCOL_VERSION"
    "h = \<lparr>fh_version = drop_bit 2 (buf ! 0) AND 0x0F, fh_frame_type = ft_from_u8 ?ft,
          fh_flags = flags_from_u8 (drop_bit 2 (buf ! 1) AND 0x07),
          fh_trust_level = tl_from_u8 (buf ! 1 AND 0x03),
          fh_priority = pr_from_u8 (drop_bit 6 (buf ! 2)),
          fh_clock = clock_from_bytes (take 7 (drop 3 buf)),
          fh_intent_hash = IntentHash (take 16 (drop 10 buf)),
          fh_sender_id = NodeId (take 32 (drop 26 buf))\<rparr>"
    "t = (buf ! 2 AND 0x20 \<noteq> 0)" "r = (buf ! 2 AND 0x10 \<noteq> 0)"
    using ok len
    by (simp_all add: decode_fixed_header_def index_def slice_def size_defs Let_def split: if_splits)
  have clk: "length (take 7 (drop 3 buf)) = 7" using len by (simp add: size_defs)
  have wft: "wf_frame_type (fh_frame_type h)"
    unfolding f(3) frame_header.simps by (rule wf_type_of_bits [OF ft])
  show "wf_header h"
    unfolding wf_header_def using len clock_to_from_bytes(2) [OF clk]
    by (intro conjI wft) (simp_all add: f(3) f(2) wf_id_defs size_defs)
  have b0: "header_byte0 h = buf ! 0"
    unfolding header_byte0_def f(3) frame_header.simps ft_to_from f(1) [symmetric]
    by (rule byte0_unpack)
  have b1: "header_byte1 h = buf ! 1"
    unfolding header_byte1_def f(3) frame_header.simps ft_to_from flags_to_from tl_to_from
    by (rule byte1_unpack)
  have b2: "header_byte2 h t r = buf ! 2 AND 0xF0"
    unfolding header_byte2_def f(3-5) frame_header.simps pr_to_from Let_def
    by (rule byte2_unpack)
  have "header_bytes h t r = [buf ! 0, buf ! 1, buf ! 2 AND 0xF0]
      @ take 7 (drop 3 buf) @ take 16 (drop 10 buf) @ take 32 (drop 26 buf)"
    unfolding header_bytes_def b0 b1 b2 by (simp add: f(3) clock_to_from_bytes(1) [OF clk])
  also have "\<dots> = buf[2 := buf ! 2 AND 0xF0]"
    using len by (intro nth_equalityI)
      (auto simp: size_defs nth_append nth_Cons' nth_list_update numeral_2_eq_2 le_Suc_eq)
  finally show "header_bytes h t r = buf[2 := buf ! 2 AND 0xF0]" .
qed

lemma u8_high: "8 \<le> m \<Longrightarrow> \<not> bit b m"
  for b :: u8
  by (auto dest: bit_imp_le_length)

lemma payload_length_unpack:
  fixes b0 b1 b2 b3 :: u8
  defines "l \<equiv> push_bit 20 (ucast b0 AND 0x0F) OR push_bit 12 (ucast b1) OR push_bit 4 (ucast b2)
      OR drop_bit 4 (ucast b3) :: u32"
  shows "push_bit 4 ((drop_bit 4 b0 AND 0x0F) AND 0x0F) OR (ucast (drop_bit 20 l) AND 0x0F) = b0"
    and "ucast (drop_bit 12 l AND 0xFF) = b1" and "ucast (drop_bit 4 l AND 0xFF) = b2"
    and "ucast (push_bit 4 (l AND 0x0F) OR (ucast (b3 AND 0x0F) AND 0x0F)) = b3"
    and "take_bit 24 l = l"
proof -
  show "push_bit 4 ((drop_bit 4 b0 AND 0x0F) AND 0x0F) OR (ucast (drop_bit 20 l) AND 0x0F) = b0"
    unfolding l_def by (rule u8_eqI) (elim insertE; simp add: bit_simps u8_high)
  show "ucast (drop_bit 12 l AND 0xFF) = b1"
    unfolding l_def by (rule u8_eqI) (elim insertE; simp add: bit_simps u8_high)
  show "ucast (drop_bit 4 l AND 0xFF) = b2"
    unfolding l_def by (rule u8_eqI) (elim insertE; simp add: bit_simps u8_high)
  show "ucast (push_bit 4 (l AND 0x0F) OR (ucast (b3 AND 0x0F) AND 0x0F)) = b3"
    unfolding l_def by (rule u8_eqI) (elim insertE; simp add: bit_simps u8_high)
  show "take_bit 24 l = l"
  proof (rule bit_word_eqI)
    fix n :: nat
    assume "n < LENGTH(32)"
    then have n: "n < 32" by simp
    from below_32 [OF n] show "bit (take_bit 24 l) n \<longleftrightarrow> bit l n"
      by (simp only: insert_iff empty_iff) (elim disjE; simp add: l_def bit_simps u8_high)
  qed
qed

lemma pt_to_from: "pt_to_u8 (pt_from_u8 v) = v AND 0x0F"
  by (simp add: pt_from_u8_def Let_def)

lemma and_15_cases:
  "(v :: u8) AND 15 \<in> {0,1,2,3,4,5,6,7,8,9,10,11,12,13,14,15}"
proof -
  have "v AND 15 = take_bit 4 v" by (simp add: take_bit_eq_mask mask_eq_exp_minus_1)
  then have "unat (v AND 15) < 16"
    using take_bit_nat_less_exp [of 4 "unat v"] by (simp add: unsigned_take_bit_eq)
  then have "unat (v AND 15) \<in> {0,1,2,3,4,5,6,7,8,9,10,11,12,13,14,15}"
    by (simp add: eval_nat_numeral less_Suc_eq)
  then have "of_nat (unat (v AND 15))
      \<in> (of_nat ` {0,1,2,3,4,5,6,7,8,9,10,11,12,13,14,15} :: u8 set)"
    by (rule imageI)
  then show ?thesis by simp
qed

lemma wf_pt_from: "wf_payload_type (pt_from_u8 v)"
  using and_15_cases [of v]
  by (elim insertE) (simp_all add: pt_from_u8_def wf_payload_type_def Let_def)

lemma decode_payload_header_sound:
  assumes ok: "decode_payload_header buf = Ok ph" and len: "length buf = 4"
  shows "wf_payload_type (ph_payload_type ph)" and "unat (ph_length ph) < 2 ^ 24"
    and "ph_flags ph AND 0x0F = ph_flags ph"
    and "payload_header_bytes (ph_payload_type ph) (ph_length ph) (ph_flags ph) = buf"
proof -
  obtain b0 b1 b2 b3 where buf: "buf = [b0, b1, b2, b3]"
    using len by (auto simp: eval_nat_numeral length_Suc_conv)
  let ?l = "push_bit 20 (ucast b0 AND 0x0F) OR push_bit 12 (ucast b1) OR push_bit 4 (ucast b2)
      OR drop_bit 4 (ucast b3) :: u32"
  have ph: "ph = \<lparr>ph_payload_type = pt_from_u8 (drop_bit 4 b0), ph_length = ?l,
                  ph_flags = b3 AND 0x0F\<rparr>"
    using ok unfolding buf decode_payload_header_def index_def by simp
  show "wf_payload_type (ph_payload_type ph)" by (simp add: ph wf_pt_from)
  show "ph_flags ph AND 0x0F = ph_flags ph" by (simp add: ph and.assoc)
  have "unat (ph_length ph) = take_bit 24 (unat (ph_length ph))"
    unfolding ph payload_header.simps unsigned_take_bit_eq [symmetric] payload_length_unpack(5) ..
  then show "unat (ph_length ph) < 2 ^ 24" by (metis take_bit_nat_less_exp)
  show "payload_header_bytes (ph_payload_type ph) (ph_length ph) (ph_flags ph) = buf"
    unfolding ph payload_header.simps payload_header_bytes_def pt_to_from payload_length_unpack buf ..
qed

lemma decode_auth_sound:
  assumes "decode_auth l buf = Ok a" and "length buf = auth_overhead l"
  shows "wf_auth l a" and "auth_bytes a = buf"
  using assms by (cases l; auto simp: slice_def wf_id_defs uses_signature_def size_defs split: if_splits)+

lemma decode_body_sound:
  assumes ok: "decode_body l buf n = Ok (ph, p, a)"
  shows "wf_payload_type (ph_payload_type ph)" and "ph_flags ph AND 0x0F = ph_flags ph"
    and "ph_length ph = of_nat (length p)" and "length p \<le> MAX_PAYLOAD_SIZE" and "wf_auth l a"
    and "n + 4 + length p + length (auth_bytes a) \<le> length buf"
    and "take (4 + length p + length (auth_bytes a)) (drop n buf)
       = payload_header_bytes (ph_payload_type ph) (of_nat (length p)) (ph_flags ph) @ p @ auth_bytes a"
proof -
  let ?hb = "take 4 (drop n buf)" and ?k = "unat (ph_length ph)"
  let ?ab = "take (auth_overhead l) (drop (n + 4 + ?k) buf)"
  have f: "n + 4 \<le> length buf" "decode_payload_header ?hb = Ok ph" "?k \<le> MAX_PAYLOAD_SIZE"
    "n + 4 + ?k + auth_overhead l \<le> length buf" "p = take ?k (drop (n + 4) buf)"
    "decode_auth l ?ab = Ok a"
    using ok by (auto simp: decode_body_def Let_def slice_def result_simps split: if_splits)
  have hl: "length ?hb = 4" and al: "length ?ab = auth_overhead l" and pl: "length p = ?k"
    using f(1,4) by (simp_all add: f(5))
  note h = decode_payload_header_sound [OF f(2) hl] and au = decode_auth_sound [OF f(6) al]
  show "wf_payload_type (ph_payload_type ph)" "ph_flags ph AND 0x0F = ph_flags ph" "wf_auth l a"
    by (fact h(1) h(3) au(1))+
  show len: "ph_length ph = of_nat (length p)" by (simp add: pl)
  show "length p \<le> MAX_PAYLOAD_SIZE" using f(3) pl by simp
  have abl: "length (auth_bytes a) = auth_overhead l" using al by (simp only: au(2))
  show "n + 4 + length p + length (auth_bytes a) \<le> length buf"
    using f(4) by (simp add: abl pl)
  have "take (4 + ?k + auth_overhead l) (drop n buf) = ?hb @ p @ ?ab"
    unfolding f(5) take_add drop_drop by (simp add: ac_simps)
  then show "take (4 + length p + length (auth_bytes a)) (drop n buf)
      = payload_header_bytes (ph_payload_type ph) (of_nat (length p)) (ph_flags ph) @ p @ auth_bytes a"
    unfolding abl pl len [symmetric, unfolded pl] h(4) unfolding au(2) .
qed

lemma list_update_append_left: "i < length xs \<Longrightarrow> (xs @ ys)[i := v] = xs[i := v] @ ys"
  by (simp add: list_update_append1)

lemma decode_sound:
  assumes ok: "decode buf = Ok d"
  shows "wf_frame (as_frame d)" and "frame_wire_size (as_frame d) \<le> length buf"
    and "frame_bytes (as_frame d) = (take (frame_wire_size (as_frame d)) buf)[2 := buf ! 2 AND 0xF0]"
proof -
  let ?n0 = FIXED_HEADER_SIZE and ?hb = "take FIXED_HEADER_SIZE buf"
  obtain h t r tr n1 ro n2 fi n3 ph p a where
    min: "MIN_FRAME_SIZE \<le> length buf" and h: "decode_fixed_header ?hb = Ok (h, t, r)"
    and tr: "decode_trace_id t buf ?n0 = Ok (tr, n1)" and ro: "decode_routing r buf n1 = Ok (ro, n2)"
    and fi: "decode_fragment_info (fragmented (fh_flags h)) buf n2 = Ok (fi, n3)"
    and bd: "decode_body (fh_trust_level h) buf n3 = Ok (ph, p, a)"
    and d: "d = \<lparr>df_header = h, df_trace_id = tr, df_routing = ro, df_fragment_info = fi,
                 df_payload_header = ph, df_payload = p, df_auth = a\<rparr>"
    using ok by (auto simp: decode_def slice_def result_simps MIN_FRAME_SIZE_def split: if_splits)
  have b0: "?n0 \<le> length buf" and hl: "length ?hb = ?n0" using min by (simp_all add: MIN_FRAME_SIZE_def)
  note hs = decode_fixed_header_sound [OF h hl]
  note s1 = trace.dec_sound [OF tr b0]
  note s2 = routing.dec_sound [OF ro, rule_format]
  have n1: "n1 \<le> length buf" using s1 by blast
  note s2 = routing.dec_sound [OF ro n1]
  have n2: "n2 \<le> length buf" using s2 by blast
  note s3 = frag.dec_sound [OF fi n2]
  note bs = decode_body_sound [OF bd]
  show wf: "wf_frame (as_frame d)"
    using hs(1) s1 s2 s3 bs(1-5)
    by (simp add: wf_frame_def as_frame_def d typed_trace_def typed_routing_def)
  have split: "take (frame_wire_size (as_frame d)) buf =
      ?hb @ trace_bytes tr @ routing_bytes ro @ fragment_bytes fi
      @ payload_header_bytes (ph_payload_type ph) (of_nat (length p)) (ph_flags ph) @ p @ auth_bytes a"
    and len: "frame_wire_size (as_frame d) \<le> length buf"
  proof -
    have w: "frame_wire_size (as_frame d) = n3 + (4 + length p + length (auth_bytes a))"
      unfolding length_frame_bytes [OF wf_frame_typed [OF wf], symmetric]
      using s1 s2 s3 hs(1)
      by (simp add: as_frame_def d frame_bytes_def signed_bytes_def length_header_bytes wf_header_def)
    have t3: "take n3 buf = ?hb @ trace_bytes tr @ routing_bytes ro @ fragment_bytes fi"
      unfolding frag.dec_take [OF fi n2] routing.dec_take [OF ro n1] trace.dec_take [OF tr b0]
      by simp
    show "take (frame_wire_size (as_frame d)) buf =
      ?hb @ trace_bytes tr @ routing_bytes ro @ fragment_bytes fi
      @ payload_header_bytes (ph_payload_type ph) (of_nat (length p)) (ph_flags ph) @ p @ auth_bytes a"
      unfolding w take_add [of n3 "4 + length p + length (auth_bytes a)" buf] t3 bs(7) by simp
    show "frame_wire_size (as_frame d) \<le> length buf" using bs(6) unfolding w by simp
  qed
  show "frame_wire_size (as_frame d) \<le> length buf" by (fact len)
  have "2 < length ?hb" using hl by (simp add: size_defs)
  moreover have "?hb[2 := buf ! 2 AND 0xF0] = header_bytes h t r"
    using hs(2) by (simp add: size_defs)
  moreover have "(tr \<noteq> None) = t" "(ro \<noteq> None) = r" using s1 s2 by blast+
  ultimately show "frame_bytes (as_frame d)
      = (take (frame_wire_size (as_frame d)) buf)[2 := buf ! 2 AND 0xF0]"
    unfolding split
    by (simp only: list_update_append_left)
      (simp add: frame_bytes_def signed_bytes_def as_frame_def d)
qed

lemma payload_slice_decode:
  assumes "decode buf = Ok d"
  shows "payload_slice buf = Ok (df_payload d)"
proof -
  let ?f = "as_frame d" and ?hb = "take FIXED_HEADER_SIZE buf"
  obtain h t r tr n1 ro n2 fi n3 ph p a where
    min: "MIN_FRAME_SIZE \<le> length buf" and h: "decode_fixed_header ?hb = Ok (h, t, r)"
    and tr: "decode_trace_id t buf FIXED_HEADER_SIZE = Ok (tr, n1)"
    and ro: "decode_routing r buf n1 = Ok (ro, n2)"
    and fi: "decode_fragment_info (fragmented (fh_flags h)) buf n2 = Ok (fi, n3)"
    and bd: "decode_body (fh_trust_level h) buf n3 = Ok (ph, p, a)" and d: "df_payload d = p"
    using assms by (auto simp: decode_def slice_def result_simps MIN_FRAME_SIZE_def split: if_splits)
  have n3: "n3 = FIXED_HEADER_SIZE + (if t then TRACE_ID_SIZE else 0)
      + (if r then NODE_ID_SIZE + 1 else 0) + (if fragmented (fh_flags h) then 4 else 0)"
    using tr ro fi by (auto simp: decode_trace_id_def decode_routing_def decode_fragment_info_def
        slice_def index_def split: if_splits)
  show ?thesis
    using min bd unfolding d payload_slice_def
    by (auto simp: h slice_def MIN_FRAME_SIZE_def n3 [symmetric] decode_body_def Let_def result_simps
        split: if_splits intro!: exI [of _ ph])
qed

section \<open>What a signature covers\<close>

lemma canonical_simps [simp]:
  "fr_header (canonical_routing f) = fr_header f"
  "fr_trace_id (canonical_routing f) = fr_trace_id f"
  "fr_fragment_info (canonical_routing f) = fr_fragment_info f"
  "fr_payload_header (canonical_routing f) = fr_payload_header f"
  "fr_payload (canonical_routing f) = fr_payload f"
  "fr_auth (canonical_routing f) = fr_auth f"
  "fr_routing (canonical_routing f) = None \<longleftrightarrow> fr_routing f = None"
  by (simp_all add: canonical_routing_def)

lemma wf_frame_canonical [simp]: "wf_frame (canonical_routing f) \<longleftrightarrow> wf_frame f"
  by (cases "fr_routing f") (simp_all add: wf_frame_def canonical_routing_def)

lemma typed_frame_canonical [simp]: "typed_frame (canonical_routing f) \<longleftrightarrow> typed_frame f"
  by (cases "fr_routing f") (simp_all add: typed_frame_def typed_routing_def canonical_routing_def)

lemma wire_size_canonical [simp]: "frame_wire_size (canonical_routing f) = frame_wire_size f"
  by (simp add: frame_wire_size_def)

lemma signature_data_bytes:
  assumes "typed_frame f" and "length (fr_payload f) \<le> MAX_PAYLOAD_SIZE"
  shows "signature_data f = signed_bytes (canonical_routing f)"
proof -
  have "length (signed_bytes (canonical_routing f)) = frame_wire_size f - auth_wire_size (fr_auth f)"
    using length_signed_bytes [of "canonical_routing f"] assms(1) by simp
  then show ?thesis
    using assms encode_cases [of "canonical_routing f"]
    by (simp add: signature_data_def Let_def frame_bytes_def)
qed

lemma wf_frame_set_auth:
  "wf_frame f \<Longrightarrow> wf_auth (fh_trust_level (fr_header f)) a \<Longrightarrow> wf_frame (f\<lparr>fr_auth := a\<rparr>)"
  by (simp add: wf_frame_def)

lemma signed_bytes_set_auth [simp]: "signed_bytes (f\<lparr>fr_auth := a\<rparr>) = signed_bytes f"
  by (simp add: signed_bytes_def)

lemma signed_bytes_inj:
  assumes f: "wf_frame f" and g: "wf_frame g" and eq: "signed_bytes f = signed_bytes g"
  shows "f\<lparr>fr_auth := AuthNone\<rparr> = g\<lparr>fr_auth := AuthNone\<rparr>"
proof -
  have hd: "fr_header f = fr_header g"
  proof -
    let ?hf = "header_bytes (fr_header f) (fr_trace_id f \<noteq> None) (fr_routing f \<noteq> None)"
    let ?hg = "header_bytes (fr_header g) (fr_trace_id g \<noteq> None) (fr_routing g \<noteq> None)"
    have "length ?hf = FIXED_HEADER_SIZE" "length ?hg = FIXED_HEADER_SIZE"
      using f g by (simp_all add: wf_frame_def wf_header_def length_header_bytes)
    then have bytes: "?hf = ?hg" using eq by (simp add: signed_bytes_def)
    have "decode_fixed_header ?hf = Ok (fr_header f, fr_trace_id f \<noteq> None, fr_routing f \<noteq> None)"
      "decode_fixed_header ?hg = Ok (fr_header g, fr_trace_id g \<noteq> None, fr_routing g \<noteq> None)"
      using f g by (auto intro!: decode_header_bytes simp: wf_frame_def)
    then show ?thesis unfolding bytes by (simp only: result.inject prod.inject)
  qed
  let ?g = "g\<lparr>fr_auth := fr_auth f\<rparr>"
  have "wf_frame ?g" using f g hd by (intro wf_frame_set_auth) (simp_all add: wf_frame_def)
  moreover have "frame_bytes f = frame_bytes ?g" by (simp add: frame_bytes_def eq)
  ultimately have "of_frame f = of_frame ?g"
    using decode_frame_bytes [OF f, of "[]"] decode_frame_bytes [of ?g "[]"] by simp
  then have "f = ?g" by (metis as_of_frame)
  then show ?thesis by (cases f, cases g) simp
qed

section \<open>Properties\<close>

text \<open>
  C29: encoding a well-formed frame into any buffer with room succeeds and writes exactly its wire
  size, leaving the rest of the buffer alone; decoding the buffer, whatever follows the frame,
  gives the frame back.
\<close>

theorem encode_decode:
  assumes "wf_frame f" and "frame_wire_size f \<le> length buf"
  shows "\<exists>out. encode f buf = (out, Ok (frame_wire_size f)) \<and> length out = length buf \<and>
           drop (frame_wire_size f) out = drop (frame_wire_size f) buf \<and>
           decode (take (frame_wire_size f) out @ rest) = Ok (of_frame f)"
proof -
  have t: "typed_frame f" by (rule wf_frame_typed [OF assms(1)])
  have "encode f buf = (frame_bytes f @ drop (frame_wire_size f) buf, Ok (frame_wire_size f))"
    using assms by (intro encode_writes t) (simp_all add: wf_frame_def)
  then show ?thesis
    using assms(2) length_frame_bytes [OF t] decode_frame_bytes [OF assms(1), of rest] by simp
qed

definition ping_frame :: frame where
  "ping_frame =
     frame_with_trace_id
       (with_routing
          (frame_new (with_trust_level (frame_header_new FtPing (NodeId (replicate 32 7))) TlRaw)
             PtRaw [1, 2, 3])
          (NodeId (replicate 32 9)) 8)
       (trace_id_from_u64 42)"

lemma wf_ping_frame: "wf_frame ping_frame"
  unfolding ping_frame_def
  by (intro wf_frame_builders)
    (simp_all add: wf_header_def frame_header_new_def with_trust_level_def flags_default_def
      wf_frame_type_def wf_payload_type_def MAX_PAYLOAD_SIZE_def clock_zero_def wf_id_defs
      size_defs trace_id_from_u64_def intent_hash_zero_def)

lemma size_ping_frame: "frame_wire_size ping_frame = 106"
  by (simp add: frame_wire_size_def ping_frame_def frame_with_trace_id_def with_routing_def
      frame_new_def with_trust_level_def frame_header_new_def size_defs)

theorem encode_decode_witness:
  "\<exists>out. encode ping_frame (replicate 200 0) = (out, Ok 106) \<and>
         decode (take 106 out @ [5, 5]) = Ok (of_frame ping_frame)"
  using encode_decode [OF wf_ping_frame, of "replicate 200 0" "[5, 5]"]
  by (auto simp: size_ping_frame)

text \<open>
  C30: no byte string makes a decoder panic: the full decoder, the header decoder and the zero-copy
  payload reader either succeed or return a codec error.
\<close>

theorem decoders_never_panic:
  "decode buf \<noteq> Panic \<and> decode_header buf \<noteq> Panic \<and> payload_slice buf \<noteq> Panic"
proof -
  have "decode_header buf \<noteq> Panic"
    using decode_fixed_header_total [of "take FIXED_HEADER_SIZE buf"]
    by (auto simp: decode_header_def slice_def result_simps)
  then show ?thesis by (simp add: decode_total payload_slice_total)
qed

text \<open>
  The decoder accepts only the encoder's layout. Whatever it accepts is a well-formed frame,
  and encoding that frame again gives the bytes that were read, except that the four reserved bits
  of the third byte come back as zero: these are the only bits in which two byte strings of the
  same length that decode to the same frame can differ.
\<close>

lemma decode_canonical:
  assumes "decode buf = Ok d"
  shows "wf_frame (as_frame d) \<and> frame_wire_size (as_frame d) \<le> length buf \<and>
         encode (as_frame d) (replicate (frame_wire_size (as_frame d)) 0) =
           ((take (frame_wire_size (as_frame d)) buf)[2 := buf ! 2 AND 0xF0],
            Ok (frame_wire_size (as_frame d)))"
proof -
  note s = decode_sound [OF assms]
  have "length (fr_payload (as_frame d)) \<le> MAX_PAYLOAD_SIZE" using s(1) by (simp add: wf_frame_def)
  with s show ?thesis by (simp add: encode_writes wf_frame_typed)
qed

text \<open>
  Every outcome of the encoder, on any frame the Rust types allow: an error leaves the buffer
  untouched, success writes the frame's wire size and nothing behind it, and there is no panic.
\<close>

lemma encode_outcomes:
  assumes "typed_frame f"
  shows "(length buf < frame_wire_size f \<longrightarrow>
            encode f buf = (buf, Err (BufferTooSmall (frame_wire_size f) (length buf)))) \<and>
         (frame_wire_size f \<le> length buf \<and> length (fr_payload f) > MAX_PAYLOAD_SIZE \<longrightarrow>
            encode f buf = (buf, Err (PayloadTooLarge (length (fr_payload f))))) \<and>
         (frame_wire_size f \<le> length buf \<and> length (fr_payload f) \<le> MAX_PAYLOAD_SIZE \<longrightarrow>
            (\<exists>w. encode f buf = (w @ drop (frame_wire_size f) buf, Ok (frame_wire_size f)) \<and>
                 length w = frame_wire_size f))"
  using encode_cases [OF assms, of buf] length_frame_bytes [OF assms] by auto

text \<open>
  The bytes a signature covers determine the whole frame except the TTL of its routing
  extension and the authentication itself, and do not depend on these two: a relay may decrement
  the TTL under a valid signature, and can change nothing else, in particular not the destination.
\<close>

lemma signature_data_covers:
  assumes "wf_frame f" and "wf_frame g"
  shows "signature_data f = signature_data g \<longleftrightarrow>
           (canonical_routing f)\<lparr>fr_auth := AuthNone\<rparr> = (canonical_routing g)\<lparr>fr_auth := AuthNone\<rparr>"
proof -
  have "signature_data f = signed_bytes (canonical_routing f)"
    "signature_data g = signed_bytes (canonical_routing g)"
    using assms by (auto intro!: signature_data_bytes wf_frame_typed simp: wf_frame_def)
  then show ?thesis
    using signed_bytes_inj [of "canonical_routing f" "canonical_routing g"] assms
    by (metis signed_bytes_set_auth wf_frame_canonical)
qed

text \<open>
  A payload above the maximum makes \<open>encode\<close> fail inside \<open>signature_data\<close>, which drops the
  error: the data signed is then all zeros, the same for all such frames of one size.
\<close>

lemma signature_data_oversized:
  assumes "length (fr_payload f) > MAX_PAYLOAD_SIZE"
  shows "signature_data f = replicate (frame_wire_size f - auth_wire_size (fr_auth f)) 0"
  using assms by (simp add: signature_data_def encode_def efail_def Let_def)

text \<open>
  C38: the zero-copy reader returns the same payload as the full decoder on every frame the decoder
  accepts.
\<close>

theorem payload_slice_agrees:
  assumes "decode buf = Ok d"
  shows "payload_slice buf = Ok (df_payload d)"
  by (rule payload_slice_decode [OF assms])

theorem payload_slice_agrees_witness:
  "payload_slice (frame_bytes ping_frame) = Ok [1, 2, 3]"
  using payload_slice_agrees [OF decode_frame_bytes [OF wf_ping_frame, of "[]"]]
  by (simp add: of_frame_def ping_frame_def frame_with_trace_id_def with_routing_def frame_new_def)

lemma wire_size_helper:
  assumes "wf_frame f"
  shows "frame_wire_size f =
           codec_wire_size (length (fr_payload f)) (fh_trust_level (fr_header f))
             (fr_trace_id f \<noteq> None) (fr_fragment_info f \<noteq> None)
           + (if fr_routing f \<noteq> None then ROUTING_EXT_SIZE else 0)"
  using assms wf_auth_wire_size by (auto simp: wf_frame_def frame_wire_size_def codec_wire_size_def)

end
