(* ===== verification/Intent.thy ===== *)
theory Intent
  imports Types "HOL-Library.Multiset"
begin

text \<open>
  Intent descriptors (\<open>axiom-types/src/intent.rs\<close>) and their hash (\<open>axiom-crypto/src/hash.rs\<close>).
  BLAKE3 is the parameter \<open>blake3\<close>, a function from bytes to bytes; what the hasher is fed is
  \<open>intent_preimage\<close>. A float is its 64-bit IEEE pattern, an \<open>i64\<close> its two's complement.
\<close>

unbundle bit_operations_syntax

section \<open>Descriptors\<close>

datatype constraint_value =
  CvString rstring
| CvInt u64
| CvFloat u64
| CvBool bool
| CvRange u64 u64
| CvOneOf "rstring list"

fun type_code :: "constraint_value \<Rightarrow> u8" where
  "type_code (CvString _) = 0x00"
| "type_code (CvInt _) = 0x01"
| "type_code (CvFloat _) = 0x02"
| "type_code (CvBool _) = 0x03"
| "type_code (CvRange _ _) = 0x04"
| "type_code (CvOneOf _) = 0x05"

record constraint =
  c_key :: rstring
  c_value :: constraint_value

definition constraint_string :: "rstring \<Rightarrow> rstring \<Rightarrow> constraint" where
  "constraint_string k v = \<lparr>c_key = k, c_value = CvString v\<rparr>"

definition constraint_int :: "rstring \<Rightarrow> u64 \<Rightarrow> constraint" where
  "constraint_int k v = \<lparr>c_key = k, c_value = CvInt v\<rparr>"

definition constraint_float :: "rstring \<Rightarrow> u64 \<Rightarrow> constraint" where
  "constraint_float k v = \<lparr>c_key = k, c_value = CvFloat v\<rparr>"

definition constraint_bool :: "rstring \<Rightarrow> bool \<Rightarrow> constraint" where
  "constraint_bool k v = \<lparr>c_key = k, c_value = CvBool v\<rparr>"

definition constraint_range :: "rstring \<Rightarrow> u64 \<Rightarrow> u64 \<Rightarrow> constraint" where
  "constraint_range k lo hi = \<lparr>c_key = k, c_value = CvRange lo hi\<rparr>"

definition constraint_one_of :: "rstring \<Rightarrow> rstring list \<Rightarrow> constraint" where
  "constraint_one_of k vs = \<lparr>c_key = k, c_value = CvOneOf vs\<rparr>"

record intent_descriptor =
  id_capability :: rstring
  id_constraints :: "constraint list"
  id_priority :: u8
  id_ttl_ms :: u32
  id_fallbacks :: "intent_hash list"

definition intent_new :: "rstring \<Rightarrow> intent_descriptor" where
  "intent_new cap =
     \<lparr>id_capability = cap, id_constraints = [], id_priority = 128, id_ttl_ms = 30000,
      id_fallbacks = []\<rparr>"

definition with_constraint :: "intent_descriptor \<Rightarrow> constraint \<Rightarrow> intent_descriptor" where
  "with_constraint d c = d\<lparr>id_constraints := id_constraints d @ [c]\<rparr>"

definition intent_with_priority :: "intent_descriptor \<Rightarrow> u8 \<Rightarrow> intent_descriptor" where
  "intent_with_priority d p = d\<lparr>id_priority := p\<rparr>"

definition with_ttl_ms :: "intent_descriptor \<Rightarrow> u32 \<Rightarrow> intent_descriptor" where
  "with_ttl_ms d t = d\<lparr>id_ttl_ms := t\<rparr>"

definition with_fallback :: "intent_descriptor \<Rightarrow> intent_hash \<Rightarrow> intent_descriptor" where
  "with_fallback d h = d\<lparr>id_fallbacks := id_fallbacks d @ [h]\<rparr>"

text \<open>\<open>sort_by\<close> on the keys is a stable sort; strings compare lexicographically.\<close>

definition canonicalize :: "intent_descriptor \<Rightarrow> intent_descriptor" where
  "canonicalize d = d\<lparr>id_constraints := sort_key c_key (id_constraints d)\<rparr>"

definition capability_matches :: "intent_descriptor \<Rightarrow> rstring \<Rightarrow> bool" where
  "capability_matches d other \<longleftrightarrow>
     other = id_capability d \<or> starts_with other (id_capability d @ str ''.'')"

text \<open>\<open>IntentBuilder\<close> wraps a descriptor; \<open>build\<close> canonicalises it.\<close>

definition builder_constraint ::
    "intent_descriptor \<Rightarrow> rstring \<Rightarrow> constraint_value \<Rightarrow> intent_descriptor" where
  "builder_constraint d k v = d\<lparr>id_constraints := id_constraints d @ [\<lparr>c_key = k, c_value = v\<rparr>]\<rparr>"

definition build :: "intent_descriptor \<Rightarrow> intent_descriptor" where
  "build d = canonicalize d"

section \<open>The hash\<close>

fun value_bytes :: "constraint_value \<Rightarrow> u8 list" where
  "value_bytes (CvString s) = [0x00] @ as_bytes s"
| "value_bytes (CvInt i) = [0x01] @ to_be 8 i"
| "value_bytes (CvFloat f) = [0x02] @ to_be 8 f"
| "value_bytes (CvBool b) = [0x03] @ [if b then 1 else 0]"
| "value_bytes (CvRange lo hi) = [0x04] @ to_be 8 lo @ to_be 8 hi"
| "value_bytes (CvOneOf vs) = [0x05] @ concat (map as_bytes vs)"

definition intent_preimage :: "intent_descriptor \<Rightarrow> u8 list" where
  "intent_preimage d =
     as_bytes (id_capability d)
     @ concat (map (\<lambda>c. as_bytes (c_key c) @ value_bytes (c_value c))
         (sort_key c_key (id_constraints d)))
     @ [id_priority d] @ to_be 4 (id_ttl_ms d)"

definition hash_intent :: "(u8 list \<Rightarrow> u8 list) \<Rightarrow> intent_descriptor \<Rightarrow> intent_hash" where
  "hash_intent blake3 d = IntentHash (take 16 (blake3 (intent_preimage d)))"

section \<open>Lemmas\<close>

lemma canonicalize_idem: "canonicalize (canonicalize d) = canonicalize d"
  by (simp add: canonicalize_def sort_key_id_if_sorted)

lemma sort_key_unique:
  assumes "mset xs = mset ys" and "distinct (map f xs)"
  shows "sort_key f xs = sort_key f ys"
proof (rule properties_for_sort_key [symmetric])
  show "mset (sort_key f xs) = mset ys" using assms(1) by simp
  show "sorted (map f (sort_key f xs))" by simp
  fix k
  have one: "length (filter (\<lambda>x. f k = f x) zs) \<le> 1" if "distinct (map f zs)" for zs
  proof -
    let ?ks = "map f (filter (\<lambda>x. f k = f x) zs)"
    have "distinct ?ks" using that by (simp add: distinct_map_filter)
    then have "length ?ks = card (set ?ks)" by (rule distinct_card [symmetric])
    also have "\<dots> \<le> card {f k}" by (intro card_mono) auto
    finally show ?thesis by simp
  qed
  have dy: "distinct (map f ys)"
    using assms by (metis mset_eq_imp_distinct_iff mset_map)
  have ds: "distinct (map f (sort_key f xs))"
    using assms by (metis mset_eq_imp_distinct_iff mset_map mset_sort)
  have "mset (filter (\<lambda>x. f k = f x) (sort_key f xs)) = mset (filter (\<lambda>x. f k = f x) ys)"
    using assms(1) by simp
  with one [OF ds] one [OF dy]
  show "filter (\<lambda>x. f k = f x) (sort_key f xs) = filter (\<lambda>x. f k = f x) ys"
    by (cases "filter (\<lambda>x. f k = f x) (sort_key f xs)"; cases "filter (\<lambda>x. f k = f x) ys") auto
qed

lemma capability_matches_iff:
  "capability_matches d other \<longleftrightarrow>
     other = id_capability d \<or> (\<exists>rest. other = id_capability d @ str ''.'' @ rest)"
  by (auto simp: capability_matches_def starts_with_iff)

section \<open>Properties\<close>

text \<open>
  The hash of an intent does not depend on the order in which its constraints were added, nor
  on its fallbacks, whatever the hash function, when no two constraints have the same key; building
  (sorting the constraints) does not change it.
\<close>

lemma hash_order_independent:
  assumes "mset (id_constraints d) = mset (id_constraints e)"
    and "distinct (map c_key (id_constraints d))"
    and "id_capability d = id_capability e" and "id_priority d = id_priority e"
    and "id_ttl_ms d = id_ttl_ms e"
  shows "hash_intent blake3 d = hash_intent blake3 e \<and>
         hash_intent blake3 (build d) = hash_intent blake3 d"
proof -
  have "sort_key c_key (id_constraints d) = sort_key c_key (id_constraints e)"
    by (rule sort_key_unique [OF assms(1,2)])
  then show ?thesis
    by (simp add: hash_intent_def intent_preimage_def assms(3-5) build_def canonicalize_def
        sort_key_id_if_sorted)
qed

definition example_intent :: "constraint list \<Rightarrow> intent_descriptor" where
  "example_intent cs = (intent_new (str ''inference.llm''))\<lparr>id_constraints := cs\<rparr>"

text \<open>
  The input of the hash has no separators and no lengths. Two different intents, one with the
  alternatives \<open>ab\<close>, \<open>c\<close> and one with \<open>a\<close>, \<open>bc\<close>, have the same hash under every hash
  function; and so do two intents with different capabilities.
\<close>

lemma hash_ambiguous:
  "example_intent [constraint_one_of (str ''m'') [str ''ab'', str ''c'']]
     \<noteq> example_intent [constraint_one_of (str ''m'') [str ''a'', str ''bc'']] \<and>
   hash_intent blake3 (example_intent [constraint_one_of (str ''m'') [str ''ab'', str ''c'']])
     = hash_intent blake3 (example_intent [constraint_one_of (str ''m'') [str ''a'', str ''bc'']]) \<and>
   str ''device.power'' \<noteq> str ''device.powero'' \<and>
   hash_intent blake3 (with_constraint (intent_new (str ''device.power''))
       (constraint_bool (str ''on'') True))
     = hash_intent blake3 (with_constraint (intent_new (str ''device.powero''))
         (constraint_bool (str ''n'') True))"
proof -
  have "intent_preimage (example_intent [constraint_one_of (str ''m'') [str ''ab'', str ''c'']])
      = intent_preimage (example_intent [constraint_one_of (str ''m'') [str ''a'', str ''bc'']])"
    by (simp add: intent_preimage_def example_intent_def intent_new_def constraint_one_of_def str_def
        as_bytes_def)
  moreover have "intent_preimage (with_constraint (intent_new (str ''device.power''))
         (constraint_bool (str ''on'') True))
      = intent_preimage (with_constraint (intent_new (str ''device.powero''))
         (constraint_bool (str ''n'') True))"
    by (simp add: intent_preimage_def with_constraint_def intent_new_def constraint_bool_def str_def
        as_bytes_def)
  moreover have "example_intent [constraint_one_of (str ''m'') [str ''ab'', str ''c'']]
     \<noteq> example_intent [constraint_one_of (str ''m'') [str ''a'', str ''bc'']]"
    by (simp add: example_intent_def intent_new_def constraint_one_of_def str_def)
  moreover have "str ''device.power'' \<noteq> str ''device.powero''" by (simp add: str_def)
  ultimately show ?thesis by (simp add: hash_intent_def)
qed

text \<open>
  Capability matching is hierarchical: an intent matches its own capability, a match of a match
  is a match, and two capabilities that match each other are equal.
\<close>

lemma capability_hierarchy:
  "capability_matches (intent_new a) a \<and>
   (capability_matches (intent_new a) b \<longrightarrow> capability_matches (intent_new b) c \<longrightarrow>
      capability_matches (intent_new a) c) \<and>
   (capability_matches (intent_new a) b \<longrightarrow> capability_matches (intent_new b) a \<longrightarrow> a = b)"
proof -
  have trans: "capability_matches (intent_new a) c"
    if "capability_matches (intent_new a) b" "capability_matches (intent_new b) c"
    using that by (auto simp: capability_matches_iff intent_new_def)
  have anti: "a = b"
    if "capability_matches (intent_new a) b" "capability_matches (intent_new b) a"
    using that by (auto simp: capability_matches_iff intent_new_def)
  show ?thesis using trans anti by (simp add: capability_matches_iff intent_new_def)
qed

end
