(* ===== verification/FrameSign.thy ===== *)
theory FrameSign
  imports Codec
begin

text \<open>
  Identities, frame signatures and session tokens of crate \<open>axiom-crypto\<close> (\<open>identity.rs\<close>,
  \<open>frame_sign.rs\<close>). The Ed25519 implementation and BLAKE3 are parameters: \<open>ed25519\<close> collects the
  four operations of \<open>ed25519_dalek\<close> the code calls, and \<open>ed25519_correct\<close> is what RFC 8032 says
  of them (the sizes of keys and signatures; a signature made with a key verifies under its public
  key). The wall clock is the argument \<open>now\<close> of the operations that read it.
\<close>

section \<open>Identities\<close>

record ed25519 =
  ed_public_key :: "u8 list \<Rightarrow> u8 list"
  ed_sign :: "u8 list \<Rightarrow> u8 list \<Rightarrow> u8 list"
  ed_key_ok :: "u8 list \<Rightarrow> bool"
  ed_verify_strict :: "u8 list \<Rightarrow> u8 list \<Rightarrow> u8 list \<Rightarrow> bool"

definition ed25519_correct :: "ed25519 \<Rightarrow> bool" where
  "ed25519_correct E \<longleftrightarrow>
     (\<forall>sk m. length sk = 32 \<longrightarrow>
        length (ed_public_key E sk) = 32 \<and> ed_key_ok E (ed_public_key E sk) \<and>
        length (ed_sign E sk m) = 64 \<and> ed_verify_strict E (ed_public_key E sk) m (ed_sign E sk m))"

datatype keypair = Keypair (signing_key: "u8 list")

definition wf_keypair :: "keypair \<Rightarrow> bool" where
  "wf_keypair k \<longleftrightarrow> length (signing_key k) = 32"

definition keypair_node_id :: "ed25519 \<Rightarrow> keypair \<Rightarrow> node_id" where
  "keypair_node_id E k = NodeId (ed_public_key E (signing_key k))"

definition keypair_sign :: "ed25519 \<Rightarrow> keypair \<Rightarrow> u8 list \<Rightarrow> signature" where
  "keypair_sign E k m = Signature (ed_sign E (signing_key k) m)"

definition node_id_verify :: "ed25519 \<Rightarrow> node_id \<Rightarrow> u8 list \<Rightarrow> signature \<Rightarrow> bool" where
  "node_id_verify E n m s =
     (if ed_key_ok E (node_id_bytes n)
      then ed_verify_strict E (node_id_bytes n) m (signature_bytes s)
      else False)"

section \<open>Signing and verifying frames\<close>

datatype sign_error = NoSignatureRequired | EncodingFailed | InvalidTrustLevel

text \<open>\<open>sign\<close> mutates the frame: the frame comes back, also with an error.\<close>

definition frame_sign :: "ed25519 \<Rightarrow> keypair \<Rightarrow> frame \<Rightarrow> frame \<times> (unit, sign_error) result" where
  "frame_sign E k f =
     (case fh_trust_level (fr_header f) of
        TlCompress \<Rightarrow> (f, Err InvalidTrustLevel)
      | TlRaw \<Rightarrow> (f\<lparr>fr_auth := AuthNone\<rparr>, Err NoSignatureRequired)
      | _ \<Rightarrow> (f\<lparr>fr_auth := AuthSignature (keypair_sign E k (signature_data f))\<rparr>, Ok ()))"

definition frame_verify :: "ed25519 \<Rightarrow> frame \<Rightarrow> (bool, sign_error) result" where
  "frame_verify E f =
     (case fh_trust_level (fr_header f) of
        TlCompress \<Rightarrow> Err InvalidTrustLevel
      | TlRaw \<Rightarrow> Err NoSignatureRequired
      | _ \<Rightarrow>
          (case fr_auth f of
             AuthSignature sig \<Rightarrow>
               Ok (node_id_verify E (fh_sender_id (fr_header f)) (signature_data f) sig)
           | _ \<Rightarrow> Ok False))"

section \<open>Session tokens\<close>

record session_info =
  si_token :: session_token
  si_peer_id :: node_id
  si_created_at :: u64
  si_expires_at :: u64
  si_frame_count :: u64

definition session_info_new :: "u64 \<Rightarrow> session_token \<Rightarrow> node_id \<Rightarrow> u64 \<Rightarrow> session_info" where
  "session_info_new now token peer ttl_ms =
     \<lparr>si_token = token, si_peer_id = peer, si_created_at = now, si_expires_at = now + ttl_ms,
      si_frame_count = 0\<rparr>"

definition si_is_expired :: "u64 \<Rightarrow> session_info \<Rightarrow> bool" where
  "si_is_expired now i \<longleftrightarrow> now > si_expires_at i"

record session_manager =
  sm_sessions :: "(node_id, session_info) hmap"

definition session_manager_new :: session_manager where
  "session_manager_new = \<lparr>sm_sessions = []\<rparr>"

definition derive_token :: "(u8 list \<Rightarrow> u8 list) \<Rightarrow> node_id \<Rightarrow> u8 list \<Rightarrow> session_token" where
  "derive_token blake3 peer secret =
     SessionToken (take 16 (blake3
       (as_bytes (str ''AXIOM-SESSION-TOKEN-V1'') @ secret @ node_id_bytes peer)))"

definition create_session ::
    "(u8 list \<Rightarrow> u8 list) \<Rightarrow> u64 \<Rightarrow> node_id \<Rightarrow> u8 list \<Rightarrow> u64 \<Rightarrow> session_manager
       \<Rightarrow> session_manager \<times> session_token" where
  "create_session blake3 now peer secret ttl_ms m =
     (let token = derive_token blake3 peer secret;
          info = session_info_new now token peer ttl_ms
      in (m\<lparr>sm_sessions := hm_insert peer info (sm_sessions m)\<rparr>, token))"

definition get_session :: "u64 \<Rightarrow> session_manager \<Rightarrow> node_id \<Rightarrow> session_info option" where
  "get_session now m peer =
     (case hm_get (sm_sessions m) peer of
        Some i \<Rightarrow> if si_is_expired now i then None else Some i
      | None \<Rightarrow> None)"

definition get_token :: "u64 \<Rightarrow> session_manager \<Rightarrow> node_id \<Rightarrow> session_token option" where
  "get_token now m peer =
     (case hm_get (sm_sessions m) peer of
        Some i \<Rightarrow> if si_is_expired now i then None else Some (si_token i)
      | None \<Rightarrow> None)"

definition verify_token ::
    "u64 \<Rightarrow> node_id \<Rightarrow> session_token \<Rightarrow> session_manager \<Rightarrow> session_manager \<times> bool" where
  "verify_token now peer token m =
     (case hm_get (sm_sessions m) peer of
        Some i \<Rightarrow>
          if si_is_expired now i
          then (m\<lparr>sm_sessions := hm_remove peer (sm_sessions m)\<rparr>, False)
          else if si_token i = token
          then (m\<lparr>sm_sessions := hm_insert peer (i\<lparr>si_frame_count := si_frame_count i + 1\<rparr>)
                  (sm_sessions m)\<rparr>, True)
          else (m, False)
      | None \<Rightarrow> (m, False))"

definition cleanup_expired :: "u64 \<Rightarrow> session_manager \<Rightarrow> session_manager" where
  "cleanup_expired now m =
     m\<lparr>sm_sessions := hm_retain (\<lambda>_ i. \<not> si_is_expired now i) (sm_sessions m)\<rparr>"

definition remove_session :: "node_id \<Rightarrow> session_manager \<Rightarrow> session_manager" where
  "remove_session peer m = m\<lparr>sm_sessions := hm_remove peer (sm_sessions m)\<rparr>"

section \<open>Lemmas\<close>

lemma signature_data_auth:
  assumes "wf_frame f" and "wf_auth (fh_trust_level (fr_header f)) a"
  shows "signature_data (f\<lparr>fr_auth := a\<rparr>) = signature_data f"
proof -
  have "signature_data (f\<lparr>fr_auth := a\<rparr>) = signed_bytes (canonical_routing (f\<lparr>fr_auth := a\<rparr>))"
    using assms by (intro signature_data_bytes wf_frame_typed wf_frame_set_auth)
      (simp_all add: wf_frame_def)
  also have "canonical_routing (f\<lparr>fr_auth := a\<rparr>) = (canonical_routing f)\<lparr>fr_auth := a\<rparr>"
    by (simp add: canonical_routing_def)
  also have "signed_bytes \<dots> = signature_data f"
    using assms(1) by (simp add: signature_data_bytes wf_frame_typed wf_frame_def)
  finally show ?thesis .
qed

lemma signature_data_ttl:
  "fr_routing f = Some r \<Longrightarrow> signature_data (f\<lparr>fr_routing := Some (r\<lparr>re_ttl := t\<rparr>)\<rparr>) = signature_data f"
  by (simp add: signature_data_def canonical_routing_def)

lemma wf_keypair_sign:
  "ed25519_correct E \<Longrightarrow> wf_keypair k \<Longrightarrow> wf_signature (keypair_sign E k m)"
  by (simp add: ed25519_correct_def wf_keypair_def keypair_sign_def wf_id_defs size_defs)

lemma keypair_sign_verifies:
  "ed25519_correct E \<Longrightarrow> wf_keypair k \<Longrightarrow> node_id_verify E (keypair_node_id E k) m (keypair_sign E k m)"
  by (simp add: ed25519_correct_def wf_keypair_def keypair_sign_def node_id_verify_def
      keypair_node_id_def)

lemma frame_sign_ok:
  assumes "ed25519_correct E" and "wf_keypair k" and "wf_frame f"
    and "uses_signature (fh_trust_level (fr_header f))"
    and "fh_sender_id (fr_header f) = keypair_node_id E k"
  obtains g where "frame_sign E k f = (g, Ok ())" and "wf_frame g" and "frame_verify E g = Ok True"
    and "signature_data g = signature_data f"
    and "g = f\<lparr>fr_auth := AuthSignature (keypair_sign E k (signature_data f))\<rparr>"
proof -
  let ?a = "AuthSignature (keypair_sign E k (signature_data f))"
  let ?g = "f\<lparr>fr_auth := ?a\<rparr>"
  have a: "wf_auth (fh_trust_level (fr_header f)) ?a"
    using assms by (simp add: wf_keypair_sign)
  have sd: "signature_data ?g = signature_data f"
    by (rule signature_data_auth [OF assms(3) a])
  have l: "fh_trust_level (fr_header f) = TlFull \<or> fh_trust_level (fr_header f) = TlSig"
    using assms(4) by (cases "fh_trust_level (fr_header f)") (simp_all add: uses_signature_def)
  have "frame_sign E k f = (?g, Ok ())"
    using l by (auto simp: frame_sign_def)
  moreover have "frame_verify E ?g = Ok True"
    using l assms(5) keypair_sign_verifies [OF assms(1,2)] by (auto simp: frame_verify_def sd)
  moreover have "wf_frame ?g" by (rule wf_frame_set_auth [OF assms(3) a])
  ultimately show thesis using that sd by blast
qed

lemma frame_verify_ttl:
  "fr_routing f = Some r \<Longrightarrow> frame_verify E (f\<lparr>fr_routing := Some (r\<lparr>re_ttl := t\<rparr>)\<rparr>) = frame_verify E f"
  by (simp add: frame_verify_def signature_data_ttl split: trust_level.split authentication.split)

lemma frame_verify_True:
  "frame_verify E f = Ok True \<longleftrightarrow>
     (\<exists>sig. uses_signature (fh_trust_level (fr_header f)) \<and> fr_auth f = AuthSignature sig \<and>
            node_id_verify E (fh_sender_id (fr_header f)) (signature_data f) sig)"
  by (cases "fh_trust_level (fr_header f)"; cases "fr_auth f")
    (simp_all add: frame_verify_def uses_signature_def)

section \<open>Properties\<close>

text \<open>
  A frame at a signing trust level whose sender is the signer is signed without error, and the
  signed frame verifies. It still verifies after relays have changed the TTL of its routing
  extension to any value.
\<close>

lemma sign_verify:
  assumes "ed25519_correct E" and "wf_keypair k" and "wf_frame f"
    and "uses_signature (fh_trust_level (fr_header f))"
    and "fh_sender_id (fr_header f) = keypair_node_id E k"
  shows "\<exists>g. frame_sign E k f = (g, Ok ()) \<and> frame_verify E g = Ok True \<and>
           (\<forall>r t. fr_routing f = Some r \<longrightarrow>
              frame_verify E (g\<lparr>fr_routing := Some (r\<lparr>re_ttl := t\<rparr>)\<rparr>) = Ok True)"
proof -
  obtain g where g: "frame_sign E k f = (g, Ok ())" "frame_verify E g = Ok True"
    "g = f\<lparr>fr_auth := AuthSignature (keypair_sign E k (signature_data f))\<rparr>"
    using frame_sign_ok [OF assms] by blast
  have "fr_routing g = fr_routing f" by (simp add: g(3))
  then show ?thesis using g(1,2) frame_verify_ttl by metis
qed

text \<open>A concrete signature scheme, in which the secret key is the public key.\<close>

definition plain_ed :: ed25519 where
  "plain_ed =
     \<lparr>ed_public_key = (\<lambda>sk. sk), ed_sign = (\<lambda>sk m. take 64 (sk @ rev m @ replicate 64 0)),
      ed_key_ok = (\<lambda>_. True), ed_verify_strict = (\<lambda>pk m s. s = take 64 (pk @ rev m @ replicate 64 0))\<rparr>"

lemma plain_ed_correct: "ed25519_correct plain_ed"
  by (auto simp: ed25519_correct_def plain_ed_def min_def)

definition signed_example :: frame where
  "signed_example =
     with_routing (frame_new (frame_header_new FtIntent (NodeId (replicate 32 7))) PtRaw [1, 2, 3])
       (NodeId (replicate 32 9)) 8"

lemma wf_signed_example: "wf_frame signed_example"
  unfolding signed_example_def
  by (intro wf_frame_builders)
    (simp_all add: wf_header_def frame_header_new_def flags_default_def
      wf_frame_type_def wf_payload_type_def MAX_PAYLOAD_SIZE_def clock_zero_def wf_id_defs
      size_defs intent_hash_zero_def)


text \<open>The scheme of the witness: only one message has a valid signature.\<close>

definition one_message_ed :: "u8 list \<Rightarrow> ed25519" where
  "one_message_ed m0 =
     \<lparr>ed_public_key = (\<lambda>sk. sk), ed_sign = (\<lambda>sk m. replicate 64 0), ed_key_ok = (\<lambda>_. True),
      ed_verify_strict = (\<lambda>pk m s. m = m0)\<rparr>"


text \<open>
  Histories of the session manager: each operation with the time at which it runs.
\<close>

datatype sm_op =
  SmCreate node_id "u8 list" u64
| SmVerify node_id session_token
| SmCleanup
| SmRemove node_id

fun sm_step :: "(u8 list \<Rightarrow> u8 list) \<Rightarrow> u64 \<times> sm_op \<Rightarrow> session_manager \<Rightarrow> session_manager" where
  "sm_step blake3 (now, SmCreate p secret ttl) m = fst (create_session blake3 now p secret ttl m)"
| "sm_step blake3 (now, SmVerify p tok) m = fst (verify_token now p tok m)"
| "sm_step blake3 (now, SmCleanup) m = cleanup_expired now m"
| "sm_step blake3 (now, SmRemove p) m = remove_session p m"

definition sm_run ::
    "(u8 list \<Rightarrow> u8 list) \<Rightarrow> (u64 \<times> sm_op) list \<Rightarrow> session_manager \<Rightarrow> session_manager" where
  "sm_run blake3 ops m = fold (sm_step blake3) ops m"

fun touches :: "node_id \<Rightarrow> sm_op \<Rightarrow> bool" where
  "touches peer (SmCreate p _ _) = (p = peer)"
| "touches peer (SmRemove p) = (p = peer)"
| "touches peer _ = False"

definition holds_session :: "node_id \<Rightarrow> session_token \<Rightarrow> u64 \<Rightarrow> u64 \<Rightarrow> session_manager \<Rightarrow> bool" where
  "holds_session peer tok expiry t m \<longleftrightarrow>
     hm_wf (sm_sessions m) \<and>
     (case hm_get (sm_sessions m) peer of
        Some i \<Rightarrow> si_token i = tok \<and> si_expires_at i = expiry
      | None \<Rightarrow> expiry < t)"

lemma holds_session_step:
  assumes "holds_session peer tok expiry t m" and "\<not> touches peer op" and "now \<le> t"
  shows "holds_session peer tok expiry t (sm_step blake3 (now, op) m)"
  using assms
  by (cases op)
    (auto simp: holds_session_def create_session_def Let_def verify_token_def cleanup_expired_def
      remove_session_def hm_get_retain si_is_expired_def split: option.splits)

lemma holds_session_run:
  assumes "holds_session peer tok expiry t m"
    and "\<forall>(now, op) \<in> set ops. \<not> touches peer op \<and> now \<le> t"
  shows "holds_session peer tok expiry t (sm_run blake3 ops m)"
  using assms
proof (induction ops arbitrary: m)
  case Nil
  then show ?case by (simp add: sm_run_def)
next
  case (Cons a ops)
  then show ?case
    by (cases a) (auto simp: sm_run_def intro!: holds_session_step)
qed

lemma holds_session_verify:
  assumes "holds_session peer tok expiry t m"
  shows "snd (verify_token t peer tok' m) \<longleftrightarrow> tok' = tok \<and> t \<le> expiry"
  using assms
  by (auto simp: holds_session_def verify_token_def si_is_expired_def split: option.splits)

text \<open>
  A session created for a peer admits exactly its own token and only until it expires, whatever
  else the session manager has done since (other peers' sessions, verifications with right or wrong
  tokens, clean-ups) as long as this peer's session was not replaced or removed on purpose: with an
  expiry that does not wrap around, a token presented at time \<open>t\<close> is accepted iff it is the created
  one and \<open>t\<close> is not past the expiry.
\<close>

lemma session_token_accepted:
  assumes "hm_wf (sm_sessions m)" and "create_session blake3 t0 peer secret ttl m = (m', tok)"
    and "unat t0 + unat ttl < 2 ^ 64"
    and "\<forall>(now, op) \<in> set ops. \<not> touches peer op \<and> now \<le> t"
  shows "snd (verify_token t peer tok' (sm_run blake3 ops m')) \<longleftrightarrow>
           tok' = tok \<and> unat t \<le> unat t0 + unat ttl"
proof -
  have "holds_session peer tok (t0 + ttl) t m'"
    using assms(1,2)
    by (auto simp: holds_session_def create_session_def Let_def session_info_new_def)
  from holds_session_verify [OF holds_session_run [OF this assms(4)]] show ?thesis
    using assms(3) by (simp add: word_le_nat_alt unat_word_ariths)
qed

end
