(* ===== verification/Fragment.thy ===== *)
theory Fragment
  imports FrameSign "HOL-Library.Multiset"
begin

text \<open>
  Fragmentation and reassembly of frames, \<open>axiom-transport/src/fragment.rs\<close>. The reassembler is a
  state machine over \<open>process\<close>; its invariant bounds the buffers it keeps and rules out the panics
  of \<open>reassemble\<close>, and the fragments of a frame, delivered in any order, give the frame back.
\<close>

section \<open>Buffers\<close>

record reassembly_key =
  rk_sender_id :: node_id
  rk_intent_hash :: intent_hash
  rk_clock :: hybrid_clock

datatype reassembly_error =
  DuplicateFragment u16 u16
| TotalMismatch u16 u16
| Timeout reassembly_key
| TooManyPending nat
| Incomplete nat u16
| InvalidSequence u16 u16

record fragment_buffer =
  fb_total :: u16
  fb_fragments :: "(u16, u8 list) hmap"
  fb_header :: "frame_header option"
  fb_payload_header :: "payload_header option"
  fb_trace_id :: "trace_id option"
  fb_routing :: "routing_ext option"
  fb_auth :: "authentication option"
  fb_created_at :: u64

definition fragment_buffer_new :: "u16 \<Rightarrow> u64 \<Rightarrow> fragment_buffer" where
  "fragment_buffer_new tot created_at =
     \<lparr>fb_total = tot, fb_fragments = [], fb_header = None, fb_payload_header = None,
      fb_trace_id = None, fb_routing = None, fb_auth = None, fb_created_at = created_at\<rparr>"

definition is_complete :: "fragment_buffer \<Rightarrow> bool" where
  "is_complete b \<longleftrightarrow> length (fb_fragments b) = unat (fb_total b)"

definition add_fragment ::
    "u16 \<Rightarrow> u16 \<Rightarrow> u8 list \<Rightarrow> frame_header \<Rightarrow> payload_header \<Rightarrow> trace_id option
       \<Rightarrow> routing_ext option \<Rightarrow> authentication \<Rightarrow> fragment_buffer
       \<Rightarrow> (fragment_buffer, reassembly_error) result" where
  "add_fragment seq tot payload h ph trace routing auth b =
     (if tot \<noteq> fb_total b then Err (TotalMismatch (fb_total b) tot)
      else if seq \<ge> tot then Err (InvalidSequence seq tot)
      else if hm_get (fb_fragments b) seq \<noteq> None then Err (DuplicateFragment seq tot)
      else
        (let b' = (if seq = 0
                   then b\<lparr>fb_header := Some h, fb_payload_header := Some ph,
                          fb_trace_id := trace, fb_routing := routing, fb_auth := Some auth\<rparr>
                   else b)
         in Ok (b'\<lparr>fb_fragments := hm_insert seq payload (fb_fragments b')\<rparr>)))"

definition unwrap :: "'a option \<Rightarrow> ('a, 'e) result" where
  "unwrap x = (case x of Some a \<Rightarrow> Ok a | None \<Rightarrow> Panic)"

definition concat_fragments :: "fragment_buffer \<Rightarrow> u8 list" where
  "concat_fragments b =
     concat (map (\<lambda>s. case hm_get (fb_fragments b) (of_nat s) of Some p \<Rightarrow> p | None \<Rightarrow> [])
       [0..<unat (fb_total b)])"

definition reassemble :: "fragment_buffer \<Rightarrow> (frame, reassembly_error) result" where
  "reassemble b =
     (if \<not> is_complete b then Err (Incomplete (length (fb_fragments b)) (fb_total b))
      else
        (let payload = concat_fragments b in
         rbind (unwrap (fb_header b)) (\<lambda>header.
         rbind (unwrap (fb_payload_header b)) (\<lambda>orig.
         rbind (unwrap (fb_auth b)) (\<lambda>auth.
         Ok \<lparr>fr_header = header\<lparr>fh_flags := (fh_flags header)\<lparr>fragmented := False\<rparr>\<rparr>,
             fr_trace_id = fb_trace_id b, fr_routing = fb_routing b, fr_fragment_info = None,
             fr_payload_header =
               (payload_header_new (ph_payload_type orig) (of_nat (length payload)))
                 \<lparr>ph_flags := ph_flags orig\<rparr>,
             fr_payload = payload, fr_auth = auth\<rparr>)))))"

section \<open>The fragmenter\<close>

definition max_payload_per_fragment :: "nat \<Rightarrow> nat \<Rightarrow> nat" where
  "max_payload_per_fragment mtu auth_size = mtu - (58 + 4 + 4 + auth_size)"

definition needs_fragmentation :: "nat \<Rightarrow> frame \<Rightarrow> bool" where
  "needs_fragmentation mtu f \<longleftrightarrow> frame_wire_size f > mtu"

text \<open>The fragment of sequence number \<open>seq\<close>: the body of the loop in \<open>fragment\<close>.\<close>

definition make_fragment :: "frame \<Rightarrow> nat \<Rightarrow> u16 \<Rightarrow> nat \<Rightarrow> frame" where
  "make_fragment f max_payload tot seq =
     (let start = seq * max_payload;
          stop = min ((seq + 1) * max_payload) (length (fr_payload f));
          chunk = take (stop - start) (drop start (fr_payload f));
          frag_header = (fr_header f)\<lparr>fh_flags := (fh_flags (fr_header f))\<lparr>fragmented := True\<rparr>\<rparr>;
          g = frame_new frag_header (ph_payload_type (fr_payload_header f)) chunk
      in g\<lparr>fr_fragment_info := Some (fragment_info_new (of_nat seq) tot),
           fr_trace_id := fr_trace_id f,
           fr_routing := fr_routing f,
           fr_auth := fr_auth f,
           fr_payload_header := (fr_payload_header g)\<lparr>ph_flags := ph_flags (fr_payload_header f)\<rparr>\<rparr>)"

definition fragment :: "nat \<Rightarrow> frame \<Rightarrow> frame list" where
  "fragment mtu f =
     (let max_payload = max_payload_per_fragment mtu (auth_wire_size (fr_auth f)) in
      if max_payload = 0 \<or> length (fr_payload f) \<le> max_payload then [f]
      else
        (let total_fragments = (length (fr_payload f) + max_payload - 1) div max_payload in
         if total_fragments > 65535 then [f]
         else map (make_fragment f max_payload (of_nat total_fragments)) [0..<total_fragments]))"

section \<open>The reassembler\<close>

record reassembler =
  ra_buffers :: "(reassembly_key, fragment_buffer) hmap"
  ra_max_buffers :: nat
  ra_timeout_ms :: u64

definition reassembler_new :: "nat \<Rightarrow> u64 \<Rightarrow> reassembler" where
  "reassembler_new max_buffers timeout_ms =
     \<lparr>ra_buffers = [], ra_max_buffers = max_buffers, ra_timeout_ms = timeout_ms\<rparr>"

definition ra_cleanup_expired :: "u64 \<Rightarrow> reassembler \<Rightarrow> reassembler" where
  "ra_cleanup_expired now r =
     r\<lparr>ra_buffers := hm_retain (\<lambda>_ b. sat_sub now (fb_created_at b) < ra_timeout_ms r) (ra_buffers r)\<rparr>"

definition frame_key :: "frame \<Rightarrow> reassembly_key" where
  "frame_key f =
     \<lparr>rk_sender_id = fh_sender_id (fr_header f), rk_intent_hash = fh_intent_hash (fr_header f),
      rk_clock = fh_clock (fr_header f)\<rparr>"

text \<open>The buffer of a key, created when there is none and the limit allows it.\<close>

definition get_or_create ::
    "reassembly_key \<Rightarrow> u16 \<Rightarrow> u64 \<Rightarrow> reassembler
       \<Rightarrow> (reassembler \<times> fragment_buffer, reassembly_error) result" where
  "get_or_create key tot now r =
     (case hm_get (ra_buffers r) key of
        Some b \<Rightarrow> Ok (r, b)
      | None \<Rightarrow>
          if length (ra_buffers r) \<ge> ra_max_buffers r
          then Err (TooManyPending (length (ra_buffers r)))
          else (let b = fragment_buffer_new tot now
                in Ok (r\<lparr>ra_buffers := hm_insert key b (ra_buffers r)\<rparr>, b)))"

definition ra_process ::
    "frame \<Rightarrow> u64 \<Rightarrow> reassembler \<Rightarrow> reassembler \<times> (frame option, reassembly_error) result" where
  "ra_process f now r =
     (let r = ra_cleanup_expired now r in
      case fr_fragment_info f of
        None \<Rightarrow> (r, Ok (Some f))
      | Some info \<Rightarrow>
          if \<not> fragmented (fh_flags (fr_header f)) then (r, Ok (Some f))
          else
            (let key = frame_key f in
             case get_or_create key (fi_total info) now r of
               Ok (r, b) \<Rightarrow>
                 (case add_fragment (fi_sequence info) (fi_total info) (fr_payload f) (fr_header f)
                         (fr_payload_header f) (fr_trace_id f) (fr_routing f) (fr_auth f) b of
                    Ok b' \<Rightarrow>
                      if is_complete b'
                      then (r\<lparr>ra_buffers := hm_remove key (ra_buffers r)\<rparr>,
                            rbind (reassemble b') (\<lambda>g. Ok (Some g)))
                      else (r\<lparr>ra_buffers := hm_insert key b' (ra_buffers r)\<rparr>, Ok None)
                  | Err e \<Rightarrow> (r, Err e)
                  | Panic \<Rightarrow> (r, Panic))
             | Err e \<Rightarrow> (r, Err e)
             | Panic \<Rightarrow> (r, Panic)))"

definition pending_count :: "reassembler \<Rightarrow> nat" where
  "pending_count r = length (ra_buffers r)"

definition ra_clear :: "reassembler \<Rightarrow> reassembler" where
  "ra_clear r = r\<lparr>ra_buffers := []\<rparr>"

section \<open>The invariant of the reassembler\<close>

text \<open>
  Of a buffer: the sequence numbers received are distinct and below the total, and the metadata of
  the frame is there as soon as fragment 0 is. A buffer that is kept is not complete, except one
  for the impossible total 0, which never receives a fragment.
\<close>

definition buffer_inv :: "fragment_buffer \<Rightarrow> bool" where
  "buffer_inv b \<longleftrightarrow>
     hm_wf (fb_fragments b) \<and> (\<forall>s \<in> hm_keys (fb_fragments b). s < fb_total b) \<and>
     (0 \<in> hm_keys (fb_fragments b) \<longrightarrow>
        fb_header b \<noteq> None \<and> fb_payload_header b \<noteq> None \<and> fb_auth b \<noteq> None)"

definition ra_inv :: "reassembler \<Rightarrow> bool" where
  "ra_inv r \<longleftrightarrow>
     hm_wf (ra_buffers r) \<and> length (ra_buffers r) \<le> ra_max_buffers r \<and>
     (\<forall>b \<in> hm_vals (ra_buffers r). buffer_inv b \<and> (\<not> is_complete b \<or> fb_total b = 0))"

lemma add_fragment_inv:
  "buffer_inv b \<Longrightarrow> add_fragment s t p h ph tr ro a b = Ok b' \<Longrightarrow> buffer_inv b'"
  by (auto simp: buffer_inv_def add_fragment_def Let_def not_le split: if_splits)

lemma add_fragment_not_Panic [simp]: "add_fragment s t p h ph tr ro a b \<noteq> Panic"
  by (simp add: add_fragment_def Let_def)

text \<open>The pigeonhole argument of \<open>reassemble\<close>: a complete buffer has every number below its total.\<close>

lemma complete_keys:
  assumes "buffer_inv b" and "is_complete b"
  shows "hm_keys (fb_fragments b) = {s. s < fb_total b}"
proof (rule card_subset_eq)
  show "finite {s. s < fb_total b}" by simp
  show "hm_keys (fb_fragments b) \<subseteq> {s. s < fb_total b}"
    using assms(1) by (auto simp: buffer_inv_def)
  have "card (hm_keys (fb_fragments b)) = unat (fb_total b)"
    using assms by (simp add: buffer_inv_def card_hm_keys is_complete_def)
  moreover have "card {s. s < fb_total b} = unat (fb_total b)"
  proof -
    have "unat ` {s. s < fb_total b} = {n. n < unat (fb_total b)}"
    proof (intro equalityI subsetI)
      fix n
      assume "n \<in> {n. n < unat (fb_total b)}"
      then have "n < unat (fb_total b)" by simp
      moreover have "unat (fb_total b) < 65536" using unsigned_less [of "fb_total b"] by simp
      ultimately have "n < 2 ^ 16" by simp
      then have "unat (of_nat n :: u16) = n" by (simp add: unsigned_of_nat take_bit_nat_eq_self)
      with \<open>n < unat (fb_total b)\<close> show "n \<in> unat ` {s. s < fb_total b}"
        by (intro image_eqI [of _ _ "of_nat n"]) (simp_all add: word_less_nat_alt)
    qed (auto simp: word_less_nat_alt)
    moreover have "inj_on unat {s. s < fb_total b}" by (auto simp: inj_on_def word_unat_eq_iff)
    ultimately show ?thesis by (metis card_Collect_less_nat card_image)
  qed
  ultimately show "card (hm_keys (fb_fragments b)) = card {s. s < fb_total b}" by simp
qed

lemma reassemble_complete:
  assumes "buffer_inv b" and "is_complete b" and "fb_total b \<noteq> 0"
  shows "\<exists>g. reassemble b = Ok g"
proof -
  have "0 \<in> hm_keys (fb_fragments b)"
    using complete_keys [OF assms(1,2)] assms(3) by (simp add: word_neq_0_conv)
  then show ?thesis
    using assms(1,2) by (auto simp: buffer_inv_def reassemble_def Let_def unwrap_def)
qed

lemma ra_cleanup_inv: "ra_inv r \<Longrightarrow> ra_inv (ra_cleanup_expired now r)"
  unfolding ra_inv_def ra_cleanup_expired_def
  using length_hm_retain_le by (auto dest: hm_valsD intro: le_trans)

lemma get_or_create_inv:
  assumes "ra_inv r" and "get_or_create key tot now r = Ok (r', b)"
  shows "ra_inv r'" and "buffer_inv b" and "hm_get (ra_buffers r') key = Some b"
    and "fb_total b = 0 \<or> \<not> is_complete b"
  using assms
  by (auto simp: get_or_create_def Let_def ra_inv_def fragment_buffer_new_def buffer_inv_def
      is_complete_def length_hm_insert unat_eq_0 split: option.splits if_splits
      dest!: hm_valsD dest: hm_get_vals)

lemma get_or_create_not_Panic [simp]: "get_or_create key tot now r \<noteq> Panic"
  by (simp add: get_or_create_def Let_def split: option.split)

lemma ra_inv_insert:
  "ra_inv r \<Longrightarrow> hm_get (ra_buffers r) k \<noteq> None \<Longrightarrow> buffer_inv b \<Longrightarrow> \<not> is_complete b \<Longrightarrow>
     ra_inv (r\<lparr>ra_buffers := hm_insert k b (ra_buffers r)\<rparr>)"
  by (auto simp: ra_inv_def length_hm_insert dest!: hm_valsD)

lemma ra_inv_remove: "ra_inv r \<Longrightarrow> ra_inv (r\<lparr>ra_buffers := hm_remove k (ra_buffers r)\<rparr>)"
  using length_hm_remove_le [of k "ra_buffers r"] by (auto simp: ra_inv_def dest!: hm_valsD)

lemma add_fragment_total:
  "add_fragment s t p h ph tr ro a b = Ok b' \<Longrightarrow> fb_total b' = fb_total b \<and> fb_total b \<noteq> 0"
  by (auto simp: add_fragment_def Let_def split: if_splits)

lemma ra_process_inv:
  assumes "ra_inv r" and "ra_process f now r = (r', out)"
  shows "ra_inv r' \<and> out \<noteq> Panic \<and> ra_max_buffers r' = ra_max_buffers r"
proof -
  let ?r = "ra_cleanup_expired now r"
  have r: "ra_inv ?r" "ra_max_buffers ?r = ra_max_buffers r"
    by (rule ra_cleanup_inv [OF assms(1)]) (simp add: ra_cleanup_expired_def)
  show ?thesis
  proof (cases "fr_fragment_info f = None \<or> \<not> fragmented (fh_flags (fr_header f))")
    case True
    then show ?thesis using assms(2) r by (auto simp: ra_process_def Let_def split: option.splits)
  next
    case False
    then obtain info where info: "fr_fragment_info f = Some info" "fragmented (fh_flags (fr_header f))"
      by auto
    show ?thesis
    proof (cases "get_or_create (frame_key f) (fi_total info) now ?r")
      case (Ok rb)
      obtain r1 b where rb: "rb = (r1, b)" by (cases rb)
      note g = get_or_create_inv [OF r(1) Ok [unfolded rb]]
      have mx: "ra_max_buffers r1 = ra_max_buffers r"
        using Ok r(2) by (auto simp: rb get_or_create_def Let_def split: option.splits if_splits)
      let ?add = "add_fragment (fi_sequence info) (fi_total info) (fr_payload f) (fr_header f)
          (fr_payload_header f) (fr_trace_id f) (fr_routing f) (fr_auth f) b"
      show ?thesis
      proof (cases ?add)
        case Ok': (Ok b')
        have b': "buffer_inv b'" "fb_total b' \<noteq> 0"
          using add_fragment_inv [OF g(2) Ok'] add_fragment_total [OF Ok'] by simp_all
        show ?thesis
          using assms(2) info Ok Ok' rb mx g(1,3) b' reassemble_complete [OF b'(1)]
            ra_inv_insert [OF g(1) _ b'(1)] ra_inv_remove [OF g(1)]
          by (auto simp: ra_process_def Let_def split: if_splits)
      qed (use assms(2) info Ok rb mx g(1) in \<open>auto simp: ra_process_def Let_def\<close>)
    qed (use assms(2) info r in \<open>auto simp: ra_process_def Let_def\<close>)
  qed
qed

lemma ra_clear_inv: "ra_inv r \<Longrightarrow> ra_inv (ra_clear r)"
  by (simp add: ra_inv_def ra_clear_def)

text \<open>The reassembler as a state machine: it processes any frame at any time, or is cleared.\<close>

inductive ra_step :: "reassembler \<Rightarrow> reassembler \<Rightarrow> bool" where
  ra_step_process: "ra_process f now r = (r', out) \<Longrightarrow> ra_step r r'"
| ra_step_clear: "ra_step r (ra_clear r)"

interpretation ra: state_machine "\<lambda>r. \<exists>n t. r = reassembler_new n t" ra_step ra_inv
proof
  fix r r'
  assume "ra_step r r'" "ra_inv r"
  then show "ra_inv r'"
    by (cases rule: ra_step.cases) (auto dest: ra_process_inv intro: ra_clear_inv)
qed (auto simp: ra_inv_def reassembler_new_def)

section \<open>Fragments of a frame\<close>

definition chunk :: "u8 list \<Rightarrow> nat \<Rightarrow> nat \<Rightarrow> u8 list" where
  "chunk p m i = take m (drop (i * m) p)"

lemma make_fragment_chunk:
  "take (min ((i + 1) * m) (length p) - i * m) (drop (i * m) p) = chunk p m i"
  by (simp add: chunk_def min_def)

lemma concat_chunks: "concat (map (chunk p m) [0..<n]) = take (n * m) p"
proof (induction n)
  case (Suc n)
  have "take (Suc n * m) p = take (n * m) p @ chunk p m n"
    unfolding mult_Suc add.commute [of m] take_add chunk_def ..
  with Suc show ?case by simp
qed simp

definition frag_header :: "frame \<Rightarrow> frame_header" where
  "frag_header f = (fr_header f)\<lparr>fh_flags := (fh_flags (fr_header f))\<lparr>fragmented := True\<rparr>\<rparr>"

lemma make_fragment_fields [simp]:
  "fr_header (make_fragment f m t i) = frag_header f"
  "fr_trace_id (make_fragment f m t i) = fr_trace_id f"
  "fr_routing (make_fragment f m t i) = fr_routing f"
  "fr_fragment_info (make_fragment f m t i) = Some \<lparr>fi_sequence = of_nat i, fi_total = t\<rparr>"
  "fr_payload (make_fragment f m t i) = chunk (fr_payload f) m i"
  "fr_auth (make_fragment f m t i) = fr_auth f"
  "ph_payload_type (fr_payload_header (make_fragment f m t i)) = ph_payload_type (fr_payload_header f)"
  "ph_flags (fr_payload_header (make_fragment f m t i)) = ph_flags (fr_payload_header f)"
  "ph_length (fr_payload_header (make_fragment f m t i)) = of_nat (length (chunk (fr_payload f) m i))"
  "frame_key (make_fragment f m t i) = frame_key f"
  unfolding make_fragment_def Let_def make_fragment_chunk
  by (simp_all add: frame_new_def frag_header_def fragment_info_new_def payload_header_new_def
      frame_key_def)

text \<open>What a fragmented frame keeps of the original, for the frame to be recoverable.\<close>

definition whole :: "frame \<Rightarrow> bool" where
  "whole f \<longleftrightarrow>
     \<not> fragmented (fh_flags (fr_header f)) \<and> fr_fragment_info f = None \<and>
     ph_length (fr_payload_header f) = of_nat (length (fr_payload f))"

text \<open>A buffer that holds the fragments of \<open>f\<close> with the sequence numbers in \<open>S\<close>.\<close>

definition holding :: "frame \<Rightarrow> nat \<Rightarrow> nat \<Rightarrow> nat set \<Rightarrow> fragment_buffer \<Rightarrow> bool" where
  "holding f m n S b \<longleftrightarrow>
     fb_total b = of_nat n \<and> S \<subseteq> {..<n} \<and> length (fb_fragments b) = card S \<and>
     (\<forall>i<n. hm_get (fb_fragments b) (of_nat i) =
              (if i \<in> S then Some (chunk (fr_payload f) m i) else None)) \<and>
     (0 \<in> S \<longrightarrow>
        fb_header b = Some (frag_header f) \<and> fb_trace_id b = fr_trace_id f \<and>
        fb_routing b = fr_routing f \<and> fb_auth b = Some (fr_auth f) \<and>
        (\<exists>ph. fb_payload_header b = Some ph \<and>
              ph_payload_type ph = ph_payload_type (fr_payload_header f) \<and>
              ph_flags ph = ph_flags (fr_payload_header f)))"

lemma of_nat_u16_eq: "i \<le> 65535 \<Longrightarrow> j \<le> 65535 \<Longrightarrow> (of_nat i :: u16) = of_nat j \<longleftrightarrow> i = j"
proof -
  assume "i \<le> 65535" "j \<le> 65535"
  then have "unat (of_nat i :: u16) = i" "unat (of_nat j :: u16) = j"
    by (simp_all add: unsigned_of_nat take_bit_nat_eq_self)
  then show ?thesis by (metis)
qed

lemma unat_of_nat_u16: "n \<le> 65535 \<Longrightarrow> unat (of_nat n :: u16) = n"
  by (simp add: unsigned_of_nat take_bit_nat_eq_self)

lemma holding_add:
  assumes h: "holding f m n S b" and i: "i < n" "i \<notin> S" and n: "n \<le> 65535"
  defines "g \<equiv> make_fragment f m (of_nat n) i"
  shows "\<exists>b'. add_fragment (of_nat i) (of_nat n) (fr_payload g) (fr_header g) (fr_payload_header g)
                (fr_trace_id g) (fr_routing g) (fr_auth g) b = Ok b' \<and>
              holding f m n (insert i S) b' \<and> fb_created_at b' = fb_created_at b"
proof -
  have lt: "\<not> (of_nat n :: u16) \<le> of_nat i"
    using i n by (simp add: word_le_nat_alt unat_of_nat_u16)
  have fin: "finite S" using h finite_subset [of S "{..<n}"] by (simp add: holding_def)
  have none: "hm_get (fb_fragments b) (of_nat i) = None" using h i by (simp add: holding_def)
  have eq: "\<And>j. j < n \<Longrightarrow> (of_nat j :: u16) = of_nat i \<longleftrightarrow> j = i"
    using i n by (simp add: of_nat_u16_eq)
  have z: "(of_nat i :: u16) = 0 \<longleftrightarrow> i = 0"
    using of_nat_u16_eq [of i 0] i n by simp
  show ?thesis
    unfolding g_def
    using h i lt none eq z fin
    by (cases "i = 0")
      (auto simp: add_fragment_def Let_def holding_def length_hm_insert)
qed

lemma holding_reassemble:
  assumes h: "holding f m n {..<n} b" and n: "0 < n" "n \<le> 65535" "length (fr_payload f) \<le> n * m"
    and w: "whole f"
  shows "reassemble b = Ok f"
proof -
  have tot: "unat (fb_total b) = n" using h n by (simp add: holding_def unat_of_nat_u16)
  have "concat_fragments b = concat (map (chunk (fr_payload f) m) [0..<n])"
    unfolding concat_fragments_def tot
    by (rule arg_cong [of _ _ concat], rule map_cong) (use h in \<open>auto simp: holding_def\<close>)
  then have p: "concat_fragments b = fr_payload f" by (simp add: concat_chunks n(3))
  have c: "is_complete b" using h tot by (simp add: is_complete_def holding_def)
  show ?thesis
    using h n w c
    by (cases f, cases "fr_header f", cases "fr_payload_header f")
      (auto simp: reassemble_def p holding_def unwrap_def whole_def frag_header_def
        payload_header_new_def)
qed

lemma process_step:
  assumes g: "get_or_create (frame_key f) (of_nat n) t (ra_cleanup_expired t r) = Ok (r1, b)"
    and h: "holding f m n S b" and i: "i < n" "i \<notin> S"
    and n: "n \<le> 65535" "length (fr_payload f) \<le> n * m" and w: "whole f"
  shows "\<exists>b'. holding f m n (insert i S) b' \<and> fb_created_at b' = fb_created_at b \<and>
           ra_process (make_fragment f m (of_nat n) i) t r =
             (if Suc (card S) = n
              then (r1\<lparr>ra_buffers := hm_remove (frame_key f) (ra_buffers r1)\<rparr>, Ok (Some f))
              else (r1\<lparr>ra_buffers := hm_insert (frame_key f) b' (ra_buffers r1)\<rparr>, Ok None))"
proof -
  obtain b' where b': "add_fragment (of_nat i) (of_nat n) (chunk (fr_payload f) m i) (frag_header f)
      (fr_payload_header (make_fragment f m (of_nat n) i)) (fr_trace_id f) (fr_routing f) (fr_auth f) b
      = Ok b'" "holding f m n (insert i S) b'" "fb_created_at b' = fb_created_at b"
    using holding_add [OF h i n(1)] by auto
  have S: "S \<subseteq> {..<n}" "finite S" using h finite_subset [of S "{..<n}"] by (auto simp: holding_def)
  have len: "length (fb_fragments b') = Suc (card S)"
    using b'(2) S(2) i(2) by (simp add: holding_def)
  have c: "is_complete b' \<longleftrightarrow> Suc (card S) = n"
    using b'(2) n(1) by (simp add: is_complete_def len holding_def unat_of_nat_u16)
  have r: "reassemble b' = Ok f" if "Suc (card S) = n"
  proof -
    have "insert i S = {..<n}"
      using S i that by (intro card_subset_eq) auto
    then show ?thesis using holding_reassemble [OF _ _ n w, of b'] b'(2) i by simp
  qed
  have fl: "fragmented (fh_flags (fr_header (make_fragment f m (of_nat n) i)))"
    by (simp add: frag_header_def)
  have "ra_process (make_fragment f m (of_nat n) i) t r =
      (if Suc (card S) = n
       then (r1\<lparr>ra_buffers := hm_remove (frame_key f) (ra_buffers r1)\<rparr>, Ok (Some f))
       else (r1\<lparr>ra_buffers := hm_insert (frame_key f) b' (ra_buffers r1)\<rparr>, Ok None))"
    using fl by (simp add: ra_process_def Let_def g b'(1) c r)
  with b'(2,3) show ?thesis by blast
qed

section \<open>Runs of the reassembler\<close>

fun ra_run :: "(frame \<times> u64) list \<Rightarrow> reassembler
    \<Rightarrow> reassembler \<times> (frame option, reassembly_error) result list" where
  "ra_run [] r = (r, [])"
| "ra_run ((f, t) # xs) r =
     (case ra_process f t r of (r1, out) \<Rightarrow>
        (case ra_run xs r1 of (r2, outs) \<Rightarrow> (r2, out # outs)))"

lemma snd_ra_run_Cons:
  "ra_process f t r = (r1, out) \<Longrightarrow> snd (ra_run ((f, t) # xs) r) = out # snd (ra_run xs r1)"
  by (simp split: prod.split)

lemma get_or_create_timeout:
  "get_or_create key tot t (ra_cleanup_expired t r) = Ok (r1, b) \<Longrightarrow> ra_timeout_ms r1 = ra_timeout_ms r"
  by (auto simp: get_or_create_def ra_cleanup_expired_def Let_def split: option.splits if_splits)

lemma get_or_create_pending:
  assumes "ra_inv r" and "hm_get (ra_buffers r) key = Some b"
    and "sat_sub t (fb_created_at b) < ra_timeout_ms r"
  shows "get_or_create key tot t (ra_cleanup_expired t r) = Ok (ra_cleanup_expired t r, b)"
  using assms by (simp add: get_or_create_def ra_cleanup_expired_def hm_get_retain ra_inv_def)

lemma get_or_create_fresh:
  assumes "ra_inv r" and "hm_get (ra_buffers r) key = None"
    and "length (ra_buffers r) < ra_max_buffers r"
  shows "\<exists>r1. get_or_create key tot t (ra_cleanup_expired t r) = Ok (r1, fragment_buffer_new tot t)"
proof -
  let ?m = "hm_retain (\<lambda>_ b. sat_sub t (fb_created_at b) < ra_timeout_ms r) (ra_buffers r)"
  have "hm_get ?m key = None" using assms(1,2) by (simp add: hm_get_retain ra_inv_def)
  moreover have "length ?m < ra_max_buffers r" using assms(3) length_hm_retain_le le_less_trans by blast
  ultimately show ?thesis by (simp add: get_or_create_def ra_cleanup_expired_def Let_def)
qed

lemma run_step:
  assumes inv: "ra_inv r"
    and g: "get_or_create (frame_key f) (of_nat n) t (ra_cleanup_expired t r) = Ok (r1, b)"
    and h: "holding f m n S b" and i: "i < n" "i \<notin> S"
    and n: "n \<le> 65535" "length (fr_payload f) \<le> n * m" and w: "whole f"
  shows "(Suc (card S) = n \<longrightarrow> snd (ra_process (make_fragment f m (of_nat n) i) t r) = Ok (Some f)) \<and>
         (Suc (card S) \<noteq> n \<longrightarrow>
            (\<exists>r' b'. ra_process (make_fragment f m (of_nat n) i) t r = (r', Ok None) \<and> ra_inv r' \<and>
               hm_get (ra_buffers r') (frame_key f) = Some b' \<and> holding f m n (insert i S) b' \<and>
               fb_created_at b' = fb_created_at b \<and> ra_timeout_ms r' = ra_timeout_ms r))"
proof -
  obtain b' where b': "holding f m n (insert i S) b'" "fb_created_at b' = fb_created_at b"
    "ra_process (make_fragment f m (of_nat n) i) t r =
       (if Suc (card S) = n
        then (r1\<lparr>ra_buffers := hm_remove (frame_key f) (ra_buffers r1)\<rparr>, Ok (Some f))
        else (r1\<lparr>ra_buffers := hm_insert (frame_key f) b' (ra_buffers r1)\<rparr>, Ok None))"
    using process_step [OF g h i n w] by blast
  show ?thesis
    using b' ra_process_inv [OF inv] get_or_create_timeout [OF g] by (auto split: if_splits)
qed

lemma run_rest:
  assumes "ra_inv r" and "hm_get (ra_buffers r) (frame_key f) = Some b" and "holding f m n S b"
    and "distinct js" and "set js = {..<n} - S" and "js \<noteq> []" and "length ts = length js"
    and "\<forall>t \<in> set ts. sat_sub t (fb_created_at b) < ra_timeout_ms r"
    and n: "n \<le> 65535" "length (fr_payload f) \<le> n * m" and w: "whole f"
  shows "snd (ra_run (zip (map (make_fragment f m (of_nat n)) js) ts) r)
           = replicate (length js - 1) (Ok None) @ [Ok (Some f)]"
  using assms(1-8)
proof (induction js arbitrary: r b S ts)
  case (Cons i js)
  obtain t ts' where ts: "ts = t # ts'" using Cons.prems(7) by (cases ts) auto
  have i: "i < n" "i \<notin> S" using Cons.prems(5) by auto
  have S: "S \<subseteq> {..<n}" "finite S"
    using Cons.prems(3) finite_subset [of S "{..<n}"] by (auto simp: holding_def)
  have "card ({..<n} - S) = n - card S" using S by (simp add: card_Diff_subset)
  moreover have "card ({..<n} - S) = Suc (length js)"
    using Cons.prems(4,5) distinct_card [of "i # js"] by simp
  moreover have "card S \<le> n" using card_mono [of "{..<n}" S] S by simp
  ultimately have card: "n = card S + Suc (length js)" by linarith
  note g = get_or_create_pending [OF Cons.prems(1,2), of t]
  note st = run_step [OF Cons.prems(1) g Cons.prems(3) i n w]
  show ?case
  proof (cases "js = []")
    case True
    then show ?thesis using st Cons.prems(7,8) card ts
      by (cases "ra_process (make_fragment f m (of_nat n) i) t r") simp
  next
    case False
    then have "Suc (card S) \<noteq> n" using card by simp
    then obtain r' b' where r': "ra_process (make_fragment f m (of_nat n) i) t r = (r', Ok None)"
      "ra_inv r'" "hm_get (ra_buffers r') (frame_key f) = Some b'" "holding f m n (insert i S) b'"
      "fb_created_at b' = fb_created_at b" "ra_timeout_ms r' = ra_timeout_ms r"
      using st Cons.prems(8) ts by auto
    have "snd (ra_run (zip (map (make_fragment f m (of_nat n)) js) ts') r')
        = replicate (length js - 1) (Ok None) @ [Ok (Some f)]"
      using Cons.prems(4-8) ts r'(5,6) False by (intro Cons.IH [OF r'(2-4)]) auto
    then show ?thesis
      using snd_ra_run_Cons [OF r'(1)] ts False by (cases js) simp_all
  qed
qed simp

lemma run_all:
  assumes "ra_inv r" and "hm_get (ra_buffers r) (frame_key f) = None"
    and "length (ra_buffers r) < ra_max_buffers r"
    and "distinct js" and "set js = {..<n}" and "0 < n" and "length ts = length js"
    and "\<forall>t \<in> set ts. sat_sub t (hd ts) < ra_timeout_ms r"
    and n: "n \<le> 65535" "length (fr_payload f) \<le> n * m" and w: "whole f"
  shows "snd (ra_run (zip (map (make_fragment f m (of_nat n)) js) ts) r)
           = replicate (length js - 1) (Ok None) @ [Ok (Some f)]"
proof -
  obtain i js' where js: "js = i # js'" using assms(5,6) by (cases js) auto
  obtain t ts' where ts: "ts = t # ts'" using assms(7) js by (cases ts) auto
  have i: "i < n" using assms(5) js by auto
  have len: "length js = n" using assms(4,5) distinct_card [of js] by simp
  obtain r1 where g: "get_or_create (frame_key f) (of_nat n) t (ra_cleanup_expired t r)
      = Ok (r1, fragment_buffer_new (of_nat n) t)"
    using get_or_create_fresh [OF assms(1-3)] by blast
  have h: "holding f m n {} (fragment_buffer_new (of_nat n) t)"
    by (simp add: holding_def fragment_buffer_new_def)
  note st = run_step [OF assms(1) g h i _ n w]
  show ?thesis
  proof (cases "js' = []")
    case True
    then show ?thesis using st len js ts assms(7)
      by (cases "ra_process (make_fragment f m (of_nat n) i) t r") simp
  next
    case False
    then have "Suc (card {}) \<noteq> n" using len js by (cases js') auto
    then obtain r' b' where r': "ra_process (make_fragment f m (of_nat n) i) t r = (r', Ok None)"
      "ra_inv r'" "hm_get (ra_buffers r') (frame_key f) = Some b'" "holding f m n {i} b'"
      "fb_created_at b' = t" "ra_timeout_ms r' = ra_timeout_ms r"
      using st by (auto simp: fragment_buffer_new_def)
    have "snd (ra_run (zip (map (make_fragment f m (of_nat n)) js') ts') r')
        = replicate (length js' - 1) (Ok None) @ [Ok (Some f)]"
      using assms(4,5,7,8) js ts r'(5,6) False
      by (intro run_rest [OF r'(2-4) _ _ _ _ _ n w]) auto
    then show ?thesis using snd_ra_run_Cons [OF r'(1)] js ts False by (cases js') simp_all
  qed
qed

lemma mset_map_eq:
  "mset ys = mset (map f xs) \<Longrightarrow> \<exists>xs'. mset xs' = mset xs \<and> ys = map f xs'"
proof (induction ys arbitrary: xs)
  case (Cons y ys)
  have "y \<in> set (map f xs)" using Cons.prems by (metis list.set_intros(1) set_mset_mset)
  then obtain x where x: "x \<in> set xs" "y = f x" by auto
  have "mset (map f xs) = add_mset (f x) (mset (map f (remove1 x xs)))"
    using x(1) by (metis image_mset_add_mset mset_map mset_remove1 insert_DiffM set_mset_mset)
  then have "mset ys = mset (map f (remove1 x xs))" using Cons.prems x(2) by simp
  then obtain xs' where "mset xs' = mset (remove1 x xs)" "ys = map f xs'" using Cons.IH by blast
  then show ?case using x by (intro exI [of _ "x # xs'"]) simp
qed simp

lemma fragment_cases:
  assumes "length (fragment mtu f) \<noteq> 1"
  obtains n m where "fragment mtu f = map (make_fragment f m (of_nat n)) [0..<n]"
    and "m = max_payload_per_fragment mtu (auth_wire_size (fr_auth f))" and "0 < m"
    and "m < length (fr_payload f)" and "0 < n" and "n \<le> 65535"
    and "n = (length (fr_payload f) + m - 1) div m" and "length (fr_payload f) \<le> n * m"
proof -
  let ?m = "max_payload_per_fragment mtu (auth_wire_size (fr_auth f))"
  let ?n = "(length (fr_payload f) + ?m - 1) div ?m"
  have m: "0 < ?m" "?m < length (fr_payload f)" "?n \<le> 65535"
    and fr: "fragment mtu f = map (make_fragment f ?m (of_nat ?n)) [0..<?n]"
    using assms by (auto simp: fragment_def Let_def split: if_splits)
  have "length (fr_payload f) + ?m - 1 < ?n * ?m + ?m"
    using m(1) by (metis add.commute dividend_less_div_times mult.commute)
  then have "length (fr_payload f) \<le> ?n * ?m" using m(1) by linarith
  moreover from this m have "0 < ?n" by (cases "?n = 0") auto
  ultimately show thesis using that [OF fr refl m(1,2) _ m(3) refl] by blast
qed

lemma fragment_reassembles:
  assumes w: "whole f" and long: "length (fragment mtu f) \<noteq> 1"
    and perm: "mset gs = mset (fragment mtu f)"
    and r: "ra_inv r" "hm_get (ra_buffers r) (frame_key f) = None"
      "length (ra_buffers r) < ra_max_buffers r"
    and ts: "length ts = length gs" "\<forall>t \<in> set ts. sat_sub t (hd ts) < ra_timeout_ms r"
  shows "snd (ra_run (zip gs ts) r) = replicate (length gs - 1) (Ok None) @ [Ok (Some f)]"
proof -
  obtain n m where n: "fragment mtu f = map (make_fragment f m (of_nat n)) [0..<n]" "0 < n"
    "n \<le> 65535" "length (fr_payload f) \<le> n * m"
    using fragment_cases [OF long] by metis
  obtain js where js: "mset js = mset [0..<n]" "gs = map (make_fragment f m (of_nat n)) js"
    using mset_map_eq [of gs "make_fragment f m (of_nat n)" "[0..<n]"] perm n(1) by auto
  have "distinct js" using js(1) by (metis distinct_upt mset_eq_imp_distinct_iff)
  moreover have "set js = {..<n}" using js(1) by (metis atLeast_upt set_mset_mset)
  ultimately show ?thesis
    using run_all [OF r, of js n ts m] n(2-4) w ts js(2) by simp
qed

lemma chunk_length: "length (chunk p m i) = min m (length p - i * m)"
  by (simp add: chunk_def)

lemma fragment_wire_size:
  assumes "typed_frame f"
  shows "frame_wire_size (make_fragment f m t i) =
     66 + auth_wire_size (fr_auth f) + (if fr_trace_id f \<noteq> None then TRACE_ID_SIZE else 0)
     + (if fr_routing f \<noteq> None then ROUTING_EXT_SIZE else 0) + min m (length (fr_payload f) - i * m)"
  by (simp add: frame_wire_size_def chunk_length size_defs)

lemma wf_make_fragment: "wf_frame f \<Longrightarrow> wf_frame (make_fragment f m t i)"
  unfolding wf_frame_def
  by (auto simp: frag_header_def wf_header_def chunk_length
      intro: le_trans [OF min.cobounded2 le_trans [OF diff_le_self]])

section \<open>Properties\<close>

text \<open>
  The fragments of a frame, delivered to the reassembler in any order, give the frame back: every
  fragment but the last delivered one is kept and answered with nothing, and the last one returns
  exactly the original frame, with its headers, trace id, routing extension, payload and
  authentication. This needs a free buffer slot, no other pending reassembly under the frame's key,
  and all fragments within the timeout of the first one delivered.
\<close>

lemma fragment_reassemble:
  assumes "wf_frame f" and "fr_fragment_info f = None" and "length (fragment mtu f) \<noteq> 1"
    and "mset gs = mset (fragment mtu f)" and "ra_inv r"
    and "hm_get (ra_buffers r) (frame_key f) = None" and "pending_count r < ra_max_buffers r"
    and "length ts = length gs" and "\<forall>t \<in> set ts. sat_sub t (hd ts) < ra_timeout_ms r"
  shows "snd (ra_run (zip gs ts) r) = replicate (length gs - 1) (Ok None) @ [Ok (Some f)]"
  using assms by (intro fragment_reassembles) (auto simp: whole_def wf_frame_def pending_count_def)

definition long_frame :: frame where
  "long_frame =
     with_routing (frame_new (with_trust_level (frame_header_new FtIntent (NodeId (replicate 32 7))) TlRaw)
         PtRaw [1, 2, 3, 4, 5])
       (NodeId (replicate 32 9)) 8"

lemma wf_long_frame: "wf_frame long_frame"
  unfolding long_frame_def
  by (intro wf_frame_builders)
    (simp_all add: wf_header_def frame_header_new_def with_trust_level_def flags_default_def
      wf_frame_type_def wf_payload_type_def MAX_PAYLOAD_SIZE_def clock_zero_def wf_id_defs
      size_defs intent_hash_zero_def)

lemmas long_frame_defs = long_frame_def with_routing_def frame_new_def with_trust_level_def
  frame_header_new_def

lemma fragment_long_frame: "fragment 68 long_frame = map (make_fragment long_frame 2 3) [0, 1, 2]"
  by (simp add: fragment_def long_frame_defs max_payload_per_fragment_def Let_def upt_rec
      numeral_2_eq_2 [symmetric])

text \<open>
  C39: whatever frames a reassembler receives, in any order and at any times, forged ones included:
  it never holds more buffers than its limit, and processing a frame never panics (the metadata
  that \<open>reassemble\<close> unwraps is always there).
\<close>

theorem reassembler_safe:
  assumes "reaches (\<lambda>r. \<exists>n t. r = reassembler_new n t) ra_step r"
    and "ra_process f now r = (r', out)"
  shows "pending_count r \<le> ra_max_buffers r \<and> pending_count r' \<le> ra_max_buffers r \<and> out \<noteq> Panic"
proof -
  have "ra_inv r" by (rule ra.inv_reaches [OF assms(1)])
  with ra_process_inv [OF this assms(2)] show ?thesis
    by (auto simp: ra_inv_def pending_count_def)
qed

theorem reassembler_safe_witness:
  "pending_count (fst (ra_process (make_fragment long_frame 2 3 1) 7 (reassembler_new 4 50))) \<le> 4 \<and>
   snd (ra_process (make_fragment long_frame 2 3 1) 7 (reassembler_new 4 50)) \<noteq> Panic"
  using reassembler_safe [of "reassembler_new 4 50" "make_fragment long_frame 2 3 1" 7
      "fst (ra_process (make_fragment long_frame 2 3 1) 7 (reassembler_new 4 50))"
      "snd (ra_process (make_fragment long_frame 2 3 1) 7 (reassembler_new 4 50))"]
    reaches_start [of "\<lambda>r. \<exists>n t. r = reassembler_new n t" "reassembler_new 4 50" ra_step]
  by (auto simp: reassembler_new_def)

text \<open>
  C40: the fragments of a well-formed frame are well-formed frames, and their size on the wire is
  bounded by the MTU plus the trace id and the routing extension, which the computation of the
  payload per fragment leaves out; the first fragment reaches this bound, so a frame with either
  extension is cut into fragments larger than the MTU.
\<close>

theorem fragment_sizes:
  assumes "wf_frame f" and "length (fragment mtu f) \<noteq> 1"
  defines "extra \<equiv> (if fr_trace_id f \<noteq> None then TRACE_ID_SIZE else 0)
                   + (if fr_routing f \<noteq> None then ROUTING_EXT_SIZE else 0)"
  shows "list_all (\<lambda>g. wf_frame g \<and> frame_wire_size g \<le> mtu + extra) (fragment mtu f) \<and>
         frame_wire_size (hd (fragment mtu f)) = mtu + extra"
proof -
  obtain n m where n: "fragment mtu f = map (make_fragment f m (of_nat n)) [0..<n]"
    "m = max_payload_per_fragment mtu (auth_wire_size (fr_auth f))" "0 < m"
    "m < length (fr_payload f)" "0 < n"
    using fragment_cases [OF assms(2)] by metis
  have mtu: "mtu = 66 + auth_wire_size (fr_auth f) + m"
    using n(2,3) by (simp add: max_payload_per_fragment_def)
  note sz = fragment_wire_size [OF wf_frame_typed [OF assms(1)]]
  have "list_all (\<lambda>g. wf_frame g \<and> frame_wire_size g \<le> mtu + extra) (fragment mtu f)"
    unfolding n(1) using assms(1) by (simp add: list_all_iff wf_make_fragment sz extra_def mtu)
  moreover have "hd (fragment mtu f) = make_fragment f m (of_nat n) 0"
    using n(1,5) by (simp add: hd_map)
  ultimately show ?thesis using n(4) by (simp add: sz extra_def mtu)
qed

theorem fragment_sizes_witness: "frame_wire_size (hd (fragment 68 long_frame)) = 68 + 33"
proof -
  have "fr_trace_id long_frame = None" "fr_routing long_frame \<noteq> None"
    by (simp_all add: long_frame_defs)
  moreover have "length (fragment 68 long_frame) \<noteq> 1" by (simp add: fragment_long_frame)
  ultimately show ?thesis using fragment_sizes [OF wf_long_frame, of 68] by (simp add: size_defs)
qed

end
