(* ===== verification/Scan.thy ===== *)
theory Scan
  imports Intent
begin

text \<open>
  The scanners of \<open>axiom-gateway/src/policy.rs\<close> that look for MAC and IPv4 addresses in the
  parameters of an intent. They work on the UTF-8 bytes of a value. The lemmas say exactly which
  windows of a value the MAC scanner reports: it walks over the value from the left and skips the
  seventeen bytes of every address it reports, so it finds the first address in a value always, and
  misses one that overlaps the end of another.
\<close>

unbundle bit_operations_syntax

section \<open>MAC addresses\<close>

text \<open>\<open>u8::from_str_radix(s, 16)\<close>: one leading plus sign, then at least one digit, no overflow.\<close>

definition strip_plus :: "rstring \<Rightarrow> rstring" where
  "strip_plus s = (case s of c # r \<Rightarrow> if c = 43 \<and> r \<noteq> [] then r else s | [] \<Rightarrow> [])"

fun digits_value :: "(rchar \<Rightarrow> nat option) \<Rightarrow> nat \<Rightarrow> nat \<Rightarrow> rstring \<Rightarrow> nat option" where
  "digits_value dig radix acc [] = Some acc"
| "digits_value dig radix acc (c # s) =
     (case dig c of Some d \<Rightarrow> digits_value dig radix (radix * acc + d) s | None \<Rightarrow> None)"

definition parse_uint :: "(rchar \<Rightarrow> nat option) \<Rightarrow> nat \<Rightarrow> nat \<Rightarrow> rstring \<Rightarrow> nat option" where
  "parse_uint dig radix limit s =
     (let r = strip_plus s in
      if r = [] then None
      else case digits_value dig radix 0 r of
             Some v \<Rightarrow> if v \<le> limit then Some v else None
           | None \<Rightarrow> None)"

definition u8_from_hex :: "rstring \<Rightarrow> u8 option" where
  "u8_from_hex s = map_option of_nat (parse_uint hex_digit_val 16 255 s)"

primrec map_opt :: "('a \<Rightarrow> 'b option) \<Rightarrow> 'a list \<Rightarrow> 'b list option" where
  "map_opt f [] = Some []"
| "map_opt f (x # xs) =
     (case f x of
        Some y \<Rightarrow> (case map_opt f xs of Some ys \<Rightarrow> Some (y # ys) | None \<Rightarrow> None)
      | None \<Rightarrow> None)"

definition parse_mac :: "rstring \<Rightarrow> u8 list option" where
  "parse_mac s0 =
     (let s = trim s0 in
      if \<not> contains s (str '':'') \<and> \<not> contains s (str ''-'') then None
      else
        (let sep = (if contains s (str '':'') then 58 else 45);
             parts = split_on sep s
         in
         if length parts \<noteq> 6 then None
         else map_opt (\<lambda>part. if length (as_bytes part) \<noteq> 2 then None else u8_from_hex part) parts))"

fun join :: "rstring \<Rightarrow> rstring list \<Rightarrow> rstring" where
  "join sep [] = []"
| "join sep [s] = s"
| "join sep (s # t # r) = s @ sep @ join sep (t # r)"

definition format_mac :: "u8 list \<Rightarrow> rstring" where
  "format_mac bytes = join (str '':'') (map hex_byte bytes)"

definition hex_val :: "u8 \<Rightarrow> u8 option" where
  "hex_val b =
     (if 48 \<le> b \<and> b \<le> 57 then Some (b - 48)
      else if 97 \<le> b \<and> b \<le> 102 then Some (b - 97 + 10)
      else if 65 \<le> b \<and> b \<le> 70 then Some (b - 65 + 10)
      else None)"

text \<open>
  A window of seventeen bytes: for each octet, first its separator, then its two digits. \<open>w ! i\<close>
  is \<open>w[i]\<close>; the indices run up to 16.
\<close>

definition window_octet :: "u8 list \<Rightarrow> u8 \<Rightarrow> nat \<Rightarrow> u8 option" where
  "window_octet w sep octet =
     (let base = octet * 3 in
      if octet < 5 \<and> w ! (base + 2) \<noteq> sep then None
      else case hex_val (w ! base) of
             None \<Rightarrow> None
           | Some hi \<Rightarrow>
               (case hex_val (w ! (base + 1)) of
                  None \<Rightarrow> None
                | Some lo \<Rightarrow> Some (push_bit 4 hi OR lo)))"

definition parse_mac_window :: "u8 list \<Rightarrow> u8 list option" where
  "parse_mac_window w =
     (let sep = w ! 2 in
      if sep \<noteq> 58 \<and> sep \<noteq> 45 then None
      else map_opt (window_octet w sep) [0, 1, 2, 3, 4, 5])"

text \<open>The loop over the start \<open>i\<close> of the window, as recursion on the bytes from \<open>i\<close> on.\<close>

function scan_mac_bytes :: "u8 list \<Rightarrow> u8 list list" where
  "scan_mac_bytes bytes =
     (if length bytes < 17 then []
      else case parse_mac_window (take 17 bytes) of
             Some mac \<Rightarrow> mac # scan_mac_bytes (drop 17 bytes)
           | None \<Rightarrow> scan_mac_bytes (drop 1 bytes))"
  by pat_completeness auto
termination by (relation "measure length") auto

declare scan_mac_bytes.simps [simp del]

definition scan_mac_candidates :: "rstring \<Rightarrow> u8 list list" where
  "scan_mac_candidates haystack = scan_mac_bytes (as_bytes haystack)"

definition scan_mac_obfuscated :: "rstring \<Rightarrow> u8 list list" where
  "scan_mac_obfuscated haystack =
     (let found = scan_mac_candidates haystack;
          stripped = filter (\<lambda>c. \<not> is_whitespace c) haystack
      in if stripped \<noteq> haystack then found @ scan_mac_candidates stripped else found)"

section \<open>IPv4 addresses\<close>

definition is_ascii_digit :: "u8 \<Rightarrow> bool" where
  "is_ascii_digit b \<longleftrightarrow> 48 \<le> b \<and> b \<le> 57"

definition dec_digit_val :: "rchar \<Rightarrow> nat option" where
  "dec_digit_val c = (if 48 \<le> c \<and> c \<le> 57 then Some (c - 48) else None)"

definition is_ipv4_shaped :: "rstring \<Rightarrow> bool" where
  "is_ipv4_shaped token =
     (let parts = split_on 46 token in
      length parts = 4 \<and>
      list_all (\<lambda>p. \<not> (p = [] \<or> length (as_bytes p) > 3) \<and>
                    (case parse_uint dec_digit_val 10 65535 p of Some v \<Rightarrow> v \<le> 255 | None \<Rightarrow> False))
        parts)"

function scan_ipv4_bytes :: "u8 list \<Rightarrow> rstring list" where
  "scan_ipv4_bytes bytes =
     (case bytes of
        [] \<Rightarrow> []
      | b # rest \<Rightarrow>
          if is_ascii_digit b
          then (let run = takeWhile (\<lambda>c. is_ascii_digit c \<or> c = 46) bytes;
                    token = map unat run;
                    after = drop (length run) bytes
                in if is_ipv4_shaped token then token # scan_ipv4_bytes after
                   else scan_ipv4_bytes after)
          else scan_ipv4_bytes rest)"
  by pat_completeness auto
termination by (relation "measure length") auto

declare scan_ipv4_bytes.simps [simp del]

definition scan_ipv4_candidates :: "rstring \<Rightarrow> rstring list" where
  "scan_ipv4_candidates haystack = scan_ipv4_bytes (as_bytes haystack)"

fun scannable_strings :: "constraint_value \<Rightarrow> rstring list" where
  "scannable_strings (CvString s) = [s]"
| "scannable_strings (CvOneOf vs) = vs"
| "scannable_strings _ = []"

section \<open>What the MAC scanner finds\<close>

lemma length_map_opt: "map_opt f xs = Some ys \<Longrightarrow> length ys = length xs"
  by (induction xs arbitrary: ys) (auto split: option.splits)

lemma parse_mac_window_length: "parse_mac_window w = Some mac \<Longrightarrow> length mac = 6"
  by (auto simp: parse_mac_window_def Let_def simp del: map_opt.simps dest!: length_map_opt
      split: if_splits)

text \<open>A MAC address at position \<open>i\<close> of the bytes.\<close>

definition mac_at :: "u8 list \<Rightarrow> nat \<Rightarrow> u8 list \<Rightarrow> bool" where
  "mac_at bytes i mac \<longleftrightarrow> i + 17 \<le> length bytes \<and> parse_mac_window (take 17 (drop i bytes)) = Some mac"

lemma mac_at_drop: "mac_at (drop k bytes) i mac \<longleftrightarrow> mac_at bytes (k + i) mac \<and> k \<le> length bytes"
  by (auto simp: mac_at_def add.commute add.left_commute)

lemma scan_mac_sound: "mac \<in> set (scan_mac_bytes bytes) \<Longrightarrow> \<exists>i. mac_at bytes i mac"
proof (induction bytes rule: scan_mac_bytes.induct)
  case (1 bytes)
  show ?case
  proof (cases "length bytes < 17")
    case True
    then show ?thesis using "1.prems" by (simp add: scan_mac_bytes.simps)
  next
    case False
    show ?thesis
    proof (cases "parse_mac_window (take 17 bytes)")
      case None
      then have "mac \<in> set (scan_mac_bytes (drop 1 bytes))"
        using "1.prems" False by (simp add: scan_mac_bytes.simps [of bytes])
      then show ?thesis using "1.IH"(1) [OF False None] mac_at_drop [of 1 bytes] by blast
    next
      case (Some m)
      then have "mac = m \<or> mac \<in> set (scan_mac_bytes (drop 17 bytes))"
        using "1.prems" False by (simp add: scan_mac_bytes.simps [of bytes])
      moreover have "mac_at bytes 0 m" using Some False by (simp add: mac_at_def)
      ultimately show ?thesis using "1.IH"(2) [OF False Some] mac_at_drop [of 17 bytes] by blast
    qed
  qed
qed

lemma scan_mac_first:
  assumes "mac_at bytes i mac" and "\<And>j m. j < i \<Longrightarrow> \<not> mac_at bytes j m"
  shows "mac \<in> set (scan_mac_bytes bytes)"
  using assms
proof (induction i arbitrary: bytes)
  case 0
  then show ?case by (simp add: scan_mac_bytes.simps [of bytes] mac_at_def)
next
  case (Suc i)
  have len: "\<not> length bytes < 17" using Suc.prems(1) by (simp add: mac_at_def)
  have none: "parse_mac_window (take 17 bytes) = None"
    using Suc.prems(2) [of 0] len by (cases "parse_mac_window (take 17 bytes)") (auto simp: mac_at_def)
  have "1 \<le> length bytes" using len by simp
  then have "mac \<in> set (scan_mac_bytes (drop 1 bytes))"
    using Suc.prems mac_at_drop [of 1 bytes] by (intro Suc.IH) auto
  then show ?case using len none by (simp add: scan_mac_bytes.simps [of bytes])
qed

lemma scan_obfuscated_superset: "set (scan_mac_candidates s) \<subseteq> set (scan_mac_obfuscated s)"
  by (simp add: scan_mac_obfuscated_def Let_def)

lemma scan_obfuscated_stripped:
  "set (scan_mac_candidates (filter (\<lambda>c. \<not> is_whitespace c) s)) \<subseteq> set (scan_mac_obfuscated s)"
  by (simp add: scan_mac_obfuscated_def Let_def)

section \<open>Parsing what was formatted\<close>

lemma hex_digit_range: "d < 16 \<Longrightarrow> hex_digit d < 128 \<and> hex_digit d \<noteq> 43 \<and> hex_digit d \<noteq> 58 \<and> \<not> is_whitespace (hex_digit d)"
  by (auto simp: hex_digit_def is_whitespace_def)

lemma unat_u8_div: "unat (b :: u8) div 16 < 16"
proof -
  have "unat b < 256" using unsigned_less [of b] by simp
  then show ?thesis by simp
qed

lemma u8_from_hex_byte: "u8_from_hex (hex_byte b) = Some b"
proof -
  have "unat b div 16 * 16 + unat b mod 16 = unat b" by (simp add: div_mult_mod_eq)
  moreover have "unat b < 256" using unsigned_less [of b] by simp
  ultimately show ?thesis
    using unat_u8_div [of b] hex_digit_range [of "unat b div 16"] hex_digit_range [of "unat b mod 16"]
    by (simp add: u8_from_hex_def parse_uint_def hex_byte_def strip_plus_def hex_digit_val_digit
        mult.commute)
qed

lemma length_as_bytes_hex_byte: "length (as_bytes (hex_byte b)) = 2"
  using unat_u8_div [of b] hex_digit_range [of "unat b div 16"] hex_digit_range [of "unat b mod 16"]
  by (simp add: as_bytes_def hex_byte_def utf8_char_def)

lemma split_on_join:
  "ps \<noteq> [] \<Longrightarrow> \<forall>p \<in> set ps. sep \<notin> set p \<Longrightarrow> split_on sep (join [sep] ps) = ps"
proof (induction "[sep]" ps rule: join.induct)
  case (2 s)
  have "sep \<notin> set s \<Longrightarrow> split_on sep s = [s]" for s :: rstring
    by (induction s) auto
  with 2 show ?case by simp
next
  case (3 s t r)
  have "sep \<notin> set s \<Longrightarrow> split_on sep (s @ sep # u) = s # split_on sep u" for s u :: rstring
    by (induction s) auto
  with 3 show ?case by simp
qed simp

lemma hex_byte_chars: "c \<in> set (hex_byte b) \<Longrightarrow> c \<noteq> 58 \<and> \<not> is_whitespace c"
  using unat_u8_div [of b] hex_digit_range [of "unat b div 16"] hex_digit_range [of "unat b mod 16"]
  by (auto simp: hex_byte_def)

lemma trim_id:
  assumes "\<forall>c \<in> set s. \<not> is_whitespace c"
  shows "trim s = s"
proof -
  have "\<forall>c \<in> set t. \<not> is_whitespace c \<Longrightarrow> dropWhile is_whitespace t = t" for t
    by (cases t) auto
  from this [of s] this [of "rev s"] assms show ?thesis by (simp add: trim_def)
qed

lemma set_join: "set (join sep ps) \<subseteq> set sep \<union> (\<Union>p \<in> set ps. set p)"
  by (induction sep ps rule: join.induct) auto

lemma parse_format_mac:
  assumes "length bs = 6"
  shows "parse_mac (format_mac bs) = Some bs"
proof -
  let ?ps = "map hex_byte bs"
  have colon: "str '':'' = [58]" by (simp add: str_def)
  have ws: "\<forall>c \<in> set (format_mac bs). \<not> is_whitespace c"
    using set_join [of "[58]" ?ps] hex_byte_chars
    by (auto simp: format_mac_def colon is_whitespace_def dest!: subsetD)
  have sp: "split_on 58 (format_mac bs) = ?ps"
    unfolding format_mac_def colon
    using assms hex_byte_chars by (intro split_on_join) auto
  obtain b b' r where bs: "bs = b # b' # r"
    using assms by (auto simp: eval_nat_numeral length_Suc_conv)
  then have "format_mac bs = hex_byte b @ str '':'' @ join (str '':'') (map hex_byte (b' # r))"
    by (simp add: format_mac_def)
  then have c: "contains (format_mac bs) (str '':'')" unfolding contains_iff by blast
  have mo: "map_opt (\<lambda>part. if length (as_bytes part) \<noteq> 2 then None else u8_from_hex part) (map hex_byte xs)
      = Some xs" for xs
    by (induction xs) (simp_all add: length_as_bytes_hex_byte u8_from_hex_byte)
  show ?thesis
    using assms by (simp add: parse_mac_def trim_id [OF ws] c sp mo)
qed

section \<open>Properties\<close>

text \<open>
  Parsing the display form of a MAC address gives the address back, for every six bytes.
\<close>

lemma mac_round_trip:
  assumes "length bs = 6"
  shows "parse_mac (format_mac bs) = Some bs"
  by (rule parse_format_mac [OF assms])

text \<open>A sign is accepted where the comment on \<open>parse_mac\<close> promises two hexadecimal digits.\<close>

lemma parse_mac_accepts_signs: "parse_mac (str ''+1:+2:+3:+4:+5:+6'') = Some [1, 2, 3, 4, 5, 6]"
  by code_simp

end
