(* ===== verification/Policy.thy ===== *)
theory Policy
  imports Scan
begin

text \<open>
  The capability policy of the gateway, \<open>axiom-gateway/src/policy.rs\<close>: loading it fail-closed, the
  central check \<open>check_and_acquire\<close> with rate limits and concurrency permits, the kill switch, and
  the search for protected resources in the parameters of an intent.

  The libraries the module calls are the argument \<open>policy_libs\<close> of the definitions that use them:
  the TOML parser, crate \<open>hex\<close>, Unicode lower-casing, and tokio's semaphore, whose state has type
  \<open>'s\<close>. The wall clock (seconds) and the monotonic clock (nanoseconds) are arguments of the calls
  that read them. One call of \<open>check_and_acquire\<close> is one step: its reads of the kill switch, of the
  rate-limit map under its lock and of the semaphore are not interleaved with other calls.
\<close>

section \<open>The policy file\<close>

datatype tier = Tier0 | Tier1 | Tier2

definition tier_from_toml_str :: "rstring \<Rightarrow> tier option" where
  "tier_from_toml_str s =
     (if s = str ''tier0'' then Some Tier0
      else if s = str ''tier1'' then Some Tier1
      else if s = str ''tier2'' then Some Tier2
      else None)"

fun tier_as_str :: "tier \<Rightarrow> rstring" where
  "tier_as_str Tier0 = str ''tier0''"
| "tier_as_str Tier1 = str ''tier1''"
| "tier_as_str Tier2 = str ''tier2''"

record raw_protected_resource =
  rpr_name :: "rstring option"
  rpr_mac :: rstring
  rpr_ip :: "rstring option"

datatype raw_allowed_peer = Bare rstring | WithExpiry rstring "u64 option"

fun peer_str :: "raw_allowed_peer \<Rightarrow> rstring" where
  "peer_str (Bare s) = s"
| "peer_str (WithExpiry peer _) = peer"

fun peer_expires :: "raw_allowed_peer \<Rightarrow> u64 option" where
  "peer_expires (Bare _) = None"
| "peer_expires (WithExpiry _ e) = e"

record raw_capability_entry =
  rce_allowed_peers :: "raw_allowed_peer list"
  rce_rate_limit_secs :: u64
  rce_concurrency :: nat
  rce_tier :: "rstring option"
  rce_denied_param_substrings :: "rstring list"

record raw_policy_file =
  rpf_version :: u32
  rpf_capability :: "(rstring, raw_capability_entry) hmap"
  rpf_protected_resource :: "raw_protected_resource list option"

definition POLICY_SCHEMA_VERSION :: u32 where "POLICY_SCHEMA_VERSION = 2"

record 's policy_libs =
  toml_from_str :: "rstring \<Rightarrow> raw_policy_file option"
  hex_dec :: "rstring \<Rightarrow> u8 list option"
  hex_enc :: "u8 list \<Rightarrow> rstring"
  to_lowercase :: "rstring \<Rightarrow> rstring"
  sem_new :: "nat \<Rightarrow> 's"
  sem_try_acquire :: "'s \<Rightarrow> 's option"
  sem_release :: "'s \<Rightarrow> 's"

section \<open>The loaded policy\<close>

record protected_resource =
  pr_name :: "rstring option"
  pr_mac :: "u8 list"
  pr_mac_display :: rstring
  pr_ip :: "rstring option"

definition protected_resource_new ::
    "rstring option \<Rightarrow> rstring \<Rightarrow> rstring option \<Rightarrow> protected_resource option" where
  "protected_resource_new name mac ip =
     map_option (\<lambda>bytes. \<lparr>pr_name = name, pr_mac = bytes, pr_mac_display = format_mac bytes,
                          pr_ip = ip\<rparr>) (parse_mac mac)"

record protected_match =
  pm_resource_name :: "rstring option"
  pm_resource_mac :: rstring
  pm_resource_ip :: "rstring option"
  pm_matched_value :: rstring
  pm_parameter_key :: rstring

record 's capability_entry =
  ce_allowed_peers :: "(node_id, u64 option) hmap"
  ce_rate_limit :: nat
  ce_semaphore :: 's
  ce_concurrency :: nat
  ce_tier :: tier
  ce_denied :: "rstring list"

record 's capability_policy =
  cp_entries :: "(rstring, 's capability_entry) hmap"
  cp_rate_limit_state :: "(rstring \<times> node_id, nat) hmap"
  cp_protected_resources :: "protected_resource list option"
  cp_frozen :: bool
  cp_suspended :: "node_id list"

datatype policy_outcome =
  Allowed | NotAuthorized | RateLimited | AtConcurrencyLimit | Suspended | Frozen

definition peer_currently_allowed :: "u64 \<Rightarrow> (node_id, u64 option) hmap \<Rightarrow> node_id \<Rightarrow> bool" where
  "peer_currently_allowed now_secs peers sender =
     (case hm_get peers sender of
        None \<Rightarrow> False
      | Some None \<Rightarrow> True
      | Some (Some expires_at) \<Rightarrow> now_secs < expires_at)"

definition nanos_per_sec :: nat where "nanos_per_sec = 1000000000"

definition deny_all :: "'s capability_policy" where
  "deny_all =
     \<lparr>cp_entries = [], cp_rate_limit_state = [], cp_protected_resources = None,
      cp_frozen = False, cp_suspended = []\<rparr>"

section \<open>Loading\<close>

definition load_protected ::
    "raw_protected_resource list \<Rightarrow> protected_resource list" where
  "load_protected raw =
     concat (map (\<lambda>r. case protected_resource_new (rpr_name r) (rpr_mac r) (rpr_ip r) of
                        Some pr \<Rightarrow> [pr] | None \<Rightarrow> []) raw)"

definition load_peers :: "'s policy_libs \<Rightarrow> raw_allowed_peer list \<Rightarrow> (node_id, u64 option) hmap" where
  "load_peers L raw =
     fold (\<lambda>p m. case hex_dec L (peer_str p) of
                   Some b \<Rightarrow> if length b = 32 then hm_insert (NodeId b) (peer_expires p) m else m
                 | None \<Rightarrow> m) raw []"

text \<open>The body of the loop over the capability tables: an entry, or none when it fails closed.\<close>

definition load_entry ::
    "'s policy_libs \<Rightarrow> protected_resource list option \<Rightarrow> raw_capability_entry
       \<Rightarrow> 's capability_entry option" where
  "load_entry L protected raw =
     (case (case rce_tier raw of None \<Rightarrow> None | Some t \<Rightarrow> tier_from_toml_str t) of
        None \<Rightarrow> None
      | Some tier \<Rightarrow>
          if tier \<noteq> Tier0 \<and> protected = None then None
          else Some
            \<lparr>ce_allowed_peers = load_peers L (rce_allowed_peers raw),
             ce_rate_limit = unat (rce_rate_limit_secs raw) * nanos_per_sec,
             ce_semaphore = sem_new L (rce_concurrency raw),
             ce_concurrency = rce_concurrency raw,
             ce_tier = tier,
             ce_denied = map (to_lowercase L) (rce_denied_param_substrings raw)\<rparr>)"

definition load_entries ::
    "'s policy_libs \<Rightarrow> protected_resource list option \<Rightarrow> (rstring, raw_capability_entry) hmap
       \<Rightarrow> (rstring, 's capability_entry) hmap" where
  "load_entries L protected raw =
     fold (\<lambda>(name, r) m. case load_entry L protected r of
                           Some e \<Rightarrow> hm_insert name e m | None \<Rightarrow> m) raw []"

text \<open>\<open>contents\<close> is what reading the file gives, \<open>None\<close> when it cannot be read.\<close>

definition try_load :: "'s policy_libs \<Rightarrow> rstring option \<Rightarrow> 's capability_policy option" where
  "try_load L contents =
     (case contents of
        None \<Rightarrow> None
      | Some text \<Rightarrow>
          (case toml_from_str L text of
             None \<Rightarrow> None
           | Some raw \<Rightarrow>
               if rpf_version raw \<noteq> POLICY_SCHEMA_VERSION then None
               else
                 (let protected = map_option load_protected (rpf_protected_resource raw) in
                  Some \<lparr>cp_entries = load_entries L protected (rpf_capability raw),
                        cp_rate_limit_state = [], cp_protected_resources = protected,
                        cp_frozen = False, cp_suspended = []\<rparr>)))"

definition load :: "'s policy_libs \<Rightarrow> rstring option \<Rightarrow> 's capability_policy" where
  "load L contents = (case try_load L contents of Some p \<Rightarrow> p | None \<Rightarrow> deny_all)"

section \<open>The central check\<close>

definition check_and_acquire ::
    "'s policy_libs \<Rightarrow> u64 \<Rightarrow> nat \<Rightarrow> rstring \<Rightarrow> node_id \<Rightarrow> 's capability_policy
       \<Rightarrow> 's capability_policy \<times> policy_outcome" where
  "check_and_acquire L now_secs now capability sender p =
     (case hm_get (cp_entries p) capability of
        None \<Rightarrow> (p, NotAuthorized)
      | Some entry \<Rightarrow>
          if sender \<in> set (cp_suspended p) then (p, Suspended)
          else if ce_tier entry \<noteq> Tier0 \<and> cp_frozen p then (p, Frozen)
          else if \<not> peer_currently_allowed now_secs (ce_allowed_peers entry) sender
          then (p, NotAuthorized)
          else if (case hm_get (cp_rate_limit_state p) (capability, sender) of
                     Some prev \<Rightarrow> now - prev < ce_rate_limit entry | None \<Rightarrow> False)
          then (p, RateLimited)
          else
            (let p = p\<lparr>cp_rate_limit_state :=
                         hm_insert (capability, sender) now (cp_rate_limit_state p)\<rparr>
             in case sem_try_acquire L (ce_semaphore entry) of
                  Some s \<Rightarrow>
                    (p\<lparr>cp_entries := hm_insert capability (entry\<lparr>ce_semaphore := s\<rparr>) (cp_entries p)\<rparr>,
                     Allowed)
                | None \<Rightarrow> (p, AtConcurrencyLimit)))"

text \<open>Dropping the permit of \<open>Allowed\<close>.\<close>

definition drop_permit :: "'s policy_libs \<Rightarrow> rstring \<Rightarrow> 's capability_policy \<Rightarrow> 's capability_policy" where
  "drop_permit L capability p =
     (case hm_get (cp_entries p) capability of
        None \<Rightarrow> p
      | Some entry \<Rightarrow>
          p\<lparr>cp_entries := hm_insert capability
                (entry\<lparr>ce_semaphore := sem_release L (ce_semaphore entry)\<rparr>) (cp_entries p)\<rparr>)"

definition policy_tier :: "'s capability_policy \<Rightarrow> rstring \<Rightarrow> tier option" where
  "policy_tier p capability = map_option ce_tier (hm_get (cp_entries p) capability)"

definition capability_names :: "'s capability_policy \<Rightarrow> rstring list" where
  "capability_names p = map fst (cp_entries p)"

record cap_summary =
  cs_tier :: tier
  cs_rate_limit_secs :: nat
  cs_concurrency :: nat
  cs_allowed_peers :: "(rstring \<times> u64 option) list"

definition capability_summary ::
    "'s policy_libs \<Rightarrow> u64 \<Rightarrow> 's capability_policy \<Rightarrow> rstring \<Rightarrow> cap_summary option" where
  "capability_summary L now_secs p capability =
     map_option (\<lambda>entry.
       \<lparr>cs_tier = ce_tier entry,
        cs_rate_limit_secs = ce_rate_limit entry div nanos_per_sec,
        cs_concurrency = ce_concurrency entry,
        cs_allowed_peers =
          sort_key fst
            (map (\<lambda>(peer, e). (hex_enc L (node_id_bytes peer), e))
               (filter (\<lambda>(_, e). case e of None \<Rightarrow> True | Some t \<Rightarrow> now_secs < t)
                  (ce_allowed_peers entry)))\<rparr>) (hm_get (cp_entries p) capability)"

definition allows :: "u64 \<Rightarrow> 's capability_policy \<Rightarrow> rstring \<Rightarrow> node_id \<Rightarrow> bool" where
  "allows now_secs p capability identity =
     (case hm_get (cp_entries p) capability of
        None \<Rightarrow> False
      | Some entry \<Rightarrow> peer_currently_allowed now_secs (ce_allowed_peers entry) identity)"

section \<open>The kill switch\<close>

definition freeze :: "'s capability_policy \<Rightarrow> 's capability_policy" where
  "freeze p = p\<lparr>cp_frozen := True\<rparr>"

definition unfreeze :: "'s capability_policy \<Rightarrow> 's capability_policy" where
  "unfreeze p = p\<lparr>cp_frozen := False\<rparr>"

definition is_frozen :: "'s capability_policy \<Rightarrow> bool" where
  "is_frozen p = cp_frozen p"

definition suspend_peer :: "node_id \<Rightarrow> 's capability_policy \<Rightarrow> 's capability_policy" where
  "suspend_peer peer p = p\<lparr>cp_suspended := List.insert peer (cp_suspended p)\<rparr>"

definition unsuspend_peer :: "node_id \<Rightarrow> 's capability_policy \<Rightarrow> 's capability_policy \<times> bool" where
  "unsuspend_peer peer p =
     (p\<lparr>cp_suspended := removeAll peer (cp_suspended p)\<rparr>, peer \<in> set (cp_suspended p))"

definition is_suspended :: "'s capability_policy \<Rightarrow> node_id \<Rightarrow> bool" where
  "is_suspended p peer \<longleftrightarrow> peer \<in> set (cp_suspended p)"

definition suspended_peers :: "'s policy_libs \<Rightarrow> 's capability_policy \<Rightarrow> rstring list" where
  "suspended_peers L p = sort (map (\<lambda>q. hex_enc L (node_id_bytes q)) (cp_suspended p))"

section \<open>Protected resources and denied parameters\<close>

definition protected_resources_configured :: "'s capability_policy \<Rightarrow> bool" where
  "protected_resources_configured p \<longleftrightarrow> cp_protected_resources p \<noteq> None"

definition protected_resources :: "'s capability_policy \<Rightarrow> protected_resource list" where
  "protected_resources p = (case cp_protected_resources p of Some l \<Rightarrow> l | None \<Rightarrow> [])"

definition match_mac :: "protected_resource list \<Rightarrow> rstring \<Rightarrow> u8 list \<Rightarrow> protected_match option" where
  "match_mac protected key mac =
     map_option (\<lambda>pr. \<lparr>pm_resource_name = pr_name pr, pm_resource_mac = pr_mac_display pr,
                       pm_resource_ip = pr_ip pr, pm_matched_value = format_mac mac,
                       pm_parameter_key = key\<rparr>)
       (find (\<lambda>pr. pr_mac pr = mac) protected)"

definition match_ip :: "protected_resource list \<Rightarrow> rstring \<Rightarrow> rstring \<Rightarrow> protected_match option" where
  "match_ip protected key ip =
     map_option (\<lambda>pr. \<lparr>pm_resource_name = pr_name pr, pm_resource_mac = pr_mac_display pr,
                       pm_resource_ip = pr_ip pr, pm_matched_value = ip, pm_parameter_key = key\<rparr>)
       (find (\<lambda>pr. pr_ip pr = Some ip) protected)"

definition match_text :: "protected_resource list \<Rightarrow> rstring \<Rightarrow> rstring \<Rightarrow> protected_match option" where
  "match_text protected key text =
     (case first_some (match_mac protected key) (scan_mac_obfuscated text) of
        Some m \<Rightarrow> Some m
      | None \<Rightarrow> first_some (match_ip protected key) (scan_ipv4_candidates text))"

definition find_protected_match ::
    "'s capability_policy \<Rightarrow> constraint list \<Rightarrow> protected_match option" where
  "find_protected_match p parameters =
     (let protected = protected_resources p in
      if protected = [] then None
      else first_some (\<lambda>c. first_some (match_text protected (c_key c))
                             (scannable_strings (c_value c))) parameters)"

definition denied_reason :: "rstring \<Rightarrow> rstring \<Rightarrow> rstring \<Rightarrow> rstring" where
  "denied_reason key pattern capability =
     str ''parameter '' @ [39] @ key @ [39] @ str '' value matches denied pattern '' @ [39] @ pattern
     @ [39] @ str '' configured for capability '' @ [39] @ capability @ [39]"

definition check_denied_param_substrings ::
    "'s policy_libs \<Rightarrow> 's capability_policy \<Rightarrow> rstring \<Rightarrow> constraint list \<Rightarrow> rstring option" where
  "check_denied_param_substrings L p capability parameters =
     (case hm_get (cp_entries p) capability of
        None \<Rightarrow> None
      | Some entry \<Rightarrow>
          if ce_denied entry = [] then None
          else first_some (\<lambda>c.
                 first_some (\<lambda>text.
                   first_some (\<lambda>pattern.
                     if contains (to_lowercase L text) pattern
                     then Some (denied_reason (c_key c) pattern capability) else None)
                     (ce_denied entry))
                   (scannable_strings (c_value c)))
                 parameters)"

section \<open>Loading fails closed\<close>

lemma load_peers_wf: "hm_wf (load_peers L raw)"
proof -
  have "hm_wf m \<Longrightarrow> hm_wf (fold (\<lambda>p m. case hex_dec L (peer_str p) of
          Some b \<Rightarrow> if length b = 32 then hm_insert (NodeId b) (peer_expires p) m else m
        | None \<Rightarrow> m) raw m)" for m
    by (induction raw arbitrary: m) (auto split: option.split)
  then show ?thesis by (simp add: load_peers_def)
qed

lemma load_entries_fold:
  "hm_get (fold (\<lambda>(name, r) m. case load_entry L pr r of Some e \<Rightarrow> hm_insert name e m | None \<Rightarrow> m) raw m) c
     = Some e \<Longrightarrow>
   hm_get m c = Some e \<or> (\<exists>r. (c, r) \<in> set raw \<and> load_entry L pr r = Some e)"
proof (induction raw arbitrary: m)
  case (Cons a raw)
  obtain n r where a: "a = (n, r)" by (cases a)
  show ?case
    using Cons.IH [of "case load_entry L pr r of Some e \<Rightarrow> hm_insert n e m | None \<Rightarrow> m"] Cons.prems
    by (auto simp: a split: option.splits if_splits)
qed simp

lemma load_entries_SomeD:
  "hm_get (load_entries L pr raw) c = Some e \<Longrightarrow> \<exists>r. (c, r) \<in> set raw \<and> load_entry L pr r = Some e"
  using load_entries_fold [of L pr raw "[]" c e] by (simp add: load_entries_def)

lemma load_entry_SomeD:
  "load_entry L pr r = Some e \<Longrightarrow>
     (ce_tier e \<noteq> Tier0 \<longrightarrow> pr \<noteq> None) \<and> ce_concurrency e = rce_concurrency r \<and>
     ce_semaphore e = sem_new L (rce_concurrency r) \<and>
     ce_allowed_peers e = load_peers L (rce_allowed_peers r) \<and>
     (\<exists>t. rce_tier r = Some t \<and> tier_from_toml_str t = Some (ce_tier e))"
  by (auto simp: load_entry_def split: option.splits if_splits)

lemma load_cases:
  "load L contents = deny_all \<or>
   (\<exists>text raw. contents = Some text \<and> toml_from_str L text = Some raw \<and>
      rpf_version raw = POLICY_SCHEMA_VERSION \<and>
      load L contents =
        \<lparr>cp_entries = load_entries L (map_option load_protected (rpf_protected_resource raw))
                        (rpf_capability raw),
         cp_rate_limit_state = [],
         cp_protected_resources = map_option load_protected (rpf_protected_resource raw),
         cp_frozen = False, cp_suspended = []\<rparr>)"
  by (auto simp: load_def try_load_def Let_def split: option.splits)

lemma load_entry_of:
  assumes "hm_get (cp_entries (load L contents)) c = Some e"
  obtains txt0 raw r where "contents = Some txt0" and "toml_from_str L txt0 = Some raw"
    and "rpf_version raw = POLICY_SCHEMA_VERSION" and "(c, r) \<in> set (rpf_capability raw)"
    and "load_entry L (map_option load_protected (rpf_protected_resource raw)) r = Some e"
    and "cp_protected_resources (load L contents)
           = map_option load_protected (rpf_protected_resource raw)"
  using load_cases [of L contents] assms
  by (auto simp: deny_all_def dest!: load_entries_SomeD)

section \<open>What a call of the check can do\<close>

text \<open>The configuration of a capability: everything of its entry but the semaphore.\<close>

definition ce_config ::
    "'s capability_entry \<Rightarrow> (node_id, u64 option) hmap \<times> nat \<times> nat \<times> tier \<times> rstring list" where
  "ce_config e = (ce_allowed_peers e, ce_rate_limit e, ce_concurrency e, ce_tier e, ce_denied e)"

definition policy_config ::
    "'s capability_policy \<Rightarrow> rstring \<Rightarrow> ((node_id, u64 option) hmap \<times> nat \<times> nat \<times> tier \<times> rstring list) option" where
  "policy_config p c = map_option ce_config (hm_get (cp_entries p) c)"

lemma ce_config_semaphore [simp]: "ce_config (e\<lparr>ce_semaphore := s\<rparr>) = ce_config e"
  by (simp add: ce_config_def)

lemma policy_config_insert:
  "hm_get (cp_entries p) c = Some e \<Longrightarrow>
     policy_config (p\<lparr>cp_entries := hm_insert c (e\<lparr>ce_semaphore := s\<rparr>) (cp_entries p)\<rparr>) = policy_config p"
  by (auto simp: policy_config_def)

lemma check_config:
  assumes "check_and_acquire L ns now c s p = (p', out)"
  shows "policy_config p' = policy_config p \<and> cp_protected_resources p' = cp_protected_resources p \<and>
         cp_frozen p' = cp_frozen p \<and> cp_suspended p' = cp_suspended p"
  using assms
  by (auto simp: check_and_acquire_def Let_def policy_config_def fun_eq_iff
      split: option.splits if_splits)

lemma drop_config: "policy_config (drop_permit L c p) = policy_config p"
  by (auto simp: drop_permit_def policy_config_def fun_eq_iff split: option.splits)

lemma check_Allowed:
  assumes "check_and_acquire L ns now c s p = (p', Allowed)"
  shows "\<exists>e. hm_get (cp_entries p) c = Some e \<and> s \<notin> set (cp_suspended p) \<and>
           (ce_tier e = Tier0 \<or> \<not> cp_frozen p) \<and>
           peer_currently_allowed ns (ce_allowed_peers e) s \<and>
           (\<forall>prev. hm_get (cp_rate_limit_state p) (c, s) = Some prev \<longrightarrow> ce_rate_limit e \<le> now - prev) \<and>
           (\<exists>sem. sem_try_acquire L (ce_semaphore e) = Some sem \<and>
              cp_entries p' = hm_insert c (e\<lparr>ce_semaphore := sem\<rparr>) (cp_entries p)) \<and>
           cp_rate_limit_state p' = hm_insert (c, s) now (cp_rate_limit_state p)"
  using assms
  by (auto simp: check_and_acquire_def Let_def split: option.splits if_splits)

lemma check_not_Allowed:
  assumes "check_and_acquire L ns now c s p = (p', out)" and "out \<noteq> Allowed"
  shows "cp_entries p' = cp_entries p \<and>
         (cp_rate_limit_state p' = cp_rate_limit_state p \<or>
          cp_rate_limit_state p' = hm_insert (c, s) now (cp_rate_limit_state p))"
  using assms
  by (auto simp: check_and_acquire_def Let_def split: option.splits if_splits)

section \<open>The gate as a state machine\<close>

text \<open>
  What tokio documents of its semaphore: it starts with the permits it is created with, acquiring
  fails exactly when none is left and takes one otherwise, and dropping a permit returns it.
  \<open>avail\<close> counts the permits left.
\<close>

definition counting_semaphore :: "'s policy_libs \<Rightarrow> ('s \<Rightarrow> nat) \<Rightarrow> bool" where
  "counting_semaphore L avail \<longleftrightarrow>
     (\<forall>n. avail (sem_new L n) = n) \<and>
     (\<forall>s. sem_try_acquire L s = None \<longleftrightarrow> avail s = 0) \<and>
     (\<forall>s s'. sem_try_acquire L s = Some s' \<longrightarrow> avail s = Suc (avail s')) \<and>
     (\<forall>s. avail (sem_release L s) = Suc (avail s))"

text \<open>
  The policy together with the permits that are out, the history of the calls that were allowed
  (newest first) and the monotonic clock.
\<close>

record 's gate =
  g_policy :: "'s capability_policy"
  g_in_flight :: "rstring list"
  g_granted :: "(rstring \<times> node_id \<times> nat) list"
  g_clock :: nat

definition gate_start :: "'s policy_libs \<Rightarrow> 's gate \<Rightarrow> bool" where
  "gate_start L g \<longleftrightarrow>
     (\<exists>contents now. g = \<lparr>g_policy = load L contents, g_in_flight = [], g_granted = [], g_clock = now\<rparr>)"

inductive gate_step :: "'s policy_libs \<Rightarrow> 's gate \<Rightarrow> 's gate \<Rightarrow> bool" for L :: "'s policy_libs" where
  gate_allowed: "g_clock g \<le> now \<Longrightarrow> check_and_acquire L ns now c s (g_policy g) = (p', Allowed) \<Longrightarrow>
     gate_step L g (g\<lparr>g_policy := p', g_in_flight := c # g_in_flight g,
                      g_granted := (c, s, now) # g_granted g, g_clock := now\<rparr>)"
| gate_refused: "g_clock g \<le> now \<Longrightarrow> check_and_acquire L ns now c s (g_policy g) = (p', out) \<Longrightarrow>
     out \<noteq> Allowed \<Longrightarrow> gate_step L g (g\<lparr>g_policy := p', g_clock := now\<rparr>)"
| gate_drop: "c \<in> set (g_in_flight g) \<Longrightarrow>
     gate_step L g (g\<lparr>g_policy := drop_permit L c (g_policy g), g_in_flight := remove1 c (g_in_flight g)\<rparr>)"
| gate_freeze: "gate_step L g (g\<lparr>g_policy := freeze (g_policy g)\<rparr>)"
| gate_unfreeze: "gate_step L g (g\<lparr>g_policy := unfreeze (g_policy g)\<rparr>)"
| gate_suspend: "gate_step L g (g\<lparr>g_policy := suspend_peer q (g_policy g)\<rparr>)"
| gate_unsuspend: "gate_step L g (g\<lparr>g_policy := fst (unsuspend_peer q (g_policy g))\<rparr>)"

definition permits_inv :: "('s \<Rightarrow> nat) \<Rightarrow> 's gate \<Rightarrow> bool" where
  "permits_inv avail g \<longleftrightarrow>
     (\<forall>c e. hm_get (cp_entries (g_policy g)) c = Some e \<longrightarrow>
        avail (ce_semaphore e) + count_list (g_in_flight g) c = ce_concurrency e) \<and>
     (\<forall>c. c \<in> set (g_in_flight g) \<longrightarrow> hm_get (cp_entries (g_policy g)) c \<noteq> None)"

fun spaced :: "(rstring \<Rightarrow> nat) \<Rightarrow> (rstring \<times> node_id \<times> nat) list \<Rightarrow> bool" where
  "spaced limit [] = True"
| "spaced limit ((c, s, t) # r) =
     ((\<forall>t'. (c, s, t') \<in> set r \<longrightarrow> t' + limit c \<le> t) \<and> spaced limit r)"

definition rate_limit_of :: "'s capability_policy \<Rightarrow> rstring \<Rightarrow> nat" where
  "rate_limit_of p c = (case policy_config p c of Some (_, r, _) \<Rightarrow> r | None \<Rightarrow> 0)"

definition rate_inv :: "'s gate \<Rightarrow> bool" where
  "rate_inv g \<longleftrightarrow>
     spaced (rate_limit_of (g_policy g)) (g_granted g) \<and>
     (\<forall>c s t. (c, s, t) \<in> set (g_granted g) \<longrightarrow>
        (\<exists>prev. hm_get (cp_rate_limit_state (g_policy g)) (c, s) = Some prev \<and> t \<le> prev)) \<and>
     (\<forall>k prev. hm_get (cp_rate_limit_state (g_policy g)) k = Some prev \<longrightarrow> prev \<le> g_clock g)"

definition gate_inv :: "'s policy_libs \<Rightarrow> ('s \<Rightarrow> nat) \<Rightarrow> 's gate \<Rightarrow> bool" where
  "gate_inv L avail g \<longleftrightarrow> (counting_semaphore L avail \<longrightarrow> permits_inv avail g) \<and> rate_inv g"

lemma rate_limit_of_config: "policy_config p' = policy_config p \<Longrightarrow> rate_limit_of p' = rate_limit_of p"
  by (simp add: rate_limit_of_def fun_eq_iff)

lemma permits_inv_allowed:
  assumes sem: "counting_semaphore L avail" and inv: "permits_inv avail g"
    and ok: "check_and_acquire L ns now c s (g_policy g) = (p', Allowed)"
  shows "permits_inv avail (g\<lparr>g_policy := p', g_in_flight := c # g_in_flight g,
           g_granted := gr, g_clock := now\<rparr>)"
proof -
  obtain e sem' where e: "hm_get (cp_entries (g_policy g)) c = Some e"
    "sem_try_acquire L (ce_semaphore e) = Some sem'"
    "cp_entries p' = hm_insert c (e\<lparr>ce_semaphore := sem'\<rparr>) (cp_entries (g_policy g))"
    using check_Allowed [OF ok] by blast
  have "avail (ce_semaphore e) = Suc (avail sem')"
    using sem e(2) by (auto simp: counting_semaphore_def)
  moreover have "avail (ce_semaphore e) + count_list (g_in_flight g) c = ce_concurrency e"
    using inv e(1) by (simp add: permits_inv_def)
  ultimately show ?thesis using inv e by (auto simp: permits_inv_def)
qed

lemma permits_inv_drop:
  assumes sem: "counting_semaphore L avail" and inv: "permits_inv avail g" and c: "c \<in> set (g_in_flight g)"
  shows "permits_inv avail (g\<lparr>g_policy := drop_permit L c (g_policy g),
           g_in_flight := remove1 c (g_in_flight g)\<rparr>)"
proof -
  obtain e where e: "hm_get (cp_entries (g_policy g)) c = Some e"
    using inv c by (auto simp: permits_inv_def)
  have "count_list (g_in_flight g) c = Suc (count_list (remove1 c (g_in_flight g)) c)"
    using c count_list_0_iff [of "g_in_flight g" c] by (simp add: count_list_remove1)
  moreover have "c' \<noteq> c \<Longrightarrow> count_list (remove1 c (g_in_flight g)) c' = count_list (g_in_flight g) c'" for c'
    by (simp add: count_list_remove1)
  ultimately show ?thesis
    using inv e sem set_remove1_subset [of c "g_in_flight g"]
    by (auto simp: permits_inv_def drop_permit_def counting_semaphore_def)
qed

lemma rate_inv_clock:
  "rate_inv g \<Longrightarrow> hm_get (cp_rate_limit_state (g_policy g)) k = Some prev \<Longrightarrow> prev \<le> g_clock g"
  by (cases k) (simp add: rate_inv_def)

lemma rate_inv_granted:
  "rate_inv g \<Longrightarrow> (c, s, t) \<in> set (g_granted g) \<Longrightarrow>
     \<exists>prev. hm_get (cp_rate_limit_state (g_policy g)) (c, s) = Some prev \<and> t \<le> prev"
  unfolding rate_inv_def by blast

lemma rate_inv_allowed:
  assumes inv: "rate_inv g" and now: "g_clock g \<le> now"
    and ok: "check_and_acquire L ns now c s (g_policy g) = (p', Allowed)"
  shows "rate_inv (g\<lparr>g_policy := p', g_in_flight := fl, g_granted := (c, s, now) # g_granted g,
           g_clock := now\<rparr>)"
proof -
  obtain e where e: "hm_get (cp_entries (g_policy g)) c = Some e"
    "\<forall>prev. hm_get (cp_rate_limit_state (g_policy g)) (c, s) = Some prev \<longrightarrow> ce_rate_limit e \<le> now - prev"
    "cp_rate_limit_state p' = hm_insert (c, s) now (cp_rate_limit_state (g_policy g))"
    using check_Allowed [OF ok] by blast
  have lim: "rate_limit_of p' = rate_limit_of (g_policy g)"
    using check_config [OF ok] by (intro rate_limit_of_config) simp
  have re: "rate_limit_of (g_policy g) c = ce_rate_limit e"
    using e(1) by (simp add: rate_limit_of_def policy_config_def ce_config_def)
  have clk: "prev \<le> now" if "hm_get (cp_rate_limit_state (g_policy g)) k = Some prev" for k prev
    using rate_inv_clock [OF inv that] now by simp
  have "t' + ce_rate_limit e \<le> now" if t': "(c, s, t') \<in> set (g_granted g)" for t'
  proof -
    obtain prev where p: "hm_get (cp_rate_limit_state (g_policy g)) (c, s) = Some prev" "t' \<le> prev"
      using rate_inv_granted [OF inv t'] by blast
    show ?thesis using e(2) p clk [OF p(1)] by auto
  qed
  moreover have "t \<le> now" if "(c, s, t) \<in> set (g_granted g)" for t
    using rate_inv_granted [OF inv that] clk le_trans by blast
  ultimately show ?thesis
    using inv clk by (auto simp: rate_inv_def lim re e(3) split: if_splits)
qed

lemma rate_inv_refused:
  assumes inv: "rate_inv g" and now: "g_clock g \<le> now"
    and no: "check_and_acquire L ns now c s (g_policy g) = (p', out)" "out \<noteq> Allowed"
  shows "rate_inv (g\<lparr>g_policy := p', g_clock := now\<rparr>)"
proof -
  have lim: "rate_limit_of p' = rate_limit_of (g_policy g)"
    using check_config [OF no(1)] by (intro rate_limit_of_config) simp
  have clk: "prev \<le> now" if "hm_get (cp_rate_limit_state (g_policy g)) k = Some prev" for k prev
    using rate_inv_clock [OF inv that] now by simp
  have "t \<le> now" if "(c, s, t) \<in> set (g_granted g)" for t
    using rate_inv_granted [OF inv that] clk le_trans by blast
  then show ?thesis
    using inv clk check_not_Allowed [OF no] by (auto simp: rate_inv_def lim split: if_splits)
qed

lemma permits_inv_same:
  "permits_inv avail g \<Longrightarrow> cp_entries p' = cp_entries (g_policy g) \<Longrightarrow>
     permits_inv avail (g\<lparr>g_policy := p'\<rparr>)"
  by (simp add: permits_inv_def)

lemma rate_inv_same:
  assumes "rate_inv g" and "policy_config p' = policy_config (g_policy g)"
    and "cp_rate_limit_state p' = cp_rate_limit_state (g_policy g)"
  shows "rate_inv (g\<lparr>g_policy := p'\<rparr>)" and "rate_inv (g\<lparr>g_policy := p', g_in_flight := fl\<rparr>)"
  using assms rate_limit_of_config [OF assms(2)] by (simp_all add: rate_inv_def)

lemma kill_switch_same [simp]:
  "cp_entries (freeze p) = cp_entries p" "cp_entries (unfreeze p) = cp_entries p"
  "cp_entries (suspend_peer q p) = cp_entries p" "cp_entries (fst (unsuspend_peer q p)) = cp_entries p"
  "cp_rate_limit_state (freeze p) = cp_rate_limit_state p"
  "cp_rate_limit_state (unfreeze p) = cp_rate_limit_state p"
  "cp_rate_limit_state (suspend_peer q p) = cp_rate_limit_state p"
  "cp_rate_limit_state (fst (unsuspend_peer q p)) = cp_rate_limit_state p"
  "policy_config (freeze p) = policy_config p" "policy_config (unfreeze p) = policy_config p"
  "policy_config (suspend_peer q p) = policy_config p"
  "policy_config (fst (unsuspend_peer q p)) = policy_config p"
  by (simp_all add: freeze_def unfreeze_def suspend_peer_def unsuspend_peer_def policy_config_def
      fun_eq_iff)

lemma drop_rate_state [simp]: "cp_rate_limit_state (drop_permit L c p) = cp_rate_limit_state p"
  by (simp add: drop_permit_def split: option.split)

lemma rate_inv_step: "rate_inv g \<Longrightarrow> gate_step L g g' \<Longrightarrow> rate_inv g'"
  by (cases rule: gate_step.cases [of L g g'])
    (auto intro: rate_inv_allowed rate_inv_refused rate_inv_same simp: drop_config)

lemma permits_inv_refused:
  "permits_inv avail g \<Longrightarrow> check_and_acquire L ns now c s (g_policy g) = (p', out) \<Longrightarrow> out \<noteq> Allowed \<Longrightarrow>
     permits_inv avail (g\<lparr>g_policy := p', g_clock := now\<rparr>)"
  using check_not_Allowed [of L ns now c s "g_policy g" p' out] by (simp add: permits_inv_def)

lemma permits_inv_step:
  "counting_semaphore L avail \<Longrightarrow> permits_inv avail g \<Longrightarrow> gate_step L g g' \<Longrightarrow> permits_inv avail g'"
  by (cases rule: gate_step.cases [of L g g'])
    (auto intro: permits_inv_allowed permits_inv_drop permits_inv_refused permits_inv_same)

lemma gate_start_inv: "gate_start L g \<Longrightarrow> gate_inv L avail g"
proof -
  assume "gate_start L g"
  then obtain contents now where g: "g = \<lparr>g_policy = load L contents, g_in_flight = [],
      g_granted = [], g_clock = now\<rparr>"
    by (auto simp: gate_start_def)
  have "cp_rate_limit_state (load L contents) = []"
    using load_cases [of L contents] by (auto simp: deny_all_def)
  moreover have "avail (ce_semaphore e) = ce_concurrency e"
    if "counting_semaphore L avail" "hm_get (cp_entries (load L contents)) c = Some e" for c e
    using that(1) by (rule_tac load_entry_of [OF that(2)])
      (auto simp: counting_semaphore_def dest!: load_entry_SomeD)
  ultimately show ?thesis by (auto simp: gate_inv_def permits_inv_def rate_inv_def g)
qed

interpretation gate: state_machine "gate_start L" "gate_step L" "gate_inv L avail" for L avail
proof
  fix g g'
  assume "gate_inv L avail g" "gate_step L g g'"
  then show "gate_inv L avail g'"
    by (auto simp: gate_inv_def intro: permits_inv_step rate_inv_step)
qed (rule gate_start_inv)

section \<open>Protected resources\<close>

lemma match_mac_iff:
  "match_mac protected key mac = None \<longleftrightarrow> (\<forall>pr \<in> set protected. pr_mac pr \<noteq> mac)"
  by (auto simp: match_mac_def find_None_iff)

lemma match_mac_SomeD:
  "match_mac protected key mac = Some m \<Longrightarrow>
     \<exists>pr \<in> set protected. pr_mac pr = mac \<and> pm_resource_mac m = pr_mac_display pr \<and> pm_parameter_key m = key"
  by (auto simp: match_mac_def find_Some_iff)

lemma match_ip_SomeD:
  "match_ip protected key ip = Some m \<Longrightarrow>
     \<exists>pr \<in> set protected. pr_ip pr = Some ip \<and> pm_resource_mac m = pr_mac_display pr \<and> pm_parameter_key m = key"
  by (auto simp: match_ip_def find_Some_iff)

lemma match_text_found:
  assumes "mac \<in> set (scan_mac_obfuscated t)" and "pr \<in> set protected" and "pr_mac pr = mac"
  shows "match_text protected key t \<noteq> None"
proof -
  have "match_mac protected key mac \<noteq> None" using assms(2,3) by (auto simp: match_mac_iff)
  then have "first_some (match_mac protected key) (scan_mac_obfuscated t) \<noteq> None"
    using assms(1) by (auto simp: first_some_None_iff)
  then show ?thesis by (auto simp: match_text_def)
qed

lemma find_protected_found:
  assumes "c \<in> set parameters" and "t \<in> set (scannable_strings (c_value c))"
    and "match_text (protected_resources p) (c_key c) t \<noteq> None" and "protected_resources p \<noteq> []"
  shows "find_protected_match p parameters \<noteq> None"
proof -
  have "first_some (match_text (protected_resources p) (c_key c)) (scannable_strings (c_value c)) \<noteq> None"
    using assms(2,3) by (auto simp: first_some_None_iff)
  then show ?thesis
    using assms(1,4) unfolding find_protected_match_def Let_def
    by (metis (mono_tags, lifting) first_some_None_iff)
qed

section \<open>Properties\<close>

text \<open>
  C32: a policy file that cannot be read, does not parse, or declares another schema version yields a
  policy that authorises nothing: every call of every capability by every peer at every time is
  refused as not authorised and changes nothing.
\<close>

theorem load_fails_closed:
  assumes "case contents of None \<Rightarrow> True
           | Some t \<Rightarrow> (case toml_from_str L t of None \<Rightarrow> True
                       | Some raw \<Rightarrow> rpf_version raw \<noteq> POLICY_SCHEMA_VERSION)"
  shows "check_and_acquire L ns now c s (load L contents) = (load L contents, NotAuthorized) \<and>
         \<not> allows ns (load L contents) c s \<and> capability_names (load L contents) = []"
proof -
  have "load L contents = deny_all"
    using assms by (auto simp: load_def try_load_def split: option.splits)
  then show ?thesis
    by (simp add: check_and_acquire_def allows_def capability_names_def deny_all_def)
qed

text \<open>Libraries for the witnesses: a parser that accepts one file, and a counter as semaphore.\<close>

definition counter_libs :: "raw_policy_file option \<Rightarrow> nat policy_libs" where
  "counter_libs raw =
     \<lparr>toml_from_str = (\<lambda>_. raw), hex_dec = hex_decode, hex_enc = hex_encode,
      to_lowercase = to_ascii_lowercase, sem_new = (\<lambda>n. n),
      sem_try_acquire = (\<lambda>s. if s = 0 then None else Some (s - 1)), sem_release = Suc\<rparr>"

lemma counter_libs_counting: "counting_semaphore (counter_libs raw) (\<lambda>s. s)"
  by (auto simp: counting_semaphore_def counter_libs_def split: if_splits)

definition old_file :: raw_policy_file where
  "old_file = \<lparr>rpf_version = 1, rpf_capability = [], rpf_protected_resource = None\<rparr>"

theorem load_fails_closed_witness:
  "check_and_acquire (counter_libs (Some old_file)) 0 0 (str ''echo'') (NodeId [1])
     (load (counter_libs (Some old_file)) (Some []))
   = (load (counter_libs (Some old_file)) (Some []), NotAuthorized)"
  using load_fails_closed [where contents = "Some []" and L = "counter_libs (Some old_file)" and ns = 0
      and now = 0 and c = "str ''echo''" and s = "NodeId [1]"]
  by (simp add: counter_libs_def old_file_def POLICY_SCHEMA_VERSION_def)

definition gate_start_from :: "'s policy_libs \<Rightarrow> rstring option \<Rightarrow> 's gate \<Rightarrow> bool" where
  "gate_start_from L contents g \<longleftrightarrow>
     (\<exists>now. g = \<lparr>g_policy = load L contents, g_in_flight = [], g_granted = [], g_clock = now\<rparr>)"

lemma gate_step_config: "gate_step L g g' \<Longrightarrow> policy_config (g_policy g') = policy_config (g_policy g)"
  by (cases rule: gate_step.cases [of L g g']) (auto simp: drop_config dest: check_config)

interpretation config: state_machine "gate_start_from L contents" "gate_step L"
    "\<lambda>g. policy_config (g_policy g) = policy_config (load L contents)" for L contents
  by unfold_locales (auto simp: gate_start_from_def dest: gate_step_config)

lemma load_peers_fold:
  "hm_get (fold (\<lambda>p m. case hex_dec L (peer_str p) of
        Some b \<Rightarrow> if length b = 32 then hm_insert (NodeId b) (peer_expires p) m else m
      | None \<Rightarrow> m) raw m) s = Some x \<Longrightarrow>
   hm_get m s = Some x \<or>
   (\<exists>q \<in> set raw. hex_dec L (peer_str q) = Some (node_id_bytes s) \<and> wf_node_id s \<and> peer_expires q = x)"
proof (induction raw arbitrary: m)
  case (Cons a raw)
  let ?m = "case hex_dec L (peer_str a) of
        Some b \<Rightarrow> if length b = 32 then hm_insert (NodeId b) (peer_expires a) m else m | None \<Rightarrow> m"
  have "hm_get ?m s = Some x \<or>
      (\<exists>q \<in> set raw. hex_dec L (peer_str q) = Some (node_id_bytes s) \<and> wf_node_id s \<and> peer_expires q = x)"
    using Cons.IH [of ?m] Cons.prems by simp
  then show ?case by (auto simp: wf_id_defs size_defs split: option.splits if_splits)
qed simp

text \<open>
  An allowed call was authorised by the policy file. However the policy has been used, frozen
  and unfrozen since it was loaded: if a call is allowed, the file was of the supported version, had
  a table for this capability with a valid tier, listed the caller's identity (in hexadecimal)
  without an expiry or with one still in the future, had a protected-resource section unless the
  capability is tier 0; and the caller is not suspended, nor the policy frozen for this tier.
\<close>

lemma allowed_was_configured:
  assumes "reaches (gate_start_from L contents) (gate_step L) g"
    and "check_and_acquire L ns now c s (g_policy g) = (p', Allowed)"
  shows "\<exists>t raw r tr q.
           contents = Some t \<and> toml_from_str L t = Some raw \<and>
           rpf_version raw = POLICY_SCHEMA_VERSION \<and> (c, r) \<in> set (rpf_capability raw) \<and>
           (case rce_tier r of None \<Rightarrow> None | Some n \<Rightarrow> tier_from_toml_str n) = Some tr \<and>
           q \<in> set (rce_allowed_peers r) \<and> hex_dec L (peer_str q) = Some (node_id_bytes s) \<and>
           (peer_expires q = None \<or> (\<exists>e. peer_expires q = Some e \<and> ns < e)) \<and>
           (tr = Tier0 \<or> rpf_protected_resource raw \<noteq> None \<and> \<not> is_frozen (g_policy g)) \<and>
           \<not> is_suspended (g_policy g) s"
proof -
  obtain e where e: "hm_get (cp_entries (g_policy g)) c = Some e" "s \<notin> set (cp_suspended (g_policy g))"
    "ce_tier e = Tier0 \<or> \<not> cp_frozen (g_policy g)" "peer_currently_allowed ns (ce_allowed_peers e) s"
    using check_Allowed [OF assms(2)] by blast
  have "policy_config (g_policy g) c = policy_config (load L contents) c"
    using config.inv_reaches [OF assms(1)] by simp
  then obtain e0 where e0: "hm_get (cp_entries (load L contents)) c = Some e0" "ce_config e0 = ce_config e"
    using e(1) by (cases "hm_get (cp_entries (load L contents)) c") (auto simp: policy_config_def)
  obtain t raw r where r: "contents = Some t" "toml_from_str L t = Some raw"
    "rpf_version raw = POLICY_SCHEMA_VERSION" "(c, r) \<in> set (rpf_capability raw)"
    "load_entry L (map_option load_protected (rpf_protected_resource raw)) r = Some e0"
    using load_entry_of [OF e0(1)] by metis
  note le = load_entry_SomeD [OF r(5)]
  obtain x where x: "hm_get (load_peers L (rce_allowed_peers r)) s = Some x"
    "x = None \<or> (\<exists>ex. x = Some ex \<and> ns < ex)"
    using e(4) e0(2) le by (auto simp: peer_currently_allowed_def ce_config_def split: option.splits)
  obtain q where q: "q \<in> set (rce_allowed_peers r)" "hex_dec L (peer_str q) = Some (node_id_bytes s)"
    "peer_expires q = x"
    using load_peers_fold [of L "rce_allowed_peers r" "[]" s x] x(1) by (auto simp: load_peers_def)
  have "ce_tier e0 = ce_tier e" using e0(2) by (simp add: ce_config_def)
  then show ?thesis
    using r q x(2) le e(2,3)
    by (intro exI [of _ t] exI [of _ raw] exI [of _ r] exI [of _ "ce_tier e"] exI [of _ q])
      (auto simp: is_frozen_def is_suspended_def)
qed

definition example_peer :: node_id where "example_peer = NodeId (replicate 32 0xAB)"

definition example_entry :: raw_capability_entry where
  "example_entry =
     \<lparr>rce_allowed_peers = [WithExpiry (hex_encode (replicate 32 0xAB)) (Some 2000)],
      rce_rate_limit_secs = 5, rce_concurrency = 1, rce_tier = Some (str ''tier1''),
      rce_denied_param_substrings = []\<rparr>"

definition example_file :: raw_policy_file where
  "example_file =
     \<lparr>rpf_version = 2, rpf_capability = [(str ''network_clients'', example_entry)],
      rpf_protected_resource = Some []\<rparr>"

definition example_libs :: "nat policy_libs" where
  "example_libs = counter_libs (Some example_file)"

definition example_gate :: "nat gate" where
  "example_gate =
     \<lparr>g_policy = load example_libs (Some []), g_in_flight = [], g_granted = [], g_clock = 0\<rparr>"

lemma example_load:
  "load example_libs (Some []) =
     \<lparr>cp_entries = [(str ''network_clients'',
         \<lparr>ce_allowed_peers = [(example_peer, Some 2000)], ce_rate_limit = 5000000000,
          ce_semaphore = 1, ce_concurrency = 1, ce_tier = Tier1, ce_denied = []\<rparr>)],
      cp_rate_limit_state = [], cp_protected_resources = Some [], cp_frozen = False, cp_suspended = []\<rparr>"
  by (simp add: load_def try_load_def example_libs_def counter_libs_def example_file_def
      POLICY_SCHEMA_VERSION_def load_entries_def load_entry_def example_entry_def
      tier_from_toml_str_def str_def load_peers_def load_protected_def hm_insert_def
      nanos_per_sec_def example_peer_def)

lemma example_allowed:
  "check_and_acquire example_libs 1000 7 (str ''network_clients'') example_peer (g_policy example_gate)
     = ((g_policy example_gate)
          \<lparr>cp_rate_limit_state := [((str ''network_clients'', example_peer), 7)],
           cp_entries := [(str ''network_clients'',
             \<lparr>ce_allowed_peers = [(example_peer, Some 2000)], ce_rate_limit = 5000000000,
              ce_semaphore = 0, ce_concurrency = 1, ce_tier = Tier1, ce_denied = []\<rparr>)]\<rparr>, Allowed)"
  unfolding example_gate_def example_load gate.simps
  by (simp add: check_and_acquire_def hm_get_def hm_insert_def
      peer_currently_allowed_def example_libs_def counter_libs_def)

lemma example_reaches: "reaches (gate_start_from example_libs (Some [])) (gate_step example_libs) example_gate"
  by (rule reaches_start) (simp add: gate_start_from_def example_gate_def)

text \<open>
  C27: the kill switch acts on the very next call. A suspended peer is refused for every capability
  of every tier and the call changes nothing; while the policy is frozen, so is every call of a
  tier-1 or tier-2 capability, and a tier-0 call is answered exactly as if it were not frozen;
  lifting the freeze or the suspension restores the policy as it was.
\<close>

theorem kill_switch_effective:
  assumes "hm_get (cp_entries p) c = Some e"
  shows "check_and_acquire L ns now c s (suspend_peer s p) = (suspend_peer s p, Suspended) \<and>
         (s \<notin> set (cp_suspended p) \<and> ce_tier e \<noteq> Tier0 \<longrightarrow>
            check_and_acquire L ns now c s (freeze p) = (freeze p, Frozen)) \<and>
         (ce_tier e = Tier0 \<longrightarrow>
            snd (check_and_acquire L ns now c s (freeze p)) = snd (check_and_acquire L ns now c s p)) \<and>
         (s \<notin> set (cp_suspended p) \<longrightarrow> unsuspend_peer s (suspend_peer s p) = (p, True)) \<and>
         (\<not> is_frozen p \<longrightarrow> unfreeze (freeze p) = p)"
proof -
  have "check_and_acquire L ns now c s (suspend_peer s p) = (suspend_peer s p, Suspended)"
    using assms by (simp add: check_and_acquire_def suspend_peer_def)
  moreover have "s \<notin> set (cp_suspended p) \<longrightarrow> unsuspend_peer s (suspend_peer s p) = (p, True)"
    by (cases p) (simp add: unsuspend_peer_def suspend_peer_def)
  moreover have "\<not> is_frozen p \<longrightarrow> unfreeze (freeze p) = p"
    by (cases p) (simp add: unfreeze_def freeze_def is_frozen_def)
  ultimately show ?thesis
    using assms by (auto simp: check_and_acquire_def freeze_def Let_def split: option.split)
qed

theorem kill_switch_effective_witness:
  "snd (check_and_acquire example_libs 1000 7 (str ''network_clients'') example_peer
      (freeze (g_policy example_gate))) = Frozen"
  using kill_switch_effective [of "g_policy example_gate" "str ''network_clients''"
      "\<lparr>ce_allowed_peers = [(example_peer, Some 2000)], ce_rate_limit = 5000000000,
        ce_semaphore = 1, ce_concurrency = 1, ce_tier = Tier1, ce_denied = []\<rparr>"
      example_libs 1000 7 example_peer]
  unfolding example_gate_def example_load gate.simps by (simp add: hm_get_def)

text \<open>
  C25: in every history of calls, dropped permits and kill-switch actions, the calls of a capability
  in flight never exceed its configured concurrency: the permits left and the calls in flight always
  add up to it.
\<close>

theorem concurrency_bounded:
  assumes "counting_semaphore L avail" and "reaches (gate_start L) (gate_step L) g"
    and "hm_get (cp_entries (g_policy g)) c = Some e"
  shows "count_list (g_in_flight g) c + avail (ce_semaphore e) = ce_concurrency e \<and>
         count_list (g_in_flight g) c \<le> ce_concurrency e"
proof -
  have "permits_inv avail g"
    using gate.inv_reaches [OF assms(2), of avail] assms(1) by (simp add: gate_inv_def)
  then have "avail (ce_semaphore e) + count_list (g_in_flight g) c = ce_concurrency e"
    using assms(3) by (simp add: permits_inv_def)
  then show ?thesis by linarith
qed

definition busy_gate :: "nat gate" where
  "busy_gate =
     example_gate\<lparr>g_policy := fst (check_and_acquire example_libs 1000 7 (str ''network_clients'')
                                    example_peer (g_policy example_gate)),
                  g_in_flight := [str ''network_clients''],
                  g_granted := [(str ''network_clients'', example_peer, 7)], g_clock := 7\<rparr>"

lemma busy_reaches: "reaches (gate_start example_libs) (gate_step example_libs) busy_gate"
proof -
  have start: "reaches (gate_start example_libs) (gate_step example_libs) example_gate"
    by (rule reaches_start) (auto simp: gate_start_def example_gate_def)
  have "gate_step example_libs example_gate busy_gate"
    using gate_allowed [where L = example_libs and g = example_gate and now = 7 and ns = 1000
        and c = "str ''network_clients''" and s = example_peer, OF _ example_allowed]
    unfolding busy_gate_def example_allowed fst_conv by (simp add: example_gate_def)
  with start show ?thesis by (rule reaches_step)
qed

lemma busy_entry:
  "hm_get (cp_entries (g_policy busy_gate)) (str ''network_clients'') = Some
     \<lparr>ce_allowed_peers = [(example_peer, Some 2000)], ce_rate_limit = 5000000000,
      ce_semaphore = 0, ce_concurrency = 1, ce_tier = Tier1, ce_denied = []\<rparr>"
  unfolding busy_gate_def example_allowed by (simp add: hm_get_def)

theorem concurrency_bounded_witness:
  "count_list (g_in_flight busy_gate) (str ''network_clients'') + 0 = 1"
  using concurrency_bounded [OF _ busy_reaches busy_entry, of "\<lambda>s. s"] counter_libs_counting
  by (simp add: example_libs_def)

text \<open>
  C26: in every history, any two allowed calls of one capability by one peer are at least the
  configured rate limit apart on the monotonic clock.
\<close>

theorem rate_limit_spacing:
  assumes "reaches (gate_start L) (gate_step L) g"
    and "g_granted g = later @ (c, s, t2) # earlier" and "(c, s, t1) \<in> set earlier"
  shows "t1 + rate_limit_of (g_policy g) c \<le> t2"
proof -
  have drop_prefix: "spaced limit (xs @ ys) \<Longrightarrow> spaced limit ys" for limit xs ys
    by (induction xs) auto
  have "spaced (rate_limit_of (g_policy g)) (g_granted g)"
    using gate.inv_reaches [OF assms(1), of "\<lambda>_. 0"] by (simp add: gate_inv_def rate_inv_def)
  then have "spaced (rate_limit_of (g_policy g)) ((c, s, t2) # earlier)"
    using drop_prefix assms(2) by metis
  then show ?thesis using assms(3) by simp
qed

definition twice_gate :: "nat gate" where
  "twice_gate =
     (let g = busy_gate\<lparr>g_policy := drop_permit example_libs (str ''network_clients'') (g_policy busy_gate),
                        g_in_flight := []\<rparr>
      in g\<lparr>g_policy := fst (check_and_acquire example_libs 1001 6000000000 (str ''network_clients'')
                              example_peer (g_policy g)),
           g_in_flight := [str ''network_clients''],
           g_granted := [(str ''network_clients'', example_peer, 6000000000),
                         (str ''network_clients'', example_peer, 7)],
           g_clock := 6000000000\<rparr>)"

lemma twice_reaches: "reaches (gate_start example_libs) (gate_step example_libs) twice_gate"
proof -
  let ?c = "str ''network_clients''"
  let ?g = "busy_gate\<lparr>g_policy := drop_permit example_libs ?c (g_policy busy_gate), g_in_flight := []\<rparr>"
  have "gate_step example_libs busy_gate ?g"
    using gate_drop [of ?c busy_gate example_libs] by (simp add: busy_gate_def)
  with busy_reaches have 1: "reaches (gate_start example_libs) (gate_step example_libs) ?g"
    by (rule reaches_step)
  have "snd (check_and_acquire example_libs 1001 6000000000 ?c example_peer (g_policy ?g)) = Allowed"
    unfolding busy_gate_def example_allowed
    by (simp add: drop_permit_def hm_get_def hm_insert_def check_and_acquire_def example_libs_def
        counter_libs_def peer_currently_allowed_def example_gate_def example_load [unfolded example_libs_def counter_libs_def])
  then have "check_and_acquire example_libs 1001 6000000000 ?c example_peer (g_policy ?g)
      = (fst (check_and_acquire example_libs 1001 6000000000 ?c example_peer (g_policy ?g)), Allowed)"
    by (metis prod.collapse)
  from gate_allowed [OF _ this] have "gate_step example_libs ?g twice_gate"
    by (simp add: twice_gate_def Let_def busy_gate_def)
  with 1 show ?thesis by (rule reaches_step)
qed

theorem rate_limit_spacing_witness:
  "7 + rate_limit_of (g_policy twice_gate) (str ''network_clients'') \<le> 6000000000"
  using rate_limit_spacing [OF twice_reaches, of "[]" "str ''network_clients''" example_peer 6000000000
      "[(str ''network_clients'', example_peer, 7)]" 7]
  by (simp add: twice_gate_def Let_def)

text \<open>
  A call refused for lack of a permit still uses up the caller's rate-limit slot: until the rate
  limit has passed again, the caller is refused as rate limited even when permits are free.
\<close>

lemma concurrency_refusal_uses_rate_slot:
  assumes "check_and_acquire L ns now c s p = (p', AtConcurrencyLimit)"
    and "hm_get (cp_entries p) c = Some e" and "now \<le> now'" and "now' < now + ce_rate_limit e"
    and "peer_currently_allowed ns' (ce_allowed_peers e) s"
  shows "snd (check_and_acquire L ns' now' c s (drop_permit L c p')) = RateLimited"
proof -
  have p': "p' = p\<lparr>cp_rate_limit_state := hm_insert (c, s) now (cp_rate_limit_state p)\<rparr>"
    "s \<notin> set (cp_suspended p)" "ce_tier e = Tier0 \<or> \<not> cp_frozen p"
    using assms(1,2) by (auto simp: check_and_acquire_def Let_def split: option.splits if_splits)
  have "now' - now < ce_rate_limit e" using assms(3,4) by linarith
  then show ?thesis
    using assms(2,5) p' by (auto simp: check_and_acquire_def drop_permit_def)
qed

text \<open>
  What the search for protected resources reports is there: a match names a parameter of the
  intent, one of whose text values contains the MAC address of the protected resource it names (in
  the text itself or after white space is removed), or an IPv4 address equal to the resource's.
\<close>

lemma protected_match_sound:
  assumes "find_protected_match p parameters = Some m"
  shows "\<exists>c \<in> set parameters. \<exists>t \<in> set (scannable_strings (c_value c)).
         \<exists>pr \<in> set (protected_resources p).
           pm_parameter_key m = c_key c \<and> pm_resource_mac m = pr_mac_display pr \<and>
           ((\<exists>i. mac_at (as_bytes t) i (pr_mac pr)) \<or>
            (\<exists>i. mac_at (as_bytes (filter (\<lambda>x. \<not> is_whitespace x) t)) i (pr_mac pr)) \<or>
            (\<exists>ip \<in> set (scan_ipv4_candidates t). pr_ip pr = Some ip))"
proof -
  let ?pr = "protected_resources p"
  obtain c where c: "c \<in> set parameters"
    "first_some (match_text ?pr (c_key c)) (scannable_strings (c_value c)) = Some m"
    using assms first_some_SomeD [of _ parameters m]
    by (auto simp: find_protected_match_def Let_def split: if_splits)
  obtain t where t: "t \<in> set (scannable_strings (c_value c))" "match_text ?pr (c_key c) t = Some m"
    using first_some_SomeD [OF c(2)] by blast
  have "(\<exists>mac \<in> set (scan_mac_obfuscated t). match_mac ?pr (c_key c) mac = Some m) \<or>
      (\<exists>ip \<in> set (scan_ipv4_candidates t). match_ip ?pr (c_key c) ip = Some m)"
    using t(2) by (auto simp: match_text_def dest!: first_some_SomeD split: option.splits)
  then show ?thesis
  proof
    assume "\<exists>mac \<in> set (scan_mac_obfuscated t). match_mac ?pr (c_key c) mac = Some m"
    then obtain mac where mac: "mac \<in> set (scan_mac_obfuscated t)" "match_mac ?pr (c_key c) mac = Some m"
      by blast
    have "(\<exists>i. mac_at (as_bytes t) i mac) \<or>
        (\<exists>i. mac_at (as_bytes (filter (\<lambda>x. \<not> is_whitespace x) t)) i mac)"
      using mac(1) scan_mac_sound
      by (auto simp: scan_mac_obfuscated_def scan_mac_candidates_def Let_def split: if_splits)
    then show ?thesis using c(1) t(1) match_mac_SomeD [OF mac(2)] by blast
  next
    assume "\<exists>ip \<in> set (scan_ipv4_candidates t). match_ip ?pr (c_key c) ip = Some m"
    then show ?thesis using c(1) t(1) match_ip_SomeD by blast
  qed
qed

definition guarded_policy :: "nat capability_policy" where
  "guarded_policy =
     deny_all\<lparr>cp_protected_resources :=
       Some [\<lparr>pr_name = None, pr_mac = [0xAA, 0xBB, 0xCC, 0x11, 0x22, 0x01],
              pr_mac_display = str ''aa:bb:cc:11:22:01'', pr_ip = Some (str ''10.0.0.1'')\<rparr>]\<rparr>"

lemma guarded_resources:
  "protected_resources guarded_policy =
     [\<lparr>pr_name = None, pr_mac = [0xAA, 0xBB, 0xCC, 0x11, 0x22, 0x01],
       pr_mac_display = str ''aa:bb:cc:11:22:01'', pr_ip = Some (str ''10.0.0.1'')\<rparr>]"
  by (simp add: protected_resources_def guarded_policy_def)

lemmas scan_defs = scan_mac_obfuscated_def scan_mac_candidates_def scan_mac_bytes.simps
  scan_ipv4_candidates_def scan_ipv4_bytes.simps parse_mac_window_def window_octet_def hex_val_def
  is_ascii_digit_def is_ipv4_shaped_def parse_uint_def strip_plus_def dec_digit_val_def
  as_bytes_def str_def utf8_char_def is_whitespace_def

lemma mac_at_example: "mac_at (as_bytes (str ''aa-BB-cc-11-22-01'')) 0 [0xAA, 0xBB, 0xCC, 0x11, 0x22, 0x01]"
  by (simp add: mac_at_def scan_defs)

text \<open>
  C33: the search finds the first MAC address in a value. A parameter whose text, as it is or with
  its white space removed, contains the MAC address of a protected resource with either separator
  and in either case is reported, provided no other MAC-shaped window starts before it in the text.
\<close>

theorem protected_match_complete:
  assumes "c \<in> set parameters" and "t \<in> set (scannable_strings (c_value c))"
    and "pr \<in> set (protected_resources p)"
    and "t' = t \<or> t' = filter (\<lambda>x. \<not> is_whitespace x) t"
    and "mac_at (as_bytes t') i (pr_mac pr)" and "\<And>j m. j < i \<Longrightarrow> \<not> mac_at (as_bytes t') j m"
  shows "find_protected_match p parameters \<noteq> None"
proof -
  have "pr_mac pr \<in> set (scan_mac_candidates t')"
    unfolding scan_mac_candidates_def by (rule scan_mac_first [OF assms(5,6)])
  then have "pr_mac pr \<in> set (scan_mac_obfuscated t)"
    using assms(4) scan_obfuscated_superset [of t] scan_obfuscated_stripped [of t] by auto
  then have "match_text (protected_resources p) (c_key c) t \<noteq> None"
    using assms(3) by (intro match_text_found) auto
  then show ?thesis
    using assms(1-3) by (intro find_protected_found) auto
qed

theorem protected_match_complete_witness:
  "find_protected_match guarded_policy [constraint_string (str ''target'') (str ''aa-BB-cc-11-22-01'')]
     \<noteq> None"
  using protected_match_complete [where c = "constraint_string (str ''target'') (str ''aa-BB-cc-11-22-01'')"
      and parameters = "[constraint_string (str ''target'') (str ''aa-BB-cc-11-22-01'')]"
      and t = "str ''aa-BB-cc-11-22-01''" and t' = "str ''aa-BB-cc-11-22-01''" and i = 0
      and p = guarded_policy and pr = "hd (protected_resources guarded_policy)"]
    mac_at_example
  by (simp add: constraint_string_def guarded_resources)

lemma ip_match_example:
  "find_protected_match guarded_policy
      [constraint_string (str ''target'') (str ''ping 10.0.0.1 now'')] =
      Some \<lparr>pm_resource_name = None, pm_resource_mac = str ''aa:bb:cc:11:22:01'',
            pm_resource_ip = Some (str ''10.0.0.1''), pm_matched_value = str ''10.0.0.1'',
            pm_parameter_key = str ''target''\<rparr>"
proof -
  have macs: "scan_mac_obfuscated (str ''ping 10.0.0.1 now'') = []"
    by (simp add: scan_defs)
  have ips: "scan_ipv4_candidates (str ''ping 10.0.0.1 now'') = [str ''10.0.0.1'']"
    by (simp add: scan_defs)
  show ?thesis
    by (simp add: find_protected_match_def guarded_resources constraint_string_def match_text_def macs
        ips match_ip_def)
qed

text \<open>
  An address that overlaps the end of another MAC-shaped window is missed: the value
  \<open>00:aa:bb:cc:11:22:01\<close> contains the protected address \<open>aa:bb:cc:11:22:01\<close> and is not
  reported.
\<close>

lemma overlapping_mac_missed:
  "mac_at (as_bytes (str ''00:aa:bb:cc:11:22:01'')) 3 [0xAA, 0xBB, 0xCC, 0x11, 0x22, 0x01] \<and>
   find_protected_match guarded_policy
     [constraint_string (str ''target'') (str ''00:aa:bb:cc:11:22:01'')] = None"
proof
  show "mac_at (as_bytes (str ''00:aa:bb:cc:11:22:01'')) 3 [0xAA, 0xBB, 0xCC, 0x11, 0x22, 0x01]"
    by (simp add: mac_at_def scan_defs)
  have "scan_mac_obfuscated (str ''00:aa:bb:cc:11:22:01'') = [[0x00, 0xAA, 0xBB, 0xCC, 0x11, 0x22]]"
    and "scan_ipv4_candidates (str ''00:aa:bb:cc:11:22:01'') = []"
    by (simp_all add: scan_defs)
  then show "find_protected_match guarded_policy
      [constraint_string (str ''target'') (str ''00:aa:bb:cc:11:22:01'')] = None"
    by (simp add: find_protected_match_def guarded_resources constraint_string_def match_text_def
        match_mac_def)
qed

end
