(* ===== verification/Approval.thy ===== *)
theory Approval
  imports Policy
begin

text \<open>
  The propose, approve, execute flow for tier-2 intents, \<open>axiom-gateway/src/approval.rs\<close>. One call
  of \<open>decide_and_execute\<close> is three parts: \<open>decide_claim\<close> under the lock of the records, the
  approval channel with no lock held, and \<open>decide_finish\<close> under the lock again. Callers run
  concurrently, so the state machine at the end interleaves these parts of any number of callers
  with each other and with proposals.

  Parameters: BLAKE3, the libraries of the policy, the capability (a trait object: its name, dry run
  and execution), the approval channel's answer, the random identifier of a new intent, the
  monotonic clock (nanoseconds), and the formatting of floats and of strings for debugging.
\<close>

section \<open>Intents\<close>

definition DEFAULT_EXPIRY :: nat where "DEFAULT_EXPIRY = 15 * 60 * nanos_per_sec"

datatype intent_id = IntentId (intent_id_bytes: "u8 list")

record dry_run_diff_entry =
  dd_key :: rstring
  dd_current :: rstring
  dd_proposed :: rstring

record intent =
  in_id :: intent_id
  in_proposer :: node_id
  in_capability :: rstring
  in_parameters :: "constraint list"
  in_dry_run_diff :: "dry_run_diff_entry list option"
  in_parameter_hash :: intent_hash
  in_submitted_at :: nat
  in_expires_at :: nat

definition compute_parameter_hash ::
    "(u8 list \<Rightarrow> u8 list) \<Rightarrow> rstring \<Rightarrow> constraint list \<Rightarrow> intent_hash" where
  "compute_parameter_hash blake3 capability parameters =
     (let descriptor = (intent_new capability)\<lparr>id_constraints := parameters\<rparr>
      in hash_intent blake3 descriptor)"

definition intent_propose ::
    "(u8 list \<Rightarrow> u8 list) \<Rightarrow> intent_id \<Rightarrow> nat \<Rightarrow> node_id \<Rightarrow> rstring \<Rightarrow> constraint list
       \<Rightarrow> dry_run_diff_entry list option \<Rightarrow> nat \<Rightarrow> intent" where
  "intent_propose blake3 new_id now proposer capability parameters diff expiry =
     \<lparr>in_id = new_id, in_proposer = proposer, in_capability = capability,
      in_parameters = parameters, in_dry_run_diff = diff,
      in_parameter_hash = compute_parameter_hash blake3 capability parameters,
      in_submitted_at = now, in_expires_at = now + expiry\<rparr>"

definition is_expired :: "nat \<Rightarrow> intent \<Rightarrow> bool" where
  "is_expired now i \<longleftrightarrow> now \<ge> in_expires_at i"

definition remaining :: "nat \<Rightarrow> intent \<Rightarrow> nat" where
  "remaining now i = in_expires_at i - now"

definition verify_parameter_hash :: "(u8 list \<Rightarrow> u8 list) \<Rightarrow> intent \<Rightarrow> bool" where
  "verify_parameter_hash blake3 i \<longleftrightarrow>
     compute_parameter_hash blake3 (in_capability i) (in_parameters i) = in_parameter_hash i"

record approval_request =
  ar_intent_id :: intent_id
  ar_proposer :: node_id
  ar_capability :: rstring
  ar_parameters :: "constraint list"
  ar_dry_run_diff :: "dry_run_diff_entry list option"
  ar_parameter_hash :: intent_hash
  ar_remaining :: nat

definition as_approval_request :: "nat \<Rightarrow> intent \<Rightarrow> approval_request" where
  "as_approval_request now i =
     \<lparr>ar_intent_id = in_id i, ar_proposer = in_proposer i, ar_capability = in_capability i,
      ar_parameters = in_parameters i, ar_dry_run_diff = in_dry_run_diff i,
      ar_parameter_hash = in_parameter_hash i, ar_remaining = remaining now i\<rparr>"

section \<open>The command-line channel\<close>

record approval_decision =
  ad_intent_id :: intent_id
  ad_approved :: bool
  ad_channel_name :: rstring

datatype approval_channel_error = IoError rstring

record fmt_ops =
  fmt_debug_str :: "rstring \<Rightarrow> rstring"
  fmt_debug_strs :: "rstring list \<Rightarrow> rstring"
  fmt_f64 :: "u64 \<Rightarrow> rstring"

function dec_string :: "nat \<Rightarrow> rstring" where
  "dec_string n = (if n < 10 then [48 + n] else dec_string (n div 10) @ [48 + n mod 10])"
  by pat_completeness auto
termination by (relation "measure id") auto

declare dec_string.simps [simp del]

text \<open>\<open>i64::to_string\<close> of the two's complement.\<close>

definition int_string :: "u64 \<Rightarrow> rstring" where
  "int_string i =
     (if sint i < 0 then str ''-'' @ dec_string (nat (- sint i)) else dec_string (nat (sint i)))"

fun format_constraint_value :: "fmt_ops \<Rightarrow> constraint_value \<Rightarrow> rstring" where
  "format_constraint_value F (CvString s) = fmt_debug_str F s"
| "format_constraint_value F (CvInt i) = int_string i"
| "format_constraint_value F (CvFloat f) = fmt_f64 F f"
| "format_constraint_value F (CvBool b) = (if b then str ''true'' else str ''false'')"
| "format_constraint_value F (CvRange lo hi) =
     str ''['' @ fmt_f64 F lo @ str '', '' @ fmt_f64 F hi @ str '']''"
| "format_constraint_value F (CvOneOf vs) = str ''one of '' @ fmt_debug_strs F vs"

definition format_duration :: "nat \<Rightarrow> rstring" where
  "format_duration d =
     (let secs = d div nanos_per_sec in
      if secs \<ge> 60 then dec_string (secs div 60) @ str ''m'' @ dec_string (secs mod 60) @ str ''s''
      else dec_string secs @ str ''s'')"

definition newline :: rstring where "newline = [10]"

definition render_parameters :: "fmt_ops \<Rightarrow> constraint list \<Rightarrow> rstring" where
  "render_parameters F ps =
     (if ps = [] then str ''Parameters:  (none)'' @ newline
      else str ''Parameters:'' @ newline
        @ concat (map (\<lambda>c. str ''  - '' @ c_key c @ str '' = ''
                          @ format_constraint_value F (c_value c) @ newline) ps))"

definition render_diff :: "dry_run_diff_entry list option \<Rightarrow> rstring" where
  "render_diff diff =
     (case diff of
        Some es \<Rightarrow>
          if es \<noteq> []
          then str ''Dry-run diff:'' @ newline
               @ concat (map (\<lambda>e. str ''  - '' @ dd_key e @ str '': '' @ dd_current e @ str '' -> ''
                                 @ dd_proposed e @ newline) es)
          else str ''Dry-run diff: (no changes)'' @ newline
      | None \<Rightarrow> str ''Dry-run diff: (not available for this capability)'' @ newline)"

definition render_prompt :: "fmt_ops \<Rightarrow> (u8 list \<Rightarrow> rstring) \<Rightarrow> approval_request \<Rightarrow> rstring" where
  "render_prompt F hex req =
     str ''=== AXIOM Tier 2 approval required ==='' @ newline
     @ str ''Intent ID:   '' @ hex (intent_id_bytes (ar_intent_id req)) @ newline
     @ str ''Capability:  '' @ ar_capability req @ newline
     @ str ''Proposer:    '' @ hex (node_id_bytes (ar_proposer req)) @ newline
     @ str ''Param hash:  '' @ hex (intent_hash_bytes (ar_parameter_hash req)) @ newline
     @ render_parameters F (ar_parameters req)
     @ render_diff (ar_dry_run_diff req)
     @ str ''Expires in:  '' @ format_duration (ar_remaining req) @ newline
     @ str ''This action is destructive/security-relevant (Tier 2) and requires your explicit, one-time approval.'' @ newline
     @ str ''No standing approvals, no wildcards - this decision applies to this exact intent only.'' @ newline
     @ str ''Approve? [y/N]: ''"

text \<open>
  The channel: \<open>write\<close> gives the outcome of writing and flushing a text to the terminal, \<open>read\<close> that of
  reading one line (empty at end of input).
\<close>

definition cli_request_approval ::
    "fmt_ops \<Rightarrow> (u8 list \<Rightarrow> rstring) \<Rightarrow> (rstring \<Rightarrow> (unit, rstring) result) \<Rightarrow> (rstring, rstring) result
       \<Rightarrow> approval_request \<Rightarrow> (approval_decision, approval_channel_error) result" where
  "cli_request_approval F hex write read req =
     (case write (render_prompt F hex req) of
        Err m \<Rightarrow> Err (IoError m)
      | Panic \<Rightarrow> Panic
      | Ok _ \<Rightarrow>
          (case read of
             Err m \<Rightarrow> Err (IoError m)
           | Panic \<Rightarrow> Panic
           | Ok line \<Rightarrow>
               (let answer = to_ascii_lowercase (trim line);
                    approved = (answer = str ''y'' \<or> answer = str ''yes'')
                in Ok \<lparr>ad_intent_id = ar_intent_id req, ad_approved = approved,
                       ad_channel_name = str ''cli-prompt''\<rparr>)))"

section \<open>The flow\<close>

text \<open>
  A capability, the trait \<open>Tier2Capability\<close>: \<open>execute\<close> returns an error (\<open>Inl\<close>) or a message (\<open>Inr\<close>).
\<close>

record tier2_capability =
  t2_name :: rstring
  t2_dry_run :: "constraint list \<Rightarrow> dry_run_diff_entry list option"
  t2_execute :: "constraint list \<Rightarrow> rstring + rstring"

record execution_result =
  ex_intent_id :: intent_id
  ex_outcome :: "rstring + rstring"
  ex_executed_at :: nat

datatype intent_status =
  IsPending | IsInProgress | IsDenied | IsExpired | IsParameterHashMismatch | IsExecuted
| IsExecutionFailed

record linked_record =
  lr_intent :: intent
  lr_decision :: "approval_decision option"
  lr_execution :: "execution_result option"
  lr_status :: intent_status

datatype flow_error =
  UnknownIntent | FeExpired | FeParameterHashMismatch | FeChannel approval_channel_error
| MismatchedDecision

datatype propose_error =
  ProtectedResourceSectionMissing
| TargetsProtectedResource protected_match
| ArgumentConstraintViolation rstring

record approval_flow =
  fl_default_expiry :: nat
  fl_records :: "(intent_id, linked_record) hmap"

definition flow_with_expiry :: "nat \<Rightarrow> approval_flow" where
  "flow_with_expiry expiry = \<lparr>fl_default_expiry = expiry, fl_records = []\<rparr>"

definition flow_new :: approval_flow where
  "flow_new = flow_with_expiry DEFAULT_EXPIRY"

definition propose_with_expiry ::
    "'s policy_libs \<Rightarrow> (u8 list \<Rightarrow> u8 list) \<Rightarrow> 's capability_policy \<Rightarrow> intent_id \<Rightarrow> nat \<Rightarrow> node_id
       \<Rightarrow> tier2_capability \<Rightarrow> constraint list \<Rightarrow> nat \<Rightarrow> approval_flow
       \<Rightarrow> approval_flow \<times> (intent_id, propose_error) result" where
  "propose_with_expiry L blake3 p new_id now proposer cap parameters expiry fl =
     (if \<not> protected_resources_configured p then (fl, Err ProtectedResourceSectionMissing)
      else case find_protected_match p parameters of
        Some m \<Rightarrow> (fl, Err (TargetsProtectedResource m))
      | None \<Rightarrow>
          (case check_denied_param_substrings L p (t2_name cap) parameters of
             Some reason \<Rightarrow> (fl, Err (ArgumentConstraintViolation reason))
           | None \<Rightarrow>
               (let diff = t2_dry_run cap parameters;
                    i = intent_propose blake3 new_id now proposer (t2_name cap) parameters diff expiry;
                    record = \<lparr>lr_intent = i, lr_decision = None, lr_execution = None,
                              lr_status = IsPending\<rparr>
                in (fl\<lparr>fl_records := hm_insert (in_id i) record (fl_records fl)\<rparr>, Ok (in_id i)))))"

definition propose ::
    "'s policy_libs \<Rightarrow> (u8 list \<Rightarrow> u8 list) \<Rightarrow> 's capability_policy \<Rightarrow> intent_id \<Rightarrow> nat \<Rightarrow> node_id
       \<Rightarrow> tier2_capability \<Rightarrow> constraint list \<Rightarrow> approval_flow
       \<Rightarrow> approval_flow \<times> (intent_id, propose_error) result" where
  "propose L blake3 p new_id now proposer cap parameters fl =
     propose_with_expiry L blake3 p new_id now proposer cap parameters (fl_default_expiry fl) fl"

definition put_record :: "intent_id \<Rightarrow> linked_record \<Rightarrow> approval_flow \<Rightarrow> approval_flow" where
  "put_record iid r fl = fl\<lparr>fl_records := hm_insert iid r (fl_records fl)\<rparr>"

text \<open>
  The first locked section: either the call returns, or it has claimed the intent and holds the
  request for the channel.
\<close>

datatype claim_outcome = Claimed approval_request | Returned "(intent_status, flow_error) result"

definition decide_claim ::
    "(u8 list \<Rightarrow> u8 list) \<Rightarrow> nat \<Rightarrow> intent_id \<Rightarrow> approval_flow \<Rightarrow> approval_flow \<times> claim_outcome" where
  "decide_claim blake3 now iid fl =
     (case hm_get (fl_records fl) iid of
        None \<Rightarrow> (fl, Returned (Err UnknownIntent))
      | Some r \<Rightarrow>
          if lr_status r \<noteq> IsPending then (fl, Returned (Ok (lr_status r)))
          else if is_expired now (lr_intent r)
          then (put_record iid (r\<lparr>lr_status := IsExpired\<rparr>) fl, Returned (Err FeExpired))
          else if \<not> verify_parameter_hash blake3 (lr_intent r)
          then (put_record iid (r\<lparr>lr_status := IsParameterHashMismatch\<rparr>) fl,
                Returned (Err FeParameterHashMismatch))
          else (put_record iid (r\<lparr>lr_status := IsInProgress\<rparr>) fl,
                Claimed (as_approval_request now (lr_intent r))))"

text \<open>
  The second locked section, for a decision about this intent. The third component is the
  parameters \<open>execute\<close> was called with, if it was.
\<close>

definition decide_finish ::
    "(u8 list \<Rightarrow> u8 list) \<Rightarrow> nat \<Rightarrow> nat \<Rightarrow> intent_id \<Rightarrow> tier2_capability \<Rightarrow> approval_decision
       \<Rightarrow> approval_flow \<Rightarrow> approval_flow \<times> (intent_status, flow_error) result \<times> constraint list option" where
  "decide_finish blake3 now exec_now iid cap decision fl =
     (case hm_get (fl_records fl) iid of
        None \<Rightarrow> (fl, Err UnknownIntent, None)
      | Some r0 \<Rightarrow>
          (let r = r0\<lparr>lr_decision := Some decision\<rparr> in
           if \<not> ad_approved decision
           then (put_record iid (r\<lparr>lr_status := IsDenied\<rparr>) fl, Ok IsDenied, None)
           else if is_expired now (lr_intent r)
           then (put_record iid (r\<lparr>lr_status := IsExpired\<rparr>) fl, Err FeExpired, None)
           else if \<not> verify_parameter_hash blake3 (lr_intent r)
           then (put_record iid (r\<lparr>lr_status := IsParameterHashMismatch\<rparr>) fl,
                 Err FeParameterHashMismatch, None)
           else
             (let params = in_parameters (lr_intent r);
                  outcome = t2_execute cap params;
                  status = (case outcome of Inr _ \<Rightarrow> IsExecuted | Inl _ \<Rightarrow> IsExecutionFailed)
              in (put_record iid
                    (r\<lparr>lr_execution := Some \<lparr>ex_intent_id = iid, ex_outcome = outcome,
                                            ex_executed_at = exec_now\<rparr>,
                       lr_status := status\<rparr>) fl,
                  Ok status, Some params))))"

text \<open>One call with nobody else on the flow: the channel answers the request it is shown.\<close>

definition decide_and_execute ::
    "(u8 list \<Rightarrow> u8 list) \<Rightarrow> (approval_request \<Rightarrow> (approval_decision, approval_channel_error) result)
       \<Rightarrow> nat \<Rightarrow> nat \<Rightarrow> nat \<Rightarrow> intent_id \<Rightarrow> tier2_capability \<Rightarrow> approval_flow
       \<Rightarrow> approval_flow \<times> (intent_status, flow_error) result \<times> constraint list option" where
  "decide_and_execute blake3 channel t1 t2 t3 iid cap fl =
     (case decide_claim blake3 t1 iid fl of
        (fl, Returned out) \<Rightarrow> (fl, out, None)
      | (fl, Claimed req) \<Rightarrow>
          (case channel req of
             Err e \<Rightarrow> (fl, Err (FeChannel e), None)
           | Panic \<Rightarrow> (fl, Panic, None)
           | Ok decision \<Rightarrow>
               if ad_intent_id decision \<noteq> iid then (fl, Err MismatchedDecision, None)
               else decide_finish blake3 t2 t3 iid cap decision fl))"

definition flow_record :: "approval_flow \<Rightarrow> intent_id \<Rightarrow> linked_record option" where
  "flow_record fl iid = hm_get (fl_records fl) iid"

section \<open>Interleaved callers\<close>

text \<open>
  The shared flow together with a history: which callers hold a claim and wait for the channel, the
  requests the channel was shown, the decisions it gave, and every call of \<open>execute\<close> with its
  parameters and the time its expiry was last checked. Proposals draw a fresh identifier (128
  random bits).
\<close>

record approval_world =
  aw_flow :: approval_flow
  aw_waiting :: "intent_id list"
  aw_shown :: "approval_request list"
  aw_decisions :: "approval_decision list"
  aw_executed :: "(intent_id \<times> constraint list \<times> nat) list"

definition world_start :: "approval_world \<Rightarrow> bool" where
  "world_start w \<longleftrightarrow> (\<exists>expiry. w = \<lparr>aw_flow = flow_with_expiry expiry, aw_waiting = [], aw_shown = [],
     aw_decisions = [], aw_executed = []\<rparr>)"

definition executed_entry ::
    "intent_id \<Rightarrow> nat \<Rightarrow> constraint list option \<Rightarrow> (intent_id \<times> constraint list \<times> nat) list" where
  "executed_entry iid now ex = (case ex of None \<Rightarrow> [] | Some ps \<Rightarrow> [(iid, ps, now)])"

inductive world_step ::
    "'s policy_libs \<Rightarrow> (u8 list \<Rightarrow> u8 list) \<Rightarrow> 's capability_policy \<Rightarrow> approval_world \<Rightarrow> approval_world \<Rightarrow> bool"
  for L :: "'s policy_libs" and blake3 :: "u8 list \<Rightarrow> u8 list" and p :: "'s capability_policy" where
  world_propose:
    "new_id \<notin> hm_keys (fl_records (aw_flow w)) \<Longrightarrow>
     propose_with_expiry L blake3 p new_id now proposer cap params expiry (aw_flow w) = (fl', out) \<Longrightarrow>
     world_step L blake3 p w (w\<lparr>aw_flow := fl'\<rparr>)"
| world_claim:
    "decide_claim blake3 now iid (aw_flow w) = (fl', Claimed req) \<Longrightarrow>
     world_step L blake3 p w
       (w\<lparr>aw_flow := fl', aw_waiting := iid # aw_waiting w, aw_shown := req # aw_shown w\<rparr>)"
| world_return:
    "decide_claim blake3 now iid (aw_flow w) = (fl', Returned out) \<Longrightarrow>
     world_step L blake3 p w (w\<lparr>aw_flow := fl'\<rparr>)"
| world_channel_error:
    "iid \<in> set (aw_waiting w) \<Longrightarrow>
     world_step L blake3 p w (w\<lparr>aw_waiting := remove1 iid (aw_waiting w)\<rparr>)"
| world_finish:
    "iid \<in> set (aw_waiting w) \<Longrightarrow> ad_intent_id decision = iid \<Longrightarrow>
     decide_finish blake3 now exec_now iid cap decision (aw_flow w) = (fl', out, ex) \<Longrightarrow>
     world_step L blake3 p w
       (w\<lparr>aw_flow := fl', aw_waiting := remove1 iid (aw_waiting w),
          aw_decisions := decision # aw_decisions w,
          aw_executed := executed_entry iid now ex @ aw_executed w\<rparr>)"

inductive_cases world_stepE: "world_step L blake3 p w w'"

definition terminal_status :: "intent_status \<Rightarrow> bool" where
  "terminal_status st \<longleftrightarrow> st \<noteq> IsPending \<and> st \<noteq> IsInProgress"

definition executed_status :: "intent_status \<Rightarrow> bool" where
  "executed_status st \<longleftrightarrow> st = IsExecuted \<or> st = IsExecutionFailed"

text \<open>The request a human was shown carries exactly what the intent carries.\<close>

definition request_matches :: "approval_request \<Rightarrow> intent \<Rightarrow> bool" where
  "request_matches q i \<longleftrightarrow>
     ar_intent_id q = in_id i \<and> ar_proposer q = in_proposer i \<and> ar_capability q = in_capability i \<and>
     ar_parameters q = in_parameters i \<and> ar_dry_run_diff q = in_dry_run_diff i \<and>
     ar_parameter_hash q = in_parameter_hash i"

definition intent_ok ::
    "'s policy_libs \<Rightarrow> (u8 list \<Rightarrow> u8 list) \<Rightarrow> 's capability_policy \<Rightarrow> intent_id \<Rightarrow> intent \<Rightarrow> bool" where
  "intent_ok L blake3 p iid i \<longleftrightarrow>
     in_id i = iid \<and> verify_parameter_hash blake3 i \<and> protected_resources_configured p \<and>
     find_protected_match p (in_parameters i) = None \<and>
     check_denied_param_substrings L p (in_capability i) (in_parameters i) = None"

definition was_shown :: "approval_world \<Rightarrow> intent \<Rightarrow> bool" where
  "was_shown w i \<longleftrightarrow> (\<exists>q \<in> set (aw_shown w). request_matches q i)"

definition was_approved :: "approval_world \<Rightarrow> intent_id \<Rightarrow> bool" where
  "was_approved w iid \<longleftrightarrow> (\<exists>d \<in> set (aw_decisions w). ad_intent_id d = iid \<and> ad_approved d)"

definition records_inv ::
    "'s policy_libs \<Rightarrow> (u8 list \<Rightarrow> u8 list) \<Rightarrow> 's capability_policy \<Rightarrow> approval_world \<Rightarrow> bool" where
  "records_inv L blake3 p w \<longleftrightarrow>
     (\<forall>iid r. flow_record (aw_flow w) iid = Some r \<longrightarrow>
        intent_ok L blake3 p iid (lr_intent r) \<and>
        (lr_status r = IsInProgress \<longrightarrow> was_shown w (lr_intent r)))"

definition waiting_inv :: "approval_world \<Rightarrow> bool" where
  "waiting_inv w \<longleftrightarrow>
     distinct (aw_waiting w) \<and>
     (\<forall>iid \<in> set (aw_waiting w).
        \<exists>r. flow_record (aw_flow w) iid = Some r \<and> lr_status r = IsInProgress)"

definition execution_justified ::
    "approval_world \<Rightarrow> intent_id \<times> constraint list \<times> nat \<Rightarrow> bool" where
  "execution_justified w e \<longleftrightarrow>
     (case e of (iid, ps, t) \<Rightarrow>
        \<exists>r. flow_record (aw_flow w) iid = Some r \<and> executed_status (lr_status r) \<and>
            in_parameters (lr_intent r) = ps \<and> \<not> is_expired t (lr_intent r) \<and>
            was_shown w (lr_intent r) \<and> was_approved w iid)"

definition executed_inv :: "approval_world \<Rightarrow> bool" where
  "executed_inv w \<longleftrightarrow>
     distinct (map fst (aw_executed w)) \<and> (\<forall>e \<in> set (aw_executed w). execution_justified w e)"

definition world_inv ::
    "'s policy_libs \<Rightarrow> (u8 list \<Rightarrow> u8 list) \<Rightarrow> 's capability_policy \<Rightarrow> approval_world \<Rightarrow> bool" where
  "world_inv L blake3 p w \<longleftrightarrow> records_inv L blake3 p w \<and> waiting_inv w \<and> executed_inv w"

lemma flow_record_put [simp]:
  "flow_record (put_record iid r fl) j = (if j = iid then Some r else flow_record fl j)"
  by (simp add: flow_record_def put_record_def)

text \<open>What each locked section does to the records.\<close>

lemma propose_cases:
  assumes "propose_with_expiry L blake3 p new_id now proposer cap params expiry fl = (fl', out)"
  obtains (rejected) e where "fl' = fl" "out = Err e"
  | (registered) i where "out = Ok new_id" "intent_ok L blake3 p new_id i"
      "i = intent_propose blake3 new_id now proposer (t2_name cap) params (t2_dry_run cap params) expiry"
      "fl' = put_record new_id \<lparr>lr_intent = i, lr_decision = None, lr_execution = None,
         lr_status = IsPending\<rparr> fl"
  using assms
  by (fastforce simp: propose_with_expiry_def Let_def intent_propose_def intent_ok_def put_record_def
      verify_parameter_hash_def split: if_splits option.splits)

lemma claim_cases:
  assumes "decide_claim blake3 now iid fl = (fl', out)"
  obtains (unknown) "flow_record fl iid = None" "fl' = fl" "out = Returned (Err UnknownIntent)"
  | (not_pending) r where "flow_record fl iid = Some r" "lr_status r \<noteq> IsPending" "fl' = fl"
      "out = Returned (Ok (lr_status r))"
  | (refused) r st e where "flow_record fl iid = Some r" "lr_status r = IsPending" "terminal_status st"
      "\<not> executed_status st" "fl' = put_record iid (r\<lparr>lr_status := st\<rparr>) fl" "out = Returned (Err e)"
  | (claimed) r where "flow_record fl iid = Some r" "lr_status r = IsPending"
      "\<not> is_expired now (lr_intent r)" "verify_parameter_hash blake3 (lr_intent r)"
      "fl' = put_record iid (r\<lparr>lr_status := IsInProgress\<rparr>) fl"
      "out = Claimed (as_approval_request now (lr_intent r))"
  using assms
  by (fastforce simp: decide_claim_def flow_record_def terminal_status_def executed_status_def
      split: if_splits option.splits)

lemma finish_cases:
  assumes "decide_finish blake3 now exec_now iid cap decision fl = (fl', out, ex)"
    and "flow_record fl iid = Some r"
  obtains (stopped) r' where "fl' = put_record iid r' fl" "lr_intent r' = lr_intent r"
      "terminal_status (lr_status r')" "\<not> executed_status (lr_status r')" "ex = None"
      "lr_execution r' = lr_execution r"
  | (executed) r' where "fl' = put_record iid r' fl" "lr_intent r' = lr_intent r"
      "executed_status (lr_status r')" "ex = Some (in_parameters (lr_intent r))"
      "ad_approved decision" "\<not> is_expired now (lr_intent r)"
      "verify_parameter_hash blake3 (lr_intent r)" "out = Ok (lr_status r')"
      "lr_execution r' \<noteq> None"
  using assms
  by (fastforce simp: decide_finish_def flow_record_def Let_def terminal_status_def executed_status_def
      split: if_splits option.splits sum.splits)

lemma claimed_request_matches: "request_matches (as_approval_request now i) i"
  by (simp add: request_matches_def as_approval_request_def)

lemma executed_terminal: "executed_status st \<Longrightarrow> terminal_status st"
  by (auto simp: executed_status_def terminal_status_def)

text \<open>A world that changes only records that were never executed, and forgets no history.\<close>

lemma execution_justified_mono:
  assumes "execution_justified w e"
    and "flow_record (aw_flow w') (fst e) = flow_record (aw_flow w) (fst e)"
    and "set (aw_shown w) \<subseteq> set (aw_shown w')" "set (aw_decisions w) \<subseteq> set (aw_decisions w')"
  shows "execution_justified w' e"
  using assms by (cases e) (fastforce simp: execution_justified_def was_shown_def was_approved_def)

lemma executed_inv_record:
  "executed_inv w \<Longrightarrow> e \<in> set (aw_executed w) \<Longrightarrow>
     \<exists>r. flow_record (aw_flow w) (fst e) = Some r \<and> executed_status (lr_status r)"
  by (cases e) (auto simp: executed_inv_def execution_justified_def)

lemma executed_inv_mono:
  assumes inv: "executed_inv w" and ex: "aw_executed w' = aw_executed w"
    and same: "\<And>iid r. flow_record (aw_flow w) iid = Some r \<Longrightarrow> executed_status (lr_status r) \<Longrightarrow>
      flow_record (aw_flow w') iid = Some r"
    and hist: "set (aw_shown w) \<subseteq> set (aw_shown w')" "set (aw_decisions w) \<subseteq> set (aw_decisions w')"
  shows "executed_inv w'"
proof -
  have "execution_justified w' e" if e: "e \<in> set (aw_executed w)" for e
  proof (rule execution_justified_mono [OF _ _ hist])
    show "execution_justified w e" using inv e by (simp add: executed_inv_def)
    show "flow_record (aw_flow w') (fst e) = flow_record (aw_flow w) (fst e)"
      using executed_inv_record [OF inv e] same by auto
  qed
  then show ?thesis using inv ex by (simp add: executed_inv_def)
qed

lemma records_inv_put:
  assumes "records_inv L blake3 p w" "aw_flow w' = put_record iid r (aw_flow w)"
    and "intent_ok L blake3 p iid (lr_intent r)"
    and "lr_status r = IsInProgress \<Longrightarrow> was_shown w' (lr_intent r)"
    and "set (aw_shown w) \<subseteq> set (aw_shown w')"
  shows "records_inv L blake3 p w'"
  using assms by (fastforce simp: records_inv_def was_shown_def)

lemma waiting_inv_put:
  assumes "waiting_inv w" "aw_flow w' = put_record iid r (aw_flow w)" "iid \<notin> set (aw_waiting w)"
    and "aw_waiting w' = aw_waiting w"
  shows "waiting_inv w'"
  using assms by (auto simp: waiting_inv_def)

lemma executed_inv_put:
  assumes "executed_inv w" "aw_flow w' = put_record iid r (aw_flow w)"
    and "\<And>r0. flow_record (aw_flow w) iid = Some r0 \<Longrightarrow> \<not> executed_status (lr_status r0)"
    and "aw_executed w' = aw_executed w"
    and "set (aw_shown w) \<subseteq> set (aw_shown w')" "set (aw_decisions w) \<subseteq> set (aw_decisions w')"
  shows "executed_inv w'"
  by (rule executed_inv_mono [OF assms(1) assms(4) _ assms(5,6)]) (use assms(2,3) in auto)

lemma waiting_status:
  "waiting_inv w \<Longrightarrow> iid \<in> set (aw_waiting w) \<Longrightarrow>
     \<exists>r. flow_record (aw_flow w) iid = Some r \<and> lr_status r = IsInProgress"
  by (simp add: waiting_inv_def)

lemma fresh_record: "new_id \<notin> hm_keys (fl_records fl) \<Longrightarrow> flow_record fl new_id = None"
  by (simp add: flow_record_def hm_get_None_iff)

text \<open>The invariant across each kind of step.\<close>

lemma world_inv_propose:
  assumes inv: "records_inv L blake3 p w" "waiting_inv w" "executed_inv w"
    and fresh: "new_id \<notin> hm_keys (fl_records (aw_flow w))"
    and step: "propose_with_expiry L blake3 p new_id now proposer cap params expiry (aw_flow w) = (fl', out)"
  shows "world_inv L blake3 p (w\<lparr>aw_flow := fl'\<rparr>)" (is "world_inv L blake3 p ?w")
  using step
proof (cases rule: propose_cases)
  case (rejected e)
  then show ?thesis using inv by (simp add: world_inv_def)
next
  case (registered i)
  note none = fresh_record [OF fresh]
  have fl: "aw_flow ?w = put_record new_id
      \<lparr>lr_intent = i, lr_decision = None, lr_execution = None, lr_status = IsPending\<rparr> (aw_flow w)"
    by (simp add: registered(4))
  have "new_id \<notin> set (aw_waiting w)" using none waiting_status [OF inv(2), of new_id] by auto
  then have "waiting_inv ?w" by (rule waiting_inv_put [OF inv(2) fl]) simp
  moreover have "records_inv L blake3 p ?w"
    by (rule records_inv_put [OF inv(1) fl]) (simp_all add: registered(2))
  moreover have "executed_inv ?w"
    by (rule executed_inv_put [OF inv(3) fl]) (simp_all add: none)
  ultimately show ?thesis by (simp add: world_inv_def)
qed

lemma world_inv_return:
  assumes inv: "records_inv L blake3 p w" "waiting_inv w" "executed_inv w"
    and step: "decide_claim blake3 now iid (aw_flow w) = (fl', Returned out)"
  shows "world_inv L blake3 p (w\<lparr>aw_flow := fl'\<rparr>)" (is "world_inv L blake3 p ?w")
  using step
proof (cases rule: claim_cases)
  case (refused r st e)
  have fl: "aw_flow ?w = put_record iid (r\<lparr>lr_status := st\<rparr>) (aw_flow w)" by (simp add: refused(5))
  have "iid \<notin> set (aw_waiting w)" using refused(1,2) waiting_status [OF inv(2), of iid] by auto
  then have "waiting_inv ?w" by (rule waiting_inv_put [OF inv(2) fl]) simp
  moreover have "records_inv L blake3 p ?w"
    by (rule records_inv_put [OF inv(1) fl])
      (use inv(1) refused(1,3) in \<open>auto simp: records_inv_def terminal_status_def\<close>)
  moreover have "executed_inv ?w"
    by (rule executed_inv_put [OF inv(3) fl]) (simp_all add: refused(1,2) executed_status_def)
  ultimately show ?thesis by (simp add: world_inv_def)
qed (use inv in \<open>simp_all add: world_inv_def\<close>)

lemma world_inv_claim:
  assumes inv: "records_inv L blake3 p w" "waiting_inv w" "executed_inv w"
    and step: "decide_claim blake3 now iid (aw_flow w) = (fl', Claimed req)"
  shows "world_inv L blake3 p
    (w\<lparr>aw_flow := fl', aw_waiting := iid # aw_waiting w, aw_shown := req # aw_shown w\<rparr>)"
    (is "world_inv L blake3 p ?w")
  using step
proof (cases rule: claim_cases)
  case (claimed r)
  have fl: "aw_flow ?w = put_record iid (r\<lparr>lr_status := IsInProgress\<rparr>) (aw_flow w)"
    by (simp add: claimed(5))
  have "iid \<notin> set (aw_waiting w)" using claimed(1,2) waiting_status [OF inv(2), of iid] by auto
  then have "waiting_inv ?w" using inv(2) fl by (simp add: waiting_inv_def)
  moreover have "was_shown ?w (lr_intent r)"
    using claimed(6) claimed_request_matches by (simp add: was_shown_def)
  then have "records_inv L blake3 p ?w"
    by (intro records_inv_put [OF inv(1) fl]) (use inv(1) claimed(1) in \<open>auto simp: records_inv_def\<close>)
  moreover have "executed_inv ?w"
    by (rule executed_inv_put [OF inv(3) fl]) (auto simp: claimed(1,2) executed_status_def)
  ultimately show ?thesis by (simp add: world_inv_def)
qed auto

lemma waiting_inv_remove:
  assumes "waiting_inv w" "aw_waiting w' = remove1 iid (aw_waiting w)"
    and "\<And>j. j \<noteq> iid \<Longrightarrow> flow_record (aw_flow w') j = flow_record (aw_flow w) j"
  shows "waiting_inv w'"
  using assms by (auto simp: waiting_inv_def)

lemma executed_inv_add:
  assumes inv: "executed_inv w" and not_exec: "\<not> executed_status (lr_status r)"
    and r: "flow_record (aw_flow w) iid = Some r"
    and fl: "aw_flow w' = put_record iid r' (aw_flow w)"
    and hist: "set (aw_shown w) \<subseteq> set (aw_shown w')" "set (aw_decisions w) \<subseteq> set (aw_decisions w')"
    and new: "aw_executed w' = (iid, ps, t) # aw_executed w" "execution_justified w' (iid, ps, t)"
  shows "executed_inv w'"
proof -
  have fresh: "fst e \<noteq> iid" if "e \<in> set (aw_executed w)" for e
    using executed_inv_record [OF inv that] r not_exec by auto
  have "execution_justified w' e" if e: "e \<in> set (aw_executed w)" for e
  proof (rule execution_justified_mono [OF _ _ hist])
    show "execution_justified w e" using inv e by (simp add: executed_inv_def)
    show "flow_record (aw_flow w') (fst e) = flow_record (aw_flow w) (fst e)"
      using fresh [OF e] fl by simp
  qed
  moreover have "iid \<notin> fst ` set (aw_executed w)" using fresh by blast
  ultimately show ?thesis using inv new by (simp add: executed_inv_def)
qed

lemma world_inv_finish:
  assumes inv: "records_inv L blake3 p w" "waiting_inv w" "executed_inv w"
    and iid: "iid \<in> set (aw_waiting w)" "ad_intent_id decision = iid"
    and step: "decide_finish blake3 now exec_now iid cap decision (aw_flow w) = (fl', out, ex)"
  shows "world_inv L blake3 p
    (w\<lparr>aw_flow := fl', aw_waiting := remove1 iid (aw_waiting w),
       aw_decisions := decision # aw_decisions w,
       aw_executed := executed_entry iid now ex @ aw_executed w\<rparr>)" (is "world_inv L blake3 p ?w")
proof -
  obtain r where r: "flow_record (aw_flow w) iid = Some r" "lr_status r = IsInProgress"
    using waiting_status [OF inv(2) iid(1)] by blast
  have ok: "intent_ok L blake3 p iid (lr_intent r)" and shown: "was_shown ?w (lr_intent r)"
    using inv(1) r by (auto simp: records_inv_def was_shown_def)
  have not_exec: "\<not> executed_status (lr_status r)" using r(2) by (simp add: executed_status_def)
  from step r(1) show ?thesis
  proof (cases rule: finish_cases)
    case (stopped r')
    then have fl: "aw_flow ?w = put_record iid r' (aw_flow w)" by simp
    have "waiting_inv ?w" by (rule waiting_inv_remove [OF inv(2)]) (auto simp: stopped(1))
    moreover have "records_inv L blake3 p ?w"
      by (rule records_inv_put [OF inv(1) fl]) (use ok stopped(2,3) in \<open>auto simp: terminal_status_def\<close>)
    moreover have "executed_inv ?w"
      by (rule executed_inv_put [OF inv(3) fl])
        (auto simp: r(1) not_exec stopped(5) executed_entry_def)
    ultimately show ?thesis by (simp add: world_inv_def)
  next
    case (executed r')
    then have fl: "aw_flow ?w = put_record iid r' (aw_flow w)" by simp
    have "waiting_inv ?w" by (rule waiting_inv_remove [OF inv(2)]) (auto simp: executed(1))
    moreover have "records_inv L blake3 p ?w"
      by (rule records_inv_put [OF inv(1) fl]) (use ok shown executed(2) in auto)
    moreover have "execution_justified ?w (iid, in_parameters (lr_intent r), now)"
      using executed shown iid(2) by (simp add: execution_justified_def was_approved_def)
    then have "executed_inv ?w"
      by (intro executed_inv_add [OF inv(3) not_exec r(1) fl])
        (auto simp: executed(4) executed_entry_def)
    ultimately show ?thesis by (simp add: world_inv_def)
  qed
qed

lemma world_inv_channel_error:
  assumes "records_inv L blake3 p w" "waiting_inv w" "executed_inv w"
  shows "world_inv L blake3 p (w\<lparr>aw_waiting := remove1 iid (aw_waiting w)\<rparr>)" (is "world_inv L blake3 p ?w")
proof -
  have "waiting_inv ?w" by (rule waiting_inv_remove [OF assms(2)]) simp_all
  moreover have "records_inv L blake3 p ?w" using assms(1) by (simp add: records_inv_def was_shown_def)
  moreover have "executed_inv ?w" by (rule executed_inv_mono [OF assms(3)]) simp_all
  ultimately show ?thesis by (simp add: world_inv_def)
qed

lemma world_inv_start: "world_start w \<Longrightarrow> world_inv L blake3 p w"
  by (auto simp: world_start_def world_inv_def records_inv_def waiting_inv_def executed_inv_def
      flow_record_def flow_with_expiry_def)

lemma world_inv_step: "world_inv L blake3 p w \<Longrightarrow> world_step L blake3 p w w' \<Longrightarrow> world_inv L blake3 p w'"
  by (erule world_stepE)
    (simp_all add: world_inv_propose world_inv_claim world_inv_return world_inv_channel_error
      world_inv_finish world_inv_def [of _ _ _ w])

interpretation appr: state_machine world_start "world_step L blake3 p" "world_inv L blake3 p" for L blake3 p
  by unfold_locales (blast intro: world_inv_start world_inv_step)+

text \<open>The status of a record tells whether the intent was executed, and then the outcome is recorded.\<close>

definition recorded_inv :: "approval_world \<Rightarrow> bool" where
  "recorded_inv w \<longleftrightarrow>
     (\<forall>iid r. flow_record (aw_flow w) iid = Some r \<longrightarrow>
        (executed_status (lr_status r) \<longleftrightarrow> iid \<in> fst ` set (aw_executed w)) \<and>
        (executed_status (lr_status r) \<longrightarrow> lr_execution r \<noteq> None))"

lemma recorded_inv_put:
  assumes "recorded_inv w" "aw_flow w' = put_record iid r (aw_flow w)"
    and "executed_status (lr_status r) \<longleftrightarrow> iid \<in> fst ` set (aw_executed w')"
    and "executed_status (lr_status r) \<Longrightarrow> lr_execution r \<noteq> None"
    and "fst ` set (aw_executed w') - {iid} = fst ` set (aw_executed w) - {iid}"
  shows "recorded_inv w'"
  unfolding recorded_inv_def
proof (intro allI impI)
  fix j rj assume j: "flow_record (aw_flow w') j = Some rj"
  show "(executed_status (lr_status rj) \<longleftrightarrow> j \<in> fst ` set (aw_executed w')) \<and>
        (executed_status (lr_status rj) \<longrightarrow> lr_execution rj \<noteq> None)"
  proof (cases "j = iid")
    case True
    then show ?thesis using j assms(2,3,4) by auto
  next
    case False
    then have "flow_record (aw_flow w) j = Some rj" using j assms(2) by simp
    moreover have "j \<in> fst ` set (aw_executed w') \<longleftrightarrow> j \<in> fst ` set (aw_executed w)"
      using assms(5) False by blast
    ultimately show ?thesis using assms(1) by (simp add: recorded_inv_def)
  qed
qed

lemma not_recorded:
  "executed_inv w \<Longrightarrow> (\<And>r. flow_record (aw_flow w) iid = Some r \<Longrightarrow> \<not> executed_status (lr_status r)) \<Longrightarrow>
     iid \<notin> fst ` set (aw_executed w)"
  using executed_inv_record by fastforce

lemma recorded_inv_finish:
  assumes inv: "recorded_inv w" "waiting_inv w" "executed_inv w" and iid: "iid \<in> set (aw_waiting w)"
    and step: "decide_finish blake3 now exec_now iid cap decision (aw_flow w) = (fl', out, ex)"
    and w': "aw_flow w' = fl'" "aw_executed w' = executed_entry iid now ex @ aw_executed w"
  shows "recorded_inv w'"
proof -
  obtain r where r: "flow_record (aw_flow w) iid = Some r" "lr_status r = IsInProgress"
    using waiting_status [OF inv(2) iid] by blast
  then have fresh: "iid \<notin> fst ` set (aw_executed w)"
    by (intro not_recorded [OF inv(3)]) (simp add: executed_status_def)
  from step r(1) show ?thesis
  proof (cases rule: finish_cases)
    case (stopped r')
    then show ?thesis
      using w' fresh by (intro recorded_inv_put [OF inv(1), of w' iid r']) (simp_all add: executed_entry_def)
  next
    case (executed r')
    then show ?thesis
      using w' executed fresh
      by (intro recorded_inv_put [OF inv(1), of w' iid r']) (auto simp: executed_entry_def)
  qed
qed

lemma recorded_inv_step:
  assumes w: "world_inv L blake3 p w" and inv: "recorded_inv w" and step: "world_step L blake3 p w w'"
  shows "recorded_inv w'"
  using step
proof (cases rule: world_step.cases)
  case (world_propose new_id now proposer cap params expiry fl' out)
  note none = fresh_record [OF world_propose(2)]
  have fresh: "new_id \<notin> fst ` set (aw_executed w)"
    using w none by (intro not_recorded) (simp_all add: world_inv_def)
  from world_propose(3) show ?thesis
  proof (cases rule: propose_cases)
    case (registered i)
    then have fl: "aw_flow w' = put_record new_id
        \<lparr>lr_intent = i, lr_decision = None, lr_execution = None, lr_status = IsPending\<rparr> (aw_flow w)"
      using world_propose(1) by simp
    show ?thesis
      using world_propose(1) fresh
      by (intro recorded_inv_put [OF inv fl]) (simp_all add: executed_status_def)
  qed (use world_propose(1) inv in simp)
next
  case (world_claim now iid fl' req)
  from world_claim(2) show ?thesis
  proof (cases rule: claim_cases)
    case (claimed r)
    have "iid \<notin> fst ` set (aw_executed w)"
      using w claimed by (intro not_recorded) (simp_all add: world_inv_def executed_status_def)
    then show ?thesis
      using world_claim(1) claimed(5)
      by (intro recorded_inv_put [OF inv, of w' iid "r\<lparr>lr_status := IsInProgress\<rparr>"])
        (simp_all add: executed_status_def)
  qed simp_all
next
  case (world_return now iid fl' out)
  from world_return(2) show ?thesis
  proof (cases rule: claim_cases)
    case (refused r st e)
    have "iid \<notin> fst ` set (aw_executed w)"
      using w refused by (intro not_recorded) (simp_all add: world_inv_def executed_status_def)
    then show ?thesis
      using world_return(1) refused(4,5)
      by (intro recorded_inv_put [OF inv, of w' iid "r\<lparr>lr_status := st\<rparr>"]) simp_all
  qed (use world_return(1) inv in simp_all)
next
  case (world_channel_error iid)
  then show ?thesis using inv by (simp add: recorded_inv_def)
next
  case (world_finish iid decision now exec_now cap fl' out ex)
  then show ?thesis using w inv by (intro recorded_inv_finish [OF inv]) (auto simp: world_inv_def)
qed

interpretation recd: state_machine world_start "world_step L blake3 p"
    "\<lambda>w. world_inv L blake3 p w \<and> recorded_inv w" for L blake3 p
proof unfold_locales
  fix w assume "world_start w"
  then show "world_inv L blake3 p w \<and> recorded_inv w"
    using world_inv_start [of w] by (auto simp: recorded_inv_def world_start_def flow_record_def flow_with_expiry_def)
qed (use world_inv_step recorded_inv_step in blast)

subsection \<open>Properties\<close>

text \<open>One intent taken through the flow: proposed, claimed by one caller, approved and executed.\<close>

definition example_policy :: "nat capability_policy" where
  "example_policy = load example_libs (Some [])"

definition example_cap :: tier2_capability where
  "example_cap = \<lparr>t2_name = str ''wg_peer_manage'', t2_dry_run = (\<lambda>_. None), t2_execute = (\<lambda>_. Inr (str ''done''))\<rparr>"

definition example_params :: "constraint list" where
  "example_params = [constraint_string (str ''action'') (str ''add'')]"

definition sample_intent :: intent where
  "sample_intent = intent_propose (\<lambda>b. b) (IntentId [7]) 0 example_peer (t2_name example_cap)
     example_params (t2_dry_run example_cap example_params) 100"

definition example_record :: linked_record where
  "example_record = \<lparr>lr_intent = sample_intent, lr_decision = None, lr_execution = None,
     lr_status = IsPending\<rparr>"

definition example_decision :: "bool \<Rightarrow> approval_decision" where
  "example_decision b = \<lparr>ad_intent_id = IntentId [7], ad_approved = b, ad_channel_name = str ''cli-prompt''\<rparr>"

definition world_0 :: approval_world where
  "world_0 = \<lparr>aw_flow = flow_with_expiry 100, aw_waiting = [], aw_shown = [], aw_decisions = [], aw_executed = []\<rparr>"

definition world_1 :: approval_world where
  "world_1 = world_0\<lparr>aw_flow := put_record (IntentId [7]) example_record (aw_flow world_0)\<rparr>"

definition world_2 :: approval_world where
  "world_2 = world_1\<lparr>aw_flow := fst (decide_claim (\<lambda>b. b) 5 (IntentId [7]) (aw_flow world_1)),
     aw_waiting := [IntentId [7]], aw_shown := [as_approval_request 5 sample_intent]\<rparr>"

definition world_3 :: approval_world where
  "world_3 = world_2\<lparr>aw_flow := fst (decide_finish (\<lambda>b. b) 9 9 (IntentId [7]) example_cap (example_decision True)
       (aw_flow world_2)),
     aw_waiting := [], aw_decisions := [example_decision True],
     aw_executed := [(IntentId [7], example_params, 9)]\<rparr>"

lemmas world_defs = world_0_def world_1_def world_2_def world_3_def

lemma example_policy_open:
  "protected_resources_configured example_policy" "find_protected_match example_policy ps = None"
  "check_denied_param_substrings L example_policy (t2_name example_cap) ps = None"
  unfolding example_policy_def example_load
  by (simp_all add: protected_resources_configured_def find_protected_match_def protected_resources_def
      check_denied_param_substrings_def example_cap_def hm_get_def str_def)

lemma sample_intent_fields [simp]:
  "in_id sample_intent = IntentId [7]" "in_parameters sample_intent = example_params"
  "in_expires_at sample_intent = 100" "verify_parameter_hash (\<lambda>b. b) sample_intent"
  by (simp_all add: sample_intent_def intent_propose_def verify_parameter_hash_def)

lemma example_proposed:
  "propose_with_expiry example_libs (\<lambda>b. b) example_policy (IntentId [7]) 0 example_peer example_cap
     example_params 100 (aw_flow world_0) = (aw_flow world_1, Ok (IntentId [7]))"
  by (simp add: propose_with_expiry_def example_policy_open world_1_def example_record_def put_record_def
      Let_def sample_intent_def [symmetric])

lemma example_claimed:
  "decide_claim (\<lambda>b. b) 5 (IntentId [7]) (aw_flow world_1) =
     (put_record (IntentId [7]) (example_record\<lparr>lr_status := IsInProgress\<rparr>) (aw_flow world_1),
      Claimed (as_approval_request 5 sample_intent))"
  by (simp add: decide_claim_def world_1_def put_record_def example_record_def is_expired_def)

lemma example_finished:
  "\<exists>fl out. decide_finish (\<lambda>b. b) 9 9 (IntentId [7]) example_cap (example_decision True) (aw_flow world_2)
     = (fl, out, Some example_params)"
  by (simp add: world_2_def example_claimed)
    (simp add: decide_finish_def put_record_def example_record_def example_decision_def is_expired_def
      Let_def)

lemma world_1_reached: "reaches world_start (world_step example_libs (\<lambda>b. b) example_policy) world_1"
proof (rule reaches_step)
  show "reaches world_start (world_step example_libs (\<lambda>b. b) example_policy) world_0"
    by (rule reaches_start) (auto simp: world_start_def world_0_def)
  show "world_step example_libs (\<lambda>b. b) example_policy world_0 world_1"
    using world_propose [OF _ example_proposed] by (simp add: world_1_def world_0_def flow_with_expiry_def)
qed

lemma world_2_reached: "reaches world_start (world_step example_libs (\<lambda>b. b) example_policy) world_2"
  by (rule reaches_step [OF world_1_reached])
    (use world_claim [OF example_claimed, of example_libs example_policy] in
      \<open>simp add: world_2_def example_claimed world_1_def [symmetric], simp add: world_1_def world_0_def\<close>)

lemma world_3_step: "world_step example_libs (\<lambda>b. b) example_policy world_2 world_3"
proof -
  obtain fl out where f: "decide_finish (\<lambda>b. b) 9 9 (IntentId [7]) example_cap (example_decision True)
      (aw_flow world_2) = (fl, out, Some example_params)"
    using example_finished by blast
  have w: "IntentId [7] \<in> set (aw_waiting world_2)" "ad_intent_id (example_decision True) = IntentId [7]"
    by (simp_all add: world_2_def example_decision_def)
  show ?thesis
    using world_finish [OF w f, of example_libs example_policy] f
    by (simp add: world_3_def executed_entry_def) (simp add: world_defs)
qed

lemma world_3_reached: "reaches world_start (world_step example_libs (\<lambda>b. b) example_policy) world_3"
  by (rule reaches_step [OF world_2_reached world_3_step])

text \<open>
  C1: whatever the interleaving of callers, an intent is executed at most once.
\<close>

theorem executes_at_most_once:
  assumes "reaches world_start (world_step L blake3 p) w"
  shows "distinct (map fst (aw_executed w))"
  using appr.inv_reaches [OF assms] by (simp add: world_inv_def executed_inv_def)

theorem executes_at_most_once_witness:
  "distinct (map fst (aw_executed world_3)) \<and> aw_executed world_3 \<noteq> []"
  using executes_at_most_once [OF world_3_reached] by (simp add: world_3_def)

text \<open>
  C2: an execution is always of the parameters a human was shown and approved. When \<open>execute\<close> ran
  for an intent, the channel had been shown a request with the proposer, capability, parameters,
  diff and hash of that intent, it had answered with an approval of that very intent, the intent had not expired when
  last checked, the parameters passed are those that were proposed, their hash is the one on the
  request, and they name no protected resource and violate no argument constraint of the policy.
\<close>

theorem execution_was_approved:
  assumes "reaches world_start (world_step L blake3 p) w" "(iid, ps, t) \<in> set (aw_executed w)"
  shows "\<exists>q d r. q \<in> set (aw_shown w) \<and> d \<in> set (aw_decisions w) \<and> flow_record (aw_flow w) iid = Some r \<and>
     request_matches q (lr_intent r) \<and> ar_intent_id q = iid \<and> ar_parameters q = ps \<and>
     compute_parameter_hash blake3 (ar_capability q) ps = ar_parameter_hash q \<and>
     ad_intent_id d = iid \<and> ad_approved d \<and> t < in_expires_at (lr_intent r) \<and>
     find_protected_match p ps = None \<and> check_denied_param_substrings L p (ar_capability q) ps = None"
proof -
  have inv: "records_inv L blake3 p w" "executed_inv w"
    using appr.inv_reaches [OF assms(1)] by (simp_all add: world_inv_def)
  then obtain r where r: "flow_record (aw_flow w) iid = Some r" "in_parameters (lr_intent r) = ps"
      "\<not> is_expired t (lr_intent r)" "was_shown w (lr_intent r)" "was_approved w iid"
    using assms(2) by (auto simp: executed_inv_def execution_justified_def)
  have "intent_ok L blake3 p iid (lr_intent r)" using inv(1) r(1) by (simp add: records_inv_def)
  with r show ?thesis
    by (fastforce simp: intent_ok_def was_shown_def was_approved_def request_matches_def
        verify_parameter_hash_def is_expired_def)
qed

theorem execution_was_approved_witness:
  "\<exists>q d r. q \<in> set (aw_shown world_3) \<and> d \<in> set (aw_decisions world_3) \<and>
     flow_record (aw_flow world_3) (IntentId [7]) = Some r \<and>
     request_matches q (lr_intent r) \<and> ar_intent_id q = IntentId [7] \<and> ar_parameters q = example_params \<and>
     compute_parameter_hash (\<lambda>b. b) (ar_capability q) example_params = ar_parameter_hash q \<and>
     ad_intent_id d = IntentId [7] \<and> ad_approved d \<and> 9 < in_expires_at (lr_intent r) \<and>
     find_protected_match example_policy example_params = None \<and>
     check_denied_param_substrings example_libs example_policy (ar_capability q) example_params = None"
  using execution_was_approved [OF world_3_reached] by (simp add: world_3_def)

text \<open>
  C34: a terminal status is final. Once an intent is denied, expired, refused for its hash, executed or
  failed, no step of any caller changes its record again.
\<close>

theorem terminal_status_final:
  assumes "reaches world_start (world_step L blake3 p) w" "world_step L blake3 p w w'"
    and "flow_record (aw_flow w) iid = Some r" "terminal_status (lr_status r)"
  shows "flow_record (aw_flow w') iid = Some r"
proof -
  have "waiting_inv w" using appr.inv_reaches [OF assms(1)] by (simp add: world_inv_def)
  note waiting = waiting_status [OF this]
  from assms(2) show ?thesis
  proof (cases rule: world_step.cases)
    case (world_propose new_id now proposer cap params expiry fl' out)
    then show ?thesis
      using assms(3) fresh_record [OF world_propose(2)] by (auto elim!: propose_cases)
  next
    case (world_finish j decision now exec_now cap fl' out ex)
    obtain r0 where r0: "flow_record (aw_flow w) j = Some r0" "lr_status r0 = IsInProgress"
      using waiting [OF world_finish(2)] by blast
    then have "j \<noteq> iid" using assms(3,4) by (auto simp: terminal_status_def)
    then show ?thesis
      using world_finish(1,4) assms(3) r0(1) by (auto elim!: finish_cases)
  qed (use assms(3,4) in \<open>auto elim!: claim_cases simp: terminal_status_def\<close>)
qed

lemma world_3_record: "\<exists>r. flow_record (aw_flow world_3) (IntentId [7]) = Some r \<and> lr_status r = IsExecuted"
  by (simp add: world_3_def world_2_def example_claimed)
    (simp add: decide_finish_def put_record_def example_record_def example_decision_def is_expired_def
      Let_def flow_record_def example_cap_def)

theorem terminal_status_final_witness:
  "\<exists>r. flow_record (aw_flow world_3) (IntentId [7]) = Some r \<and> lr_status r = IsExecuted \<and>
     flow_record (aw_flow (world_3\<lparr>aw_flow := fst (decide_claim (\<lambda>b. b) 20 (IntentId [7]) (aw_flow world_3))\<rparr>))
       (IntentId [7]) = Some r"
proof -
  obtain r where r: "flow_record (aw_flow world_3) (IntentId [7]) = Some r" "lr_status r = IsExecuted"
    using world_3_record by blast
  then have "decide_claim (\<lambda>b. b) 20 (IntentId [7]) (aw_flow world_3) = (aw_flow world_3, Returned (Ok IsExecuted))"
    by (simp add: decide_claim_def flow_record_def)
  note step = world_return [OF this, of example_libs example_policy]
  show ?thesis
    using terminal_status_final [OF world_3_reached step r(1)] r
    by (auto simp: terminal_status_def decide_claim_def flow_record_def)
qed

lemma trim_decompose:
  "\<exists>a b. s = a @ trim s @ b \<and> list_all is_whitespace a \<and> list_all is_whitespace b"
proof -
  let ?t = "dropWhile is_whitespace s"
  have "?t = trim s @ rev (takeWhile is_whitespace (rev ?t))"
    by (metis rev_append rev_rev_ident takeWhile_dropWhile_id trim_def)
  then have "s = takeWhile is_whitespace s @ trim s @ rev (takeWhile is_whitespace (rev ?t))"
    using takeWhile_dropWhile_id by metis
  then show ?thesis by (metis list_all_iff set_rev set_takeWhileD)
qed

lemma trim_surrounded:
  assumes "list_all is_whitespace a" "list_all is_whitespace b" "core \<noteq> []"
    and "\<not> is_whitespace (hd core)" "\<not> is_whitespace (last core)"
  shows "trim (a @ core @ b) = core"
proof -
  have "dropWhile is_whitespace (a @ core @ b) = core @ b"
    using assms by (cases core) (simp_all add: dropWhile_append2 list_all_iff)
  moreover have "dropWhile is_whitespace (rev b @ rev core) = dropWhile is_whitespace (rev core)"
    using assms(2) by (intro dropWhile_append2) (simp add: list_all_iff)
  moreover have "dropWhile is_whitespace (rev core) = rev core"
    using assms by (cases core rule: rev_cases) simp_all
  ultimately show ?thesis by (simp add: trim_def)
qed

lemma ascii_lower_not_space: "is_whitespace c \<Longrightarrow> ascii_lower c = c"
  by (auto simp: is_whitespace_def ascii_lower_def)

lemma lower_not_space: "\<not> is_whitespace (ascii_lower c) \<Longrightarrow> \<not> is_whitespace c"
  using ascii_lower_not_space by metis

lemma yes_not_space:
  assumes "to_ascii_lowercase core \<in> {str ''y'', str ''yes''}"
  shows "core \<noteq> []" "\<not> is_whitespace (hd core)" "\<not> is_whitespace (last core)"
proof -
  have "map ascii_lower core = [121] \<or> map ascii_lower core = [121, 101, 115]"
    using assms by (simp add: to_ascii_lowercase_def str_def)
  then obtain ne: "core \<noteq> []" and "hd (map ascii_lower core) = 121"
      "last (map ascii_lower core) = 121 \<or> last (map ascii_lower core) = 115"
    by fastforce
  then have "ascii_lower (hd core) = 121" "ascii_lower (last core) = 121 \<or> ascii_lower (last core) = 115"
    by (simp_all add: hd_map last_map)
  moreover have "\<not> is_whitespace 121" "\<not> is_whitespace 115" by (simp_all add: is_whitespace_def)
  ultimately show "core \<noteq> []" "\<not> is_whitespace (hd core)" "\<not> is_whitespace (last core)"
    using ne lower_not_space by metis+
qed

definition yes_line :: "rstring \<Rightarrow> bool" where
  "yes_line line \<longleftrightarrow> (\<exists>a core b. line = a @ core @ b \<and> list_all is_whitespace a \<and>
     list_all is_whitespace b \<and> to_ascii_lowercase core \<in> {str ''y'', str ''yes''})"

lemma yes_line_trim: "yes_line line \<longleftrightarrow> to_ascii_lowercase (trim line) \<in> {str ''y'', str ''yes''}"
proof
  assume "yes_line line"
  then obtain a core b where l: "line = a @ core @ b" "list_all is_whitespace a" "list_all is_whitespace b"
      "to_ascii_lowercase core \<in> {str ''y'', str ''yes''}"
    by (auto simp: yes_line_def)
  then have "trim line = core" using trim_surrounded yes_not_space [OF l(4)] by blast
  then show "to_ascii_lowercase (trim line) \<in> {str ''y'', str ''yes''}" using l(4) by simp
next
  assume "to_ascii_lowercase (trim line) \<in> {str ''y'', str ''yes''}"
  then show "yes_line line" unfolding yes_line_def using trim_decompose by blast
qed

lemma not_yes_empty: "\<not> yes_line []"
  by (simp add: yes_line_trim trim_def to_ascii_lowercase_def str_def)

text \<open>
  The terminal prompt approves only on an explicit yes. When the prompt was written and a line
  read, the decision is bound to the request's intent, and it is an approval exactly when the line
  is \<open>y\<close> or \<open>yes\<close> in any letter case with white space around it; in particular the empty line of a
  closed input denies. A failed write or read is an error and no decision.
\<close>

lemma cli_approves_only_yes:
  assumes "write (render_prompt F hex req) = Ok ()"
  shows "(\<exists>d. cli_request_approval F hex write (Ok line) req = Ok d \<and>
           ad_intent_id d = ar_intent_id req \<and> (ad_approved d \<longleftrightarrow> yes_line line)) \<and>
         \<not> yes_line [] \<and>
         cli_request_approval F hex write (Err m) req = Err (IoError m) \<and>
         cli_request_approval F hex (\<lambda>_. Err m) rd req = Err (IoError m)"
  using assms not_yes_empty by (simp add: cli_request_approval_def yes_line_trim Let_def)

definition plain_fmt :: fmt_ops where
  "plain_fmt = \<lparr>fmt_debug_str = (\<lambda>s. s), fmt_debug_strs = concat, fmt_f64 = (\<lambda>_. [])\<rparr>"

text \<open>
  C35: an approval in time leads to exactly one execution. For a pending, untampered intent whose
  expiry lies after both checks, an approval of the request makes \<open>decide_and_execute\<close> run the
  capability on the proposed parameters; the status says whether that succeeded, and the record
  links the decision and the outcome to the intent.
\<close>

theorem approved_in_time_executes:
  assumes "flow_record fl iid = Some r" "lr_status r = IsPending" "in_id (lr_intent r) = iid"
    and "verify_parameter_hash blake3 (lr_intent r)"
    and "t1 < in_expires_at (lr_intent r)" "t2 < in_expires_at (lr_intent r)"
    and "channel (as_approval_request t1 (lr_intent r)) = Ok d" "ad_approved d" "ad_intent_id d = iid"
  shows "\<exists>fl' st. decide_and_execute blake3 channel t1 t2 t3 iid cap fl =
       (fl', Ok st, Some (in_parameters (lr_intent r))) \<and>
     (st = IsExecuted \<longleftrightarrow> (\<exists>m. t2_execute cap (in_parameters (lr_intent r)) = Inr m)) \<and>
     executed_status st \<and>
     flow_record fl' iid = Some (r\<lparr>lr_decision := Some d,
       lr_execution := Some \<lparr>ex_intent_id = iid, ex_outcome = t2_execute cap (in_parameters (lr_intent r)),
                             ex_executed_at = t3\<rparr>,
       lr_status := st\<rparr>)"
proof -
  have c: "decide_claim blake3 t1 iid fl = (put_record iid (r\<lparr>lr_status := IsInProgress\<rparr>) fl,
      Claimed (as_approval_request t1 (lr_intent r)))"
    using assms by (simp add: decide_claim_def flow_record_def is_expired_def)
  show ?thesis
    using assms
    by (simp add: decide_and_execute_def c)
      (simp add: decide_finish_def flow_record_def put_record_def Let_def is_expired_def executed_status_def
        split: sum.splits)
qed

theorem approved_in_time_executes_witness:
  "\<exists>fl' st. decide_and_execute (\<lambda>b. b) (\<lambda>_. Ok (example_decision True)) 5 9 9 (IntentId [7]) example_cap (aw_flow world_1)
     = (fl', Ok st, Some example_params) \<and> executed_status st"
  using approved_in_time_executes [where fl = "aw_flow world_1" and iid = "IntentId [7]" and r = example_record
      and ?blake3.0 = "\<lambda>b. b" and ?t1.0 = 5 and ?t2.0 = 9 and ?t3.0 = 9 and cap = example_cap
      and channel = "\<lambda>_. Ok (example_decision True)" and d = "example_decision True"]
  by (auto simp: world_1_def example_record_def example_decision_def)

text \<open>
  A channel that fails, or answers for another intent, strands the intent. The call returns that error
  with nothing executed, but the status it leaves is \<open>InProgress\<close>: every later call returns
  \<open>InProgress\<close>, never asks a channel again and never executes, even after the expiry.
\<close>

lemma channel_failure_strands:
  assumes "flow_record fl iid = Some r" "lr_status r = IsPending"
    and "verify_parameter_hash blake3 (lr_intent r)" "t1 < in_expires_at (lr_intent r)"
    and "channel (as_approval_request t1 (lr_intent r)) = Err e \<and> err = FeChannel e \<or>
         channel (as_approval_request t1 (lr_intent r)) = Ok d \<and> ad_intent_id d \<noteq> iid \<and> err = MismatchedDecision"
  shows "\<exists>fl'. decide_and_execute blake3 channel t1 t2 t3 iid cap fl = (fl', Err err, None) \<and>
     flow_record fl' iid = Some (r\<lparr>lr_status := IsInProgress\<rparr>) \<and>
     (\<forall>channel' u1 u2 u3. decide_and_execute blake3 channel' u1 u2 u3 iid cap fl' = (fl', Ok IsInProgress, None))"
proof -
  have c: "decide_claim blake3 t1 iid fl = (put_record iid (r\<lparr>lr_status := IsInProgress\<rparr>) fl,
      Claimed (as_approval_request t1 (lr_intent r)))"
    using assms by (simp add: decide_claim_def flow_record_def is_expired_def)
  have "decide_claim blake3 u iid (put_record iid (r\<lparr>lr_status := IsInProgress\<rparr>) fl) =
      (put_record iid (r\<lparr>lr_status := IsInProgress\<rparr>) fl, Returned (Ok IsInProgress))" for u
    by (simp add: decide_claim_def put_record_def)
  then show ?thesis using assms(5) by (auto simp: decide_and_execute_def c)
qed

text \<open>
  The prompt does not escape the keys of the parameters: one parameter whose key holds a line break
  prints exactly as two.
\<close>

lemma render_parameters_ambiguous:
  "render_parameters F [constraint_int k i, constraint_int k' j] =
   render_parameters F [constraint_int (k @ str '' = '' @ int_string i @ newline @ str ''  - '' @ k') j]"
  by (simp add: render_parameters_def constraint_int_def)

end
