(* ===== verification/Utf8.thy ===== *)
theory Utf8
  imports Prelude
begin

text \<open>
  Decoding UTF-8, as the standard library does when a file is read line by line: each character
  takes the shortest form, surrogates and values beyond U+10FFFF are refused. The encoder is
  \<open>as_bytes\<close> of the prelude; decoding inverts it on every Rust string.
\<close>

unbundle bit_operations_syntax

definition is_scalar :: "rchar \<Rightarrow> bool" where
  "is_scalar c \<longleftrightarrow> c < 0xD800 \<or> 0xE000 \<le> c \<and> c < 0x110000"

definition cont :: "u8 \<Rightarrow> nat option" where
  "cont b = (if 0x80 \<le> unat b \<and> unat b < 0xC0 then Some (unat b - 0x80) else None)"

text \<open>The value of a character, when it is not an overlong form, a surrogate or out of range.\<close>

definition scalar_from :: "nat \<Rightarrow> nat \<Rightarrow> rchar option" where
  "scalar_from least c = (if least \<le> c \<and> is_scalar c then Some c else None)"

fun utf8_next :: "u8 list \<Rightarrow> (rchar \<times> u8 list) option" where
  "utf8_next [] = None"
| "utf8_next (b # bs) =
     (let n = unat b in
      if n < 0x80 then Some (n, bs)
      else if 0xC0 \<le> n \<and> n < 0xE0 then
        (case bs of
           b1 # r \<Rightarrow> Option.bind (cont b1) (\<lambda>c1.
             map_option (\<lambda>c. (c, r)) (scalar_from 0x80 ((n - 0xC0) * 64 + c1)))
         | _ \<Rightarrow> None)
      else if 0xE0 \<le> n \<and> n < 0xF0 then
        (case bs of
           b1 # b2 # r \<Rightarrow> Option.bind (cont b1) (\<lambda>c1. Option.bind (cont b2) (\<lambda>c2.
             map_option (\<lambda>c. (c, r)) (scalar_from 0x800 ((n - 0xE0) * 4096 + c1 * 64 + c2))))
         | _ \<Rightarrow> None)
      else if 0xF0 \<le> n \<and> n < 0xF8 then
        (case bs of
           b1 # b2 # b3 # r \<Rightarrow>
             Option.bind (cont b1) (\<lambda>c1. Option.bind (cont b2) (\<lambda>c2. Option.bind (cont b3) (\<lambda>c3.
               map_option (\<lambda>c. (c, r))
                 (scalar_from 0x10000 ((n - 0xF0) * 262144 + c1 * 4096 + c2 * 64 + c3)))))
         | _ \<Rightarrow> None)
      else None)"

lemma utf8_next_shorter: "utf8_next bs = Some (c, r) \<Longrightarrow> length r < length bs"
  by (cases bs) (auto simp: Let_def bind_eq_Some_conv split: if_splits list.splits)

function from_utf8 :: "u8 list \<Rightarrow> rstring option" where
  "from_utf8 bs =
     (if bs = [] then Some []
      else case utf8_next bs of
        None \<Rightarrow> None
      | Some (c, r) \<Rightarrow> map_option (\<lambda>s. c # s) (from_utf8 r))"
  by pat_completeness auto
termination by (relation "measure length") (auto dest: utf8_next_shorter)

declare from_utf8.simps [simp del]

lemma lead_2: "n < 32 \<Longrightarrow> unat (0xC0 OR word_of_nat n :: u8) = 0xC0 + n"
  by (simp add: eval_nat_numeral less_Suc_eq) (elim disjE; simp)

lemma lead_3: "n < 16 \<Longrightarrow> unat (0xE0 OR word_of_nat n :: u8) = 0xE0 + n"
  by (simp add: eval_nat_numeral less_Suc_eq) (elim disjE; simp)

lemma lead_4: "n < 8 \<Longrightarrow> unat (0xF0 OR word_of_nat n :: u8) = 0xF0 + n"
  by (simp add: eval_nat_numeral less_Suc_eq) (elim disjE; simp)

lemma trail: "n < 64 \<Longrightarrow> unat (0x80 OR word_of_nat n :: u8) = 0x80 + n"
proof -
  assume "n < 64"
  moreover have "list_all (\<lambda>n. unat (0x80 OR word_of_nat n :: u8) = 0x80 + n) [0..<64]" by code_simp
  ultimately show ?thesis by (simp add: list_all_iff)
qed

lemma cont_trail [simp]: "n < 64 \<Longrightarrow> cont (0x80 OR word_of_nat n) = Some n"
  by (simp add: cont_def trail)

lemma unat_ascii: "c < 0x80 \<Longrightarrow> unat (word_of_nat c :: u8) = c"
  by (simp add: unat_of_nat take_bit_nat_eq_self)

lemma utf8_next_2:
  "n < 32 \<Longrightarrow> m < 64 \<Longrightarrow> utf8_next ((0xC0 OR word_of_nat n) # (0x80 OR word_of_nat m) # r)
     = map_option (\<lambda>c. (c, r)) (scalar_from 0x80 (n * 64 + m))"
  by (simp add: lead_2 Let_def)

lemma utf8_next_3:
  "n < 16 \<Longrightarrow> m < 64 \<Longrightarrow> k < 64 \<Longrightarrow>
     utf8_next ((0xE0 OR word_of_nat n) # (0x80 OR word_of_nat m) # (0x80 OR word_of_nat k) # r)
     = map_option (\<lambda>c. (c, r)) (scalar_from 0x800 (n * 4096 + m * 64 + k))"
  by (simp add: lead_3 Let_def)

lemma utf8_next_4:
  "n < 8 \<Longrightarrow> m < 64 \<Longrightarrow> k < 64 \<Longrightarrow> j < 64 \<Longrightarrow>
     utf8_next ((0xF0 OR word_of_nat n) # (0x80 OR word_of_nat m) # (0x80 OR word_of_nat k)
       # (0x80 OR word_of_nat j) # r)
     = map_option (\<lambda>c. (c, r)) (scalar_from 0x10000 (n * 262144 + m * 4096 + k * 64 + j))"
  by (simp add: lead_4 Let_def)

lemma digits_64:
  "c div 64 * 64 + c mod 64 = c"
  "c div 4096 * 4096 + c div 64 mod 64 * 64 + c mod 64 = c"
  "c div 262144 * 262144 + c div 4096 mod 64 * 4096 + c div 64 mod 64 * 64 + c mod 64 = c"
  for c :: nat
proof -
  have d: "c div 4096 = c div 64 div 64" "c div 262144 = c div 64 div 64 div 64"
    by (simp_all add: div_mult2_eq [symmetric])
  have m: "n div 64 * 64 + n mod 64 = n" for n :: nat by simp
  show "c div 64 * 64 + c mod 64 = c" by (rule m)
  show "c div 4096 * 4096 + c div 64 mod 64 * 64 + c mod 64 = c"
    using m [of c] m [of "c div 64"] unfolding d by linarith
  show "c div 262144 * 262144 + c div 4096 mod 64 * 4096 + c div 64 mod 64 * 64 + c mod 64 = c"
    using m [of c] m [of "c div 64"] m [of "c div 64 div 64"] unfolding d by linarith
qed

lemma utf8_next_char:
  assumes s: "is_scalar c"
  shows "utf8_next (utf8_char c @ r) = Some (c, r)"
proof -
  consider (one) "c < 0x80" | (two) "0x80 \<le> c" "c < 0x800" | (three) "0x800 \<le> c" "c < 0x10000"
    | (four) "0x10000 \<le> c" "c < 0x110000"
    using s unfolding is_scalar_def by linarith
  then show ?thesis
  proof cases
    case one
    then show ?thesis by (simp add: utf8_char_def unat_ascii Let_def)
  next
    case two
    then have "c div 64 < 32" by (simp add: less_mult_imp_div_less)
    then have "utf8_next (utf8_char c @ r) = map_option (\<lambda>c. (c, r)) (scalar_from 0x80 c)"
      using two utf8_next_2 [of "c div 64" "c mod 64" r] digits_64(1) [of c]
      by (simp add: utf8_char_def del: utf8_next.simps)
    then show ?thesis using two s by (simp add: scalar_from_def)
  next
    case three
    then have "c div 4096 < 16" by (simp add: less_mult_imp_div_less)
    then have "utf8_next (utf8_char c @ r) = map_option (\<lambda>c. (c, r)) (scalar_from 0x800 c)"
      using three utf8_next_3 [of "c div 4096" "c div 64 mod 64" "c mod 64" r] digits_64(2) [of c]
      by (simp add: utf8_char_def del: utf8_next.simps)
    then show ?thesis using three s by (simp add: scalar_from_def)
  next
    case four
    then have "c div 262144 < 8" by (simp add: less_mult_imp_div_less)
    then have "utf8_next (utf8_char c @ r) = map_option (\<lambda>c. (c, r)) (scalar_from 0x10000 c)"
      using four utf8_next_4 [of "c div 262144" "c div 4096 mod 64" "c div 64 mod 64" "c mod 64" r]
        digits_64(3) [of c]
      by (simp add: utf8_char_def del: utf8_next.simps)
    then show ?thesis using four s by (simp add: scalar_from_def)
  qed
qed

lemma utf8_char_not_empty [simp]: "utf8_char c \<noteq> []"
  by (simp add: utf8_char_def)

lemma from_utf8_as_bytes [simp]: "list_all is_scalar s \<Longrightarrow> from_utf8 (as_bytes s) = Some s"
proof (induction s)
  case Nil
  show ?case by (simp add: as_bytes_def from_utf8.simps)
next
  case (Cons c s)
  then show ?case
    by (subst from_utf8.simps) (simp add: as_bytes_def utf8_next_char)
qed

text \<open>An ASCII byte of the encoding is that character; a line break is never part of another one.\<close>

lemma high_or: "0x80 \<le> k \<Longrightarrow> 0x80 \<le> unat (k OR w)"
  for k w :: u8
proof -
  assume "0x80 \<le> k"
  then have "0x80 \<le> k OR w" using le_word_or2 [of k w] by (rule order_trans)
  then show ?thesis by (simp add: word_le_nat_alt)
qed

lemma utf8_char_high:
  assumes "0x80 \<le> c" "b \<in> set (utf8_char c)"
  shows "0x80 \<le> unat b"
proof -
  consider w where "b = 0xC0 OR w" | w where "b = 0xE0 OR w" | w where "b = 0xF0 OR w"
    | w where "b = 0x80 OR w"
    using assms by (auto simp: utf8_char_def split: if_splits)
  then show ?thesis by cases (simp_all add: high_or)
qed

lemma utf8_char_ascii:
  assumes n: "n < 0x80"
  shows "word_of_nat n \<in> set (utf8_char c) \<longleftrightarrow> c = n"
proof (cases "c < 0x80")
  case True
  then have "utf8_char c = [word_of_nat c]" by (simp add: utf8_char_def)
  moreover have "(word_of_nat n :: u8) = word_of_nat c \<longleftrightarrow> c = n"
    using unat_ascii [OF n] unat_ascii [OF True] by metis
  ultimately show ?thesis by simp
next
  case False
  have "\<not> 0x80 \<le> unat (word_of_nat n :: u8)" unfolding unat_ascii [OF n] using n by simp
  then have "word_of_nat n \<notin> set (utf8_char c)" using utf8_char_high False not_less by blast
  then show ?thesis using False n by blast
qed

lemma as_bytes_ascii: "n < 0x80 \<Longrightarrow> word_of_nat n \<in> set (as_bytes s) \<longleftrightarrow> n \<in> set s"
  by (induction s) (auto simp: as_bytes_def utf8_char_ascii)

lemma as_bytes_append [simp]: "as_bytes (a @ b) = as_bytes a @ as_bytes b"
  by (simp add: as_bytes_def)

end
