(* ===== verification/AuditLog.thy ===== *)
theory AuditLog
  imports Approval Utf8
begin

text \<open>
  The append-only, hash-chained audit log, \<open>axiom-gateway/src/audit.rs\<close>: one JSON line per entry,
  every entry carrying the hash of the one before it. The log file is the list of its bytes; a write
  may fail after any number of bytes, and the final synchronisation may fail after all of them.

  Parameters (\<open>audit_libs\<close>): BLAKE3, the hex crate, and serde_json's conversions of an entry and of its
  hashed part. The wall clock and the monotonic clock are arguments.
\<close>

section \<open>Entries\<close>

definition GENESIS_HASH :: "u8 list" where "GENESIS_HASH = replicate 32 0"

definition LOCAL_ADMIN_CALLER :: rstring where "LOCAL_ADMIN_CALLER = str ''local-admin''"

definition ADMIN_ENTRY_TIER :: rstring where "ADMIN_ENTRY_TIER = str ''admin''"

definition SENSITIVE_PARAM_KEY_MARKERS :: "rstring list" where
  "SENSITIVE_PARAM_KEY_MARKERS = map str
     [''password'', ''passwd'', ''secret'', ''token'', ''credential'', ''cred'',
      ''api_key'', ''apikey'', ''private_key'', ''privatekey'', ''access_key'',
      ''auth'', ''pin'', ''ssn'']"

definition is_sensitive_param_key :: "rstring \<Rightarrow> bool" where
  "is_sensitive_param_key key =
     (let lower = to_ascii_lowercase key
      in list_ex (\<lambda>marker. contains lower marker) SENSITIVE_PARAM_KEY_MARKERS)"

record audit_param =
  ap_key :: rstring
  ap_value :: rstring
  ap_redacted :: bool

definition from_constraint :: "fmt_ops \<Rightarrow> constraint \<Rightarrow> audit_param" where
  "from_constraint F c =
     (let redacted = is_sensitive_param_key (c_key c);
          v = (if redacted then str ''[REDACTED]'' else format_constraint_value F (c_value c))
      in \<lparr>ap_key = c_key c, ap_value = v, ap_redacted = redacted\<rparr>)"

record audit_decision =
  au_allowed :: bool
  au_reason :: rstring

datatype audit_outcome = Success "rstring option" | Failure rstring

record hashable_content =
  hc_sequence :: u64
  hc_timestamp_ms :: u64
  hc_caller :: rstring
  hc_capability :: rstring
  hc_tier :: rstring
  hc_parameters :: "audit_param list"
  hc_decision :: audit_decision
  hc_outcome :: "audit_outcome option"
  hc_duration_ms :: u64
  hc_intent_id :: "rstring option"
  hc_prev_hash :: rstring

record audit_entry =
  ae_sequence :: u64
  ae_timestamp_ms :: u64
  ae_caller :: rstring
  ae_capability :: rstring
  ae_tier :: rstring
  ae_parameters :: "audit_param list"
  ae_decision :: audit_decision
  ae_outcome :: "audit_outcome option"
  ae_duration_ms :: u64
  ae_intent_id :: "rstring option"
  ae_prev_hash :: rstring
  ae_entry_hash :: rstring

record audit_libs =
  al_blake3 :: "u8 list \<Rightarrow> u8 list"
  al_hex_enc :: "u8 list \<Rightarrow> rstring"
  al_hex_dec :: "rstring \<Rightarrow> u8 list option"
  al_to_vec :: "hashable_content \<Rightarrow> u8 list"
  al_to_string :: "audit_entry \<Rightarrow> rstring"
  al_from_str :: "rstring \<Rightarrow> audit_entry option"
  al_fmt :: fmt_ops

definition hashable :: "audit_entry \<Rightarrow> hashable_content" where
  "hashable e =
     \<lparr>hc_sequence = ae_sequence e, hc_timestamp_ms = ae_timestamp_ms e, hc_caller = ae_caller e,
      hc_capability = ae_capability e, hc_tier = ae_tier e, hc_parameters = ae_parameters e,
      hc_decision = ae_decision e, hc_outcome = ae_outcome e, hc_duration_ms = ae_duration_ms e,
      hc_intent_id = ae_intent_id e, hc_prev_hash = ae_prev_hash e\<rparr>"

definition recompute_entry_hash :: "audit_libs \<Rightarrow> audit_entry \<Rightarrow> u8 list" where
  "recompute_entry_hash A e = al_blake3 A (al_to_vec A (hashable e))"

definition decode_hash :: "audit_libs \<Rightarrow> rstring \<Rightarrow> u8 list option" where
  "decode_hash A s =
     Option.bind (al_hex_dec A s) (\<lambda>bytes. if length bytes = 32 then Some bytes else None)"

section \<open>Verification\<close>

text \<open>The reason of a corrupt entry, without its message text.\<close>

datatype corrupt_detail = CouldNotOpen | ReadError | NotAnEntry | BadEntryHash | BadPrevHash

datatype audit_chain_break =
  CorruptEntry u64 corrupt_detail
| ContentTampered u64
| ChainLinkBroken u64 rstring rstring
| SequenceGap u64 u64 u64

record chain_state =
  cs_entries :: u64
  cs_last_hash :: "u8 list"

text \<open>
  \<open>BufRead::lines\<close>: a line ends at a line feed, which is dropped together with a carriage return before it;
  a last line without line feed is kept as it is.
\<close>

definition strip_cr :: "u8 list \<Rightarrow> u8 list" where
  "strip_cr l = (if l \<noteq> [] \<and> last l = 13 then butlast l else l)"

fun read_lines :: "u8 list \<Rightarrow> u8 list \<Rightarrow> u8 list list" where
  "read_lines cur [] = (if cur = [] then [] else [cur])"
| "read_lines cur (b # bs) =
     (if b = 10 then strip_cr cur # read_lines [] bs else read_lines (cur @ [b]) bs)"

definition verify_entry ::
    "audit_libs \<Rightarrow> u8 list \<Rightarrow> u64 \<Rightarrow> audit_entry \<Rightarrow> (u8 list, audit_chain_break) result" where
  "verify_entry A expected_prev expected_sequence e =
     (case decode_hash A (ae_entry_hash e) of
        None \<Rightarrow> Err (CorruptEntry expected_sequence BadEntryHash)
      | Some recorded_hash \<Rightarrow>
          if recompute_entry_hash A e \<noteq> recorded_hash then Err (ContentTampered expected_sequence)
          else case decode_hash A (ae_prev_hash e) of
            None \<Rightarrow> Err (CorruptEntry expected_sequence BadPrevHash)
          | Some found_prev \<Rightarrow>
              if found_prev \<noteq> expected_prev
              then Err (ChainLinkBroken expected_sequence (al_hex_enc A expected_prev) (ae_prev_hash e))
              else if ae_sequence e \<noteq> expected_sequence
              then Err (SequenceGap expected_sequence expected_sequence (ae_sequence e))
              else Ok recorded_hash)"

definition parse_line :: "audit_libs \<Rightarrow> u64 \<Rightarrow> u8 list \<Rightarrow> (audit_entry, audit_chain_break) result" where
  "parse_line A idx line =
     (case from_utf8 line of
        None \<Rightarrow> Err (CorruptEntry idx ReadError)
      | Some s \<Rightarrow>
          (case al_from_str A s of
             None \<Rightarrow> Err (CorruptEntry idx NotAnEntry)
           | Some e \<Rightarrow> Ok e))"

fun verify_lines ::
    "audit_libs \<Rightarrow> u8 list \<Rightarrow> u64 \<Rightarrow> u8 list list \<Rightarrow> (chain_state, audit_chain_break) result" where
  "verify_lines A expected_prev expected_sequence [] =
     Ok \<lparr>cs_entries = expected_sequence, cs_last_hash = expected_prev\<rparr>"
| "verify_lines A expected_prev expected_sequence (line # rest) =
     rbind (parse_line A expected_sequence line) (\<lambda>e.
     rbind (verify_entry A expected_prev expected_sequence e) (\<lambda>recorded_hash.
     verify_lines A recorded_hash (expected_sequence + 1) rest))"

datatype file_read = NotFound | OpenError | Contents "u8 list"

definition verify_chain :: "audit_libs \<Rightarrow> file_read \<Rightarrow> (chain_state, audit_chain_break) result" where
  "verify_chain A file =
     (case file of
        NotFound \<Rightarrow> Ok \<lparr>cs_entries = 0, cs_last_hash = GENESIS_HASH\<rparr>
      | OpenError \<Rightarrow> Err (CorruptEntry 0 CouldNotOpen)
      | Contents bs \<Rightarrow> verify_lines A GENESIS_HASH 0 (read_lines [] bs))"

section \<open>The log\<close>

datatype audit_log_error = AuditIo | AuditSerialize | ExistingLogCorrupt audit_chain_break | NotTerminal

record audit_log =
  lg_file :: "u8 list"
  lg_last_hash :: "u8 list"
  lg_next_sequence :: u64

definition file_bytes :: "file_read \<Rightarrow> u8 list" where
  "file_bytes file = (case file of Contents bs \<Rightarrow> bs | _ \<Rightarrow> [])"

text \<open>\<open>io\<close>: opening for append, reading the metadata and setting the permissions all succeed.\<close>

definition audit_open :: "audit_libs \<Rightarrow> bool \<Rightarrow> file_read \<Rightarrow> (audit_log, audit_log_error) result" where
  "audit_open A io file =
     (case verify_chain A file of
        Ok state \<Rightarrow>
          if io then Ok \<lparr>lg_file = file_bytes file, lg_last_hash = cs_last_hash state,
                         lg_next_sequence = cs_entries state\<rparr>
          else Err AuditIo
      | Err broken \<Rightarrow> Err (ExistingLogCorrupt broken)
      | Panic \<Rightarrow> Panic)"

definition log_len :: "audit_log \<Rightarrow> u64" where "log_len lg = lg_next_sequence lg"

definition log_is_empty :: "audit_log \<Rightarrow> bool" where "log_is_empty lg \<longleftrightarrow> log_len lg = 0"

text \<open>How an append goes: all bytes and the synchronisation, some bytes only, or all bytes but no synchronisation.\<close>

datatype write_outcome = WriteOk | WriteFailed nat | SyncFailed

definition append_file :: "write_outcome \<Rightarrow> u8 list \<Rightarrow> u8 list \<Rightarrow> u8 list" where
  "append_file w line file =
     file @ (case w of WriteFailed n \<Rightarrow> take n line | _ \<Rightarrow> line)"

definition build_entry ::
    "audit_libs \<Rightarrow> u64 \<Rightarrow> rstring \<Rightarrow> rstring \<Rightarrow> rstring \<Rightarrow> constraint list \<Rightarrow> audit_decision
       \<Rightarrow> audit_outcome option \<Rightarrow> nat \<Rightarrow> rstring option \<Rightarrow> audit_log \<Rightarrow> audit_entry" where
  "build_entry A now_ms caller capability tr parameters decision outcome duration iid lg =
     (let entry =
        \<lparr>ae_sequence = lg_next_sequence lg, ae_timestamp_ms = now_ms, ae_caller = caller,
         ae_capability = capability, ae_tier = tr,
         ae_parameters = map (from_constraint (al_fmt A)) parameters, ae_decision = decision,
         ae_outcome = outcome, ae_duration_ms = of_nat (duration div 1000000), ae_intent_id = iid,
         ae_prev_hash = al_hex_enc A (lg_last_hash lg), ae_entry_hash = []\<rparr>
      in entry\<lparr>ae_entry_hash := al_hex_enc A (recompute_entry_hash A entry)\<rparr>)"

definition append_entry ::
    "audit_libs \<Rightarrow> write_outcome \<Rightarrow> audit_entry \<Rightarrow> audit_log \<Rightarrow> audit_log \<times> (unit, audit_log_error) result" where
  "append_entry A w e lg =
     (let written = lg\<lparr>lg_file := append_file w (as_bytes (al_to_string A e) @ [10]) (lg_file lg)\<rparr>
      in case w of
           WriteOk \<Rightarrow> (written\<lparr>lg_last_hash := recompute_entry_hash A e,
                               lg_next_sequence := lg_next_sequence lg + 1\<rparr>, Ok ())
         | _ \<Rightarrow> (written, Err AuditIo))"

definition log_record ::
    "audit_libs \<Rightarrow> write_outcome \<Rightarrow> u64 \<Rightarrow> rstring \<Rightarrow> rstring \<Rightarrow> rstring \<Rightarrow> constraint list
       \<Rightarrow> audit_decision \<Rightarrow> audit_outcome option \<Rightarrow> nat \<Rightarrow> rstring option \<Rightarrow> audit_log
       \<Rightarrow> audit_log \<times> (unit, audit_log_error) result" where
  "log_record A w now_ms caller capability tr parameters decision outcome duration iid lg =
     append_entry A w
       (build_entry A now_ms caller capability tr parameters decision outcome duration iid lg) lg"

definition tier1_decision :: audit_decision where
  "tier1_decision =
     \<lparr>au_allowed = True,
      au_reason = str ''capability policy allowlist/rate-limit/concurrency check already passed; Tier 1 requires mandatory full-context audit logging on every call, with no separate approval gate''\<rparr>"

definition log_tier1_call ::
    "audit_libs \<Rightarrow> write_outcome \<Rightarrow> u64 \<Rightarrow> node_id \<Rightarrow> rstring \<Rightarrow> constraint list
       \<Rightarrow> rstring + rstring option \<Rightarrow> nat \<Rightarrow> audit_log
       \<Rightarrow> audit_log \<times> (unit, audit_log_error) result" where
  "log_tier1_call A w now_ms caller capability parameters out duration lg =
     (let outcome = Some (case out of Inr detail \<Rightarrow> Success detail | Inl detail \<Rightarrow> Failure detail)
      in log_record A w now_ms (al_hex_enc A (node_id_bytes caller)) capability (tier_as_str Tier1)
           parameters tier1_decision outcome duration None lg)"

definition log_admin_event ::
    "audit_libs \<Rightarrow> write_outcome \<Rightarrow> u64 \<Rightarrow> rstring \<Rightarrow> rstring option \<Rightarrow> nat \<Rightarrow> audit_log
       \<Rightarrow> audit_log \<times> (unit, audit_log_error) result" where
  "log_admin_event A w now_ms action detail duration lg =
     log_record A w now_ms LOCAL_ADMIN_CALLER action ADMIN_ENTRY_TIER []
       \<lparr>au_allowed = True,
        au_reason = str ''local admin action '' @ [39] @ action @ [39]
          @ str '' via forge-node'' @ [39]
          @ str ''s control socket (physical/SSH access to the box is the authentication boundary)''\<rparr>
       (Some (Success detail)) duration None lg"

definition channel_name :: "linked_record \<Rightarrow> rstring" where
  "channel_name r = (case lr_decision r of Some d \<Rightarrow> ad_channel_name d | None \<Rightarrow> str ''unknown channel'')"

text \<open>The decision, outcome and duration a linked record is logged with.\<close>

definition tier2_summary ::
    "nat \<Rightarrow> linked_record \<Rightarrow> (audit_decision \<times> audit_outcome option \<times> nat, audit_log_error) result" where
  "tier2_summary now r =
     (let waited = now - in_submitted_at (lr_intent r);
          refused = (\<lambda>reason. Ok (\<lparr>au_allowed = False, au_reason = reason\<rparr>, None, waited));
          executed = (case lr_execution r of
              None \<Rightarrow> Err NotTerminal
            | Some x \<Rightarrow>
                Ok (\<lparr>au_allowed = True, au_reason = str ''approved by '' @ channel_name r\<rparr>,
                    Some (case ex_outcome x of Inr detail \<Rightarrow> Success (Some detail) | Inl detail \<Rightarrow> Failure detail),
                    ex_executed_at x - in_submitted_at (lr_intent r)))
      in case lr_status r of
           IsPending \<Rightarrow> Err NotTerminal
         | IsInProgress \<Rightarrow> Err NotTerminal
         | IsDenied \<Rightarrow> refused (str ''denied by '' @ channel_name r)
         | IsExpired \<Rightarrow> refused (str ''expired before an approval decision was reached'')
         | IsParameterHashMismatch \<Rightarrow> refused (str ''parameters drifted from the hash captured at proposal time - rejected rather than approved against parameters that no longer match what was hashed'')
         | IsExecuted \<Rightarrow> executed
         | IsExecutionFailed \<Rightarrow> executed)"

definition log_tier2_linked_record ::
    "audit_libs \<Rightarrow> write_outcome \<Rightarrow> u64 \<Rightarrow> nat \<Rightarrow> linked_record \<Rightarrow> audit_log
       \<Rightarrow> audit_log \<times> (unit, audit_log_error) result" where
  "log_tier2_linked_record A w now_ms now r lg =
     (case tier2_summary now r of
        Err e \<Rightarrow> (lg, Err e)
      | Panic \<Rightarrow> (lg, Panic)
      | Ok (decision, outcome, duration) \<Rightarrow>
          log_record A w now_ms (al_hex_enc A (node_id_bytes (in_proposer (lr_intent r))))
            (in_capability (lr_intent r)) (tier_as_str Tier2) (in_parameters (lr_intent r))
            decision outcome duration (Some (al_hex_enc A (intent_id_bytes (in_id (lr_intent r))))) lg)"

section \<open>Reading back what was written\<close>

text \<open>The documented behaviour of the libraries this rests on.\<close>

definition hash_laws :: "audit_libs \<Rightarrow> bool" where
  "hash_laws A \<longleftrightarrow> (\<forall>m. length (al_blake3 A m) = 32) \<and> (\<forall>b. al_hex_dec A (al_hex_enc A b) = Some b)"

text \<open>
  serde_json reads back what it wrote for this entry; the line holds no control characters (they
  are escaped) and is a Rust string.
\<close>

definition json_ok :: "audit_libs \<Rightarrow> audit_entry \<Rightarrow> bool" where
  "json_ok A e \<longleftrightarrow> al_from_str A (al_to_string A e) = Some e \<and> list_all is_scalar (al_to_string A e) \<and>
     10 \<notin> set (al_to_string A e) \<and> 13 \<notin> set (al_to_string A e)"

definition entry_line :: "audit_libs \<Rightarrow> audit_entry \<Rightarrow> u8 list" where
  "entry_line A e = as_bytes (al_to_string A e)"

definition file_of :: "audit_libs \<Rightarrow> audit_entry list \<Rightarrow> u8 list" where
  "file_of A es = concat (map (\<lambda>e. entry_line A e @ [10]) es)"

lemma read_lines_line: "10 \<notin> set l \<Longrightarrow> read_lines cur (l @ 10 # bs) = strip_cr (cur @ l) # read_lines [] bs"
  by (induction l arbitrary: cur) simp_all

lemma read_lines_last: "10 \<notin> set l \<Longrightarrow> read_lines cur l = (if cur @ l = [] then [] else [cur @ l])"
  by (induction l arbitrary: cur) simp_all

lemma byte_of_char: "(10 :: u8) = word_of_nat 10" "(13 :: u8) = word_of_nat 13"
  by simp_all

lemma entry_line_chars:
  assumes "json_ok A e"
  shows "10 \<notin> set (entry_line A e)" "strip_cr (entry_line A e) = entry_line A e"
proof -
  have "10 \<notin> set (entry_line A e)" "13 \<notin> set (entry_line A e)"
    using assms as_bytes_ascii [of 10 "al_to_string A e"] as_bytes_ascii [of 13 "al_to_string A e"]
    unfolding entry_line_def byte_of_char json_ok_def by auto
  then show "10 \<notin> set (entry_line A e)" "strip_cr (entry_line A e) = entry_line A e"
    by (auto simp: strip_cr_def dest: last_in_set)
qed

lemma read_lines_file:
  "\<forall>e \<in> set es. json_ok A e \<Longrightarrow> read_lines [] (file_of A es @ rest) = map (entry_line A) es @ read_lines [] rest"
  by (induction es) (simp_all add: file_of_def read_lines_line entry_line_chars)

lemma parse_entry_line [simp]: "json_ok A e \<Longrightarrow> parse_line A n (entry_line A e) = Ok e"
  by (simp add: parse_line_def entry_line_def json_ok_def)

text \<open>Verification of the entries themselves; the lines of a written file reduce to it.\<close>

fun verify_entries ::
    "audit_libs \<Rightarrow> u8 list \<Rightarrow> u64 \<Rightarrow> audit_entry list \<Rightarrow> (chain_state, audit_chain_break) result" where
  "verify_entries A h n [] = Ok \<lparr>cs_entries = n, cs_last_hash = h\<rparr>"
| "verify_entries A h n (e # es) =
     rbind (verify_entry A h n e) (\<lambda>h'. verify_entries A h' (n + 1) es)"

lemma rbind_assoc: "rbind (rbind r f) g = rbind r (\<lambda>x. rbind (f x) g)"
  by (cases r) simp_all

lemma rbind_Ok_right: "rbind r (\<lambda>st. Ok \<lparr>cs_entries = cs_entries st, cs_last_hash = cs_last_hash st\<rparr>) = r"
  by (cases r) simp_all

lemma verify_lines_entries:
  "\<forall>e \<in> set es. json_ok A e \<Longrightarrow>
     verify_lines A h n (map (entry_line A) es @ ls) =
     rbind (verify_entries A h n es) (\<lambda>st. verify_lines A (cs_last_hash st) (cs_entries st) ls)"
  by (induction es arbitrary: h n) (simp_all add: rbind_assoc)

lemma verify_file:
  "\<forall>e \<in> set es. json_ok A e \<Longrightarrow> verify_chain A (Contents (file_of A es)) = verify_entries A GENESIS_HASH 0 es"
  using read_lines_file [of es A "[]"] verify_lines_entries [of es A GENESIS_HASH 0 "[]"]
  by (simp add: verify_chain_def rbind_Ok_right)

lemma verify_entries_append:
  "verify_entries A h n (es @ es') =
     rbind (verify_entries A h n es) (\<lambda>st. verify_entries A (cs_last_hash st) (cs_entries st) es')"
  by (induction es arbitrary: h n) (simp_all add: rbind_assoc)

section \<open>The chain grows and reopens\<close>

lemma hashable_entry_hash [simp]: "hashable (e\<lparr>ae_entry_hash := h\<rparr>) = hashable e"
  by (simp add: hashable_def)

lemma recompute_entry_hash_entry [simp]:
  "recompute_entry_hash A (e\<lparr>ae_entry_hash := h\<rparr>) = recompute_entry_hash A e"
  by (simp add: recompute_entry_hash_def)

lemma length_recompute: "hash_laws A \<Longrightarrow> length (recompute_entry_hash A e) = 32"
  by (simp add: hash_laws_def recompute_entry_hash_def)

lemma decode_hash_enc: "hash_laws A \<Longrightarrow> length h = 32 \<Longrightarrow> decode_hash A (al_hex_enc A h) = Some h"
  by (simp add: decode_hash_def hash_laws_def)

lemma build_entry_fields:
  assumes "e = build_entry A now caller cap tr ps d out dur iid lg"
  shows "ae_entry_hash e = al_hex_enc A (recompute_entry_hash A e)"
    "ae_prev_hash e = al_hex_enc A (lg_last_hash lg)" "ae_sequence e = lg_next_sequence lg"
  using assms by (simp_all add: build_entry_def Let_def recompute_entry_hash_def hashable_def)

lemma verify_built:
  assumes "hash_laws A" "length (lg_last_hash lg) = 32"
    and e: "e = build_entry A now caller cap tr ps d out dur iid lg"
  shows "verify_entry A (lg_last_hash lg) (lg_next_sequence lg) e = Ok (recompute_entry_hash A e)"
  using assms(1,2) by (simp add: verify_entry_def build_entry_fields [OF e] decode_hash_enc length_recompute)

text \<open>Appends to the log and reopening it, as one node does them.\<close>

definition log_start :: "audit_libs \<Rightarrow> audit_log \<Rightarrow> bool" where
  "log_start A lg \<longleftrightarrow> audit_open A True NotFound = Ok lg"

inductive log_step :: "audit_libs \<Rightarrow> audit_log \<Rightarrow> audit_log \<Rightarrow> bool" for A :: audit_libs where
  log_append:
    "log_record A WriteOk now caller cap tr ps d out dur iid lg = (lg', Ok ()) \<Longrightarrow>
     json_ok A (build_entry A now caller cap tr ps d out dur iid lg) \<Longrightarrow> log_step A lg lg'"
| log_reopen:
    "audit_open A io (Contents (lg_file lg)) = Ok lg' \<Longrightarrow> log_step A lg lg'"

text \<open>The file is the lines of a chain that verifies up to the writer's state.\<close>

definition log_inv :: "audit_libs \<Rightarrow> audit_log \<Rightarrow> bool" where
  "log_inv A lg \<longleftrightarrow> (hash_laws A \<longrightarrow>
     length (lg_last_hash lg) = 32 \<and>
     (\<exists>es. (\<forall>e \<in> set es. json_ok A e) \<and> lg_file lg = file_of A es \<and>
        verify_entries A GENESIS_HASH 0 es
          = Ok \<lparr>cs_entries = lg_next_sequence lg, cs_last_hash = lg_last_hash lg\<rparr>))"

lemma log_inv_verify:
  "log_inv A lg \<Longrightarrow> hash_laws A \<Longrightarrow> verify_chain A (Contents (lg_file lg))
     = Ok \<lparr>cs_entries = lg_next_sequence lg, cs_last_hash = lg_last_hash lg\<rparr>"
  by (auto simp: log_inv_def verify_file)

lemma log_inv_start: "log_start A lg \<Longrightarrow> log_inv A lg"
  by (auto simp: log_start_def audit_open_def verify_chain_def log_inv_def file_bytes_def GENESIS_HASH_def
      file_of_def intro!: exI [of _ "[]"])

lemma log_inv_append:
  assumes inv: "log_inv A lg" and json: "json_ok A e"
    and e: "e = build_entry A now caller cap tr ps d out dur iid lg"
    and step: "append_entry A WriteOk e lg = (lg', Ok ())"
  shows "log_inv A lg'"
  unfolding log_inv_def
proof
  assume laws: "hash_laws A"
  obtain es where es: "\<forall>e \<in> set es. json_ok A e" "lg_file lg = file_of A es"
      "verify_entries A GENESIS_HASH 0 es
         = Ok \<lparr>cs_entries = lg_next_sequence lg, cs_last_hash = lg_last_hash lg\<rparr>"
      and len: "length (lg_last_hash lg) = 32"
    using inv laws by (auto simp: log_inv_def)
  have lg': "lg_file lg' = file_of A (es @ [e])" "lg_last_hash lg' = recompute_entry_hash A e"
      "lg_next_sequence lg' = lg_next_sequence lg + 1"
    using step es(2) by (auto simp: append_entry_def Let_def append_file_def file_of_def entry_line_def)
  have "verify_entries A GENESIS_HASH 0 (es @ [e])
      = Ok \<lparr>cs_entries = lg_next_sequence lg', cs_last_hash = lg_last_hash lg'\<rparr>"
    using es(3) verify_built [OF laws len e] by (simp add: verify_entries_append lg')
  then show "length (lg_last_hash lg') = 32 \<and>
     (\<exists>es. (\<forall>e \<in> set es. json_ok A e) \<and> lg_file lg' = file_of A es \<and>
        verify_entries A GENESIS_HASH 0 es
          = Ok \<lparr>cs_entries = lg_next_sequence lg', cs_last_hash = lg_last_hash lg'\<rparr>)"
    using es(1) json lg' length_recompute [OF laws] by (intro conjI exI [of _ "es @ [e]"]) auto
qed

lemma audit_open_same:
  assumes "log_inv A lg" "hash_laws A" "audit_open A io (Contents (lg_file lg)) = Ok lg'"
  shows "lg' = lg"
  using assms(3) log_inv_verify [OF assms(1,2)]
  by (cases lg) (auto simp: audit_open_def file_bytes_def split: if_splits)

lemma log_inv_step: "log_inv A lg \<Longrightarrow> log_step A lg lg' \<Longrightarrow> log_inv A lg'"
proof (erule log_step.cases, goal_cases)
  case (1 now caller cap tr ps d out dur iid lga lga')
  then show ?case by (auto simp: log_record_def intro: log_inv_append)
next
  case (2 io lga lga')
  then show ?case using audit_open_same [of A lg io lg'] by (auto simp: log_inv_def)
qed

interpretation alog: state_machine "log_start A" "log_step A" "log_inv A" for A
  by unfold_locales (blast intro: log_inv_start log_inv_step)+

section \<open>What the last hash commits to\<close>

text \<open>The entries of a file, as the verifier parses them.\<close>

definition chain_entries :: "audit_libs \<Rightarrow> u8 list \<Rightarrow> audit_entry list" where
  "chain_entries A bs =
     concat (map (\<lambda>l. case parse_line A 0 l of Ok e \<Rightarrow> [e] | _ \<Rightarrow> []) (read_lines [] bs))"

lemma parse_line_index: "parse_line A n l = Ok e \<Longrightarrow> parse_line A m l = Ok e"
  by (auto simp: parse_line_def split: option.splits)

lemma verify_lines_parsed:
  "verify_lines A h n ls = Ok st \<Longrightarrow>
     verify_entries A h n (concat (map (\<lambda>l. case parse_line A 0 l of Ok e \<Rightarrow> [e] | _ \<Rightarrow> []) ls)) = Ok st"
proof (induction ls arbitrary: h n)
  case (Cons l ls)
  then obtain e h' where e: "parse_line A n l = Ok e" "verify_entry A h n e = Ok h'"
      "verify_lines A h' (n + 1) ls = Ok st"
    by (auto simp: rbind_Ok_iff)
  then show ?case using Cons.IH [OF e(3)] parse_line_index [OF e(1), of 0] by simp
qed simp

lemma verify_chain_entries:
  "verify_chain A (Contents bs) = Ok st \<Longrightarrow> verify_entries A GENESIS_HASH 0 (chain_entries A bs) = Ok st"
  using verify_lines_parsed by (auto simp: verify_chain_def chain_entries_def)

lemma verify_entries_count:
  "verify_entries A h n es = Ok st \<Longrightarrow> cs_entries st = n + of_nat (length es)"
  by (induction es arbitrary: h n) (auto simp: rbind_Ok_iff algebra_simps)

lemma verify_entry_ok:
  "verify_entry A h n e = Ok h' \<Longrightarrow>
     h' = recompute_entry_hash A e \<and> decode_hash A (ae_prev_hash e) = Some h \<and> ae_sequence e = n"
  by (auto simp: verify_entry_def split: option.splits if_splits)

lemma verify_entries_snoc:
  assumes "verify_entries A h n (es @ [e]) = Ok st"
  shows "cs_last_hash st = recompute_entry_hash A e \<and>
    (\<exists>st'. verify_entries A h n es = Ok st' \<and> decode_hash A (ae_prev_hash e) = Some (cs_last_hash st'))"
  using assms by (auto simp: verify_entries_append rbind_Ok_iff dest!: verify_entry_ok)

text \<open>No two different contents among these entries have the same hash.\<close>

definition collision_free :: "audit_libs \<Rightarrow> audit_entry set \<Rightarrow> bool" where
  "collision_free A E \<longleftrightarrow> inj_on (\<lambda>c. al_blake3 A (al_to_vec A c)) (hashable ` E)"

lemma collision_freeD:
  "collision_free A E \<Longrightarrow> e \<in> E \<Longrightarrow> e' \<in> E \<Longrightarrow> recompute_entry_hash A e = recompute_entry_hash A e' \<Longrightarrow>
     hashable e = hashable e'"
  by (auto simp: collision_free_def recompute_entry_hash_def dest: inj_onD)

lemma commit_aux:
  assumes "length es = length es'" "verify_entries A h n es = Ok st" "verify_entries A h n es' = Ok st'"
    and "cs_last_hash st = cs_last_hash st'" "collision_free A (set es \<union> set es')"
  shows "map hashable es = map hashable es'"
  using assms
proof (induction es arbitrary: es' st st' rule: rev_induct)
  case (snoc e es)
  then obtain f fs where f: "es' = fs @ [f]" "length es = length fs"
    by (cases es' rule: rev_cases) auto
  note v = verify_entries_snoc [OF snoc.prems(2)] verify_entries_snoc [OF snoc.prems(3) [unfolded f(1)]]
  have same: "hashable e = hashable f"
    using collision_freeD [OF snoc.prems(5), of e f] v snoc.prems(4) f(1) by simp
  then have prev: "ae_prev_hash e = ae_prev_hash f" by (simp add: hashable_def)
  obtain s t where st: "verify_entries A h n es = Ok s" "verify_entries A h n fs = Ok t"
      "cs_last_hash s = cs_last_hash t"
    using v prev by auto
  have "collision_free A (set es \<union> set fs)"
    using snoc.prems(5) f(1) unfolding collision_free_def by (rule_tac inj_on_subset) auto
  then have "map hashable es = map hashable fs" using snoc.IH [OF f(2) st] by blast
  then show ?case using same f(1) by simp
qed simp

section \<open>Properties\<close>

text \<open>A log with one administrative entry, and a second one after it.\<close>

definition sample_libs_base :: audit_libs where
  "sample_libs_base =
     \<lparr>al_blake3 = (\<lambda>m. take 32 (m @ replicate 32 0)), al_hex_enc = hex_encode, al_hex_dec = hex_decode,
      al_to_vec = (\<lambda>c. [ucast (hc_sequence c) + 1]), al_to_string = (\<lambda>e. [123, 65 + length (ae_capability e)]),
      al_from_str = (\<lambda>_. None), al_fmt = plain_fmt\<rparr>"

definition sample_log_0 :: audit_log where
  "sample_log_0 = \<lparr>lg_file = [], lg_last_hash = GENESIS_HASH, lg_next_sequence = 0\<rparr>"

definition sample_entry :: "rstring \<Rightarrow> audit_log \<Rightarrow> audit_entry" where
  "sample_entry cap lg = build_entry sample_libs_base 1000 LOCAL_ADMIN_CALLER cap ADMIN_ENTRY_TIER []
     tier1_decision None 0 None lg"

definition sample_libs :: audit_libs where
  "sample_libs = sample_libs_base\<lparr>al_from_str := (\<lambda>s.
     if s = [123, 66] then Some (sample_entry (str ''a'') sample_log_0)
     else if s = [123, 67] then Some (sample_entry (str ''bb'') sample_log_0) else None)\<rparr>"

definition sample_log_1 :: audit_log where
  "sample_log_1 = fst (append_entry sample_libs WriteOk (sample_entry (str ''a'') sample_log_0) sample_log_0)"

lemma sample_laws: "hash_laws sample_libs"
  by (auto simp: hash_laws_def sample_libs_def sample_libs_base_def min_def)

lemma sample_build:
  "build_entry sample_libs 1000 LOCAL_ADMIN_CALLER cap ADMIN_ENTRY_TIER [] tier1_decision None 0 None lg
     = sample_entry cap lg"
  by (simp add: sample_entry_def build_entry_def Let_def sample_libs_def recompute_entry_hash_def)

lemma sample_entry_capability: "ae_capability (sample_entry cap lg) = cap"
  by (simp add: sample_entry_def build_entry_def Let_def)

lemma sample_json:
  "json_ok sample_libs (sample_entry (str ''a'') sample_log_0)"
  "json_ok sample_libs (sample_entry (str ''bb'') sample_log_0)"
  by (simp_all add: json_ok_def sample_libs_def sample_libs_base_def sample_entry_capability str_def is_scalar_def)

lemma sample_started: "log_start sample_libs sample_log_0"
  by (simp add: log_start_def audit_open_def verify_chain_def sample_log_0_def file_bytes_def)

lemma sample_reaches_0: "reaches (log_start sample_libs) (log_step sample_libs) sample_log_0"
  by (rule reaches_start) (rule sample_started)

lemma sample_appended:
  "log_record sample_libs WriteOk 1000 LOCAL_ADMIN_CALLER (str ''a'') ADMIN_ENTRY_TIER [] tier1_decision None 0 None
     sample_log_0 = (sample_log_1, Ok ())"
  by (simp add: log_record_def sample_build sample_log_1_def append_entry_def Let_def)

lemma sample_reaches_1: "reaches (log_start sample_libs) (log_step sample_libs) sample_log_1"
  by (rule reaches_step [OF sample_reaches_0], rule log_append [OF sample_appended])
    (simp add: sample_build sample_json)

text \<open>
  C3: whatever is logged and however often the log is reopened, as long as the writes succeed the
  file verifies, the verifier counts exactly the entries written and ends at the writer's hash,
  and reopening the file resumes with exactly the writer's state.
\<close>

theorem audit_chain_verifies:
  assumes "hash_laws A" "reaches (log_start A) (log_step A) lg"
  shows "verify_chain A (Contents (lg_file lg)) = Ok \<lparr>cs_entries = log_len lg, cs_last_hash = lg_last_hash lg\<rparr> \<and>
         audit_open A True (Contents (lg_file lg)) = Ok lg"
proof -
  have inv: "log_inv A lg" by (rule alog.inv_reaches [OF assms(2)])
  show ?thesis
    using log_inv_verify [OF inv assms(1)]
    by (cases lg) (simp add: log_len_def audit_open_def file_bytes_def)
qed

theorem audit_chain_verifies_witness:
  "verify_chain sample_libs (Contents (lg_file sample_log_1))
     = Ok \<lparr>cs_entries = 1, cs_last_hash = lg_last_hash sample_log_1\<rparr>"
  using audit_chain_verifies [OF sample_laws sample_reaches_1]
  by (simp add: log_len_def sample_log_1_def append_entry_def Let_def sample_log_0_def)

lemma unat_u64_of_nat: "n < 2 ^ 64 \<Longrightarrow> unat (of_nat n :: u64) = n"
  by (simp add: unat_of_nat take_bit_nat_eq_self)

text \<open>
  C4: the count and the last hash of a verified log commit to everything in it. Two files, however
  they were edited, that both verify to the same count and last hash hold entries with the same
  content, field by field and in the same order, unless the hash function collides on them. So
  with the last hash kept elsewhere no entry can be changed, dropped, inserted or reordered.
\<close>

theorem last_hash_commits:
  assumes "verify_chain A (Contents f) = Ok st" "verify_chain A (Contents g) = Ok st"
    and "collision_free A (set (chain_entries A f) \<union> set (chain_entries A g))"
    and "length (chain_entries A f) < 2 ^ 64" "length (chain_entries A g) < 2 ^ 64"
  shows "map hashable (chain_entries A f) = map hashable (chain_entries A g)"
proof -
  note v = verify_chain_entries [OF assms(1)] verify_chain_entries [OF assms(2)]
  have "(of_nat (length (chain_entries A f)) :: u64) = of_nat (length (chain_entries A g))"
    using verify_entries_count [OF v(1)] verify_entries_count [OF v(2)] by simp
  then have "length (chain_entries A f) = length (chain_entries A g)"
    using unat_u64_of_nat [OF assms(4)] unat_u64_of_nat [OF assms(5)] by metis
  then show ?thesis using commit_aux [OF _ v refl assms(3)] by blast
qed

definition sample_line :: "u8 list" where
  "sample_line = entry_line sample_libs (sample_entry (str ''a'') sample_log_0)"

lemma sample_line_read:
  "read_lines [] (sample_line @ [10]) = [sample_line]" "read_lines [] (sample_line @ [13, 10]) = [sample_line]"
  using entry_line_chars [OF sample_json(1)] read_lines_line [of sample_line "[]" "[]"]
    read_lines_line [of "sample_line @ [13]" "[]" "[]"]
  by (simp_all add: sample_line_def strip_cr_def)

lemma sample_entries:
  "chain_entries sample_libs (sample_line @ [10]) = [sample_entry (str ''a'') sample_log_0]"
  "chain_entries sample_libs (sample_line @ [13, 10]) = [sample_entry (str ''a'') sample_log_0]"
  unfolding chain_entries_def sample_line_read using parse_entry_line [OF sample_json(1)]
  by (simp_all add: sample_line_def)

lemma sample_log_1_file: "lg_file sample_log_1 = sample_line @ [10]"
  by (simp add: sample_log_1_def append_entry_def Let_def append_file_def sample_line_def entry_line_def sample_log_0_def)

lemma sample_verified:
  "verify_chain sample_libs (Contents (sample_line @ [10]))
     = Ok \<lparr>cs_entries = 1, cs_last_hash = lg_last_hash sample_log_1\<rparr>"
  using log_inv_verify [OF alog.inv_reaches [OF sample_reaches_1] sample_laws]
  by (simp add: sample_log_1_file) (simp add: sample_log_1_def append_entry_def Let_def sample_log_0_def)

theorem last_hash_commits_witness:
  "map hashable (chain_entries sample_libs (sample_line @ [10]))
     = map hashable (chain_entries sample_libs (sample_line @ [13, 10]))"
proof (rule last_hash_commits [OF sample_verified])
  show "verify_chain sample_libs (Contents (sample_line @ [13, 10]))
     = Ok \<lparr>cs_entries = 1, cs_last_hash = lg_last_hash sample_log_1\<rparr>"
    using sample_verified by (simp add: verify_chain_def sample_line_read)
qed (simp_all add: sample_entries collision_free_def)

text \<open>
  A log cut after any entry still verifies, with the smaller count; only the count or the last hash
  tells.
\<close>

lemma truncated_log_verifies:
  assumes "\<forall>e \<in> set (es @ es'). json_ok A e" "verify_chain A (Contents (file_of A (es @ es'))) = Ok st"
  shows "\<exists>st'. verify_chain A (Contents (file_of A es)) = Ok st' \<and> cs_entries st' = of_nat (length es)"
proof -
  have "verify_entries A GENESIS_HASH 0 (es @ es') = Ok st" using assms verify_file by metis
  then obtain st' where st': "verify_entries A GENESIS_HASH 0 es = Ok st'"
    by (auto simp: verify_entries_append rbind_Ok_iff)
  then show ?thesis using assms(1) verify_file [of es A] verify_entries_count [OF st'] by auto
qed

text \<open>
  C37: the value of a sensitive parameter never reaches the log. Two calls that differ only in the
  values of parameters whose key contains, in any letter case, one of the markers (such as
  password, token or auth) leave exactly the same log, down to the bytes and the hashes.
\<close>

theorem redaction_noninterference:
  assumes "list_all2 (\<lambda>c c'. c_key c = c_key c' \<and> (c_value c = c_value c' \<or> is_sensitive_param_key (c_key c))) ps ps'"
  shows "log_record A w now caller cap tr ps d out dur iid lg = log_record A w now caller cap tr ps' d out dur iid lg"
proof -
  have "map (from_constraint (al_fmt A)) ps = map (from_constraint (al_fmt A)) ps'"
    using assms by (induction rule: list_all2_induct) (auto simp: from_constraint_def Let_def)
  then show ?thesis by (simp add: log_record_def build_entry_def)
qed

theorem redaction_noninterference_witness:
  "log_record sample_libs WriteOk 0 [] [] [] [constraint_string (str ''API_Token'') (str ''s3cret'')] tier1_decision None 0 None sample_log_0
   = log_record sample_libs WriteOk 0 [] [] [] [constraint_string (str ''API_Token'') (str ''other'')] tier1_decision None 0 None sample_log_0"
  by (rule redaction_noninterference)
    (simp add: constraint_string_def is_sensitive_param_key_def SENSITIVE_PARAM_KEY_MARKERS_def
      to_ascii_lowercase_def ascii_lower_def str_def)

text \<open>
  A failed synchronisation breaks the chain for good. If the entry reached the file but
  \<open>sync_all\<close> failed, the writer keeps its old hash and number; the next successful call then appends a second
  entry with the same predecessor, the file no longer verifies, and the log can never be opened again.
\<close>

lemma sync_failure_breaks_chain:
  assumes laws: "hash_laws A" and lg: "reaches (log_start A) (log_step A) lg"
    and e1: "e1 = build_entry A now caller cap tr ps d out dur iid lg" "json_ok A e1"
    and r1: "log_record A SyncFailed now caller cap tr ps d out dur iid lg = (lg1, res1)"
    and e2: "e2 = build_entry A now' caller' cap' tr' ps' d' out' dur' iid' lg1" "json_ok A e2"
    and r2: "log_record A WriteOk now' caller' cap' tr' ps' d' out' dur' iid' lg1 = (lg2, res2)"
    and h: "recompute_entry_hash A e1 \<noteq> lg_last_hash lg"
  shows "res1 = Err AuditIo \<and> res2 = Ok () \<and>
    audit_open A io (Contents (lg_file lg2)) = Err (ExistingLogCorrupt
      (ChainLinkBroken (log_len lg + 1) (al_hex_enc A (recompute_entry_hash A e1)) (al_hex_enc A (lg_last_hash lg))))"
proof -
  obtain es where es: "\<forall>e \<in> set es. json_ok A e" "lg_file lg = file_of A es"
      "verify_entries A GENESIS_HASH 0 es
         = Ok \<lparr>cs_entries = lg_next_sequence lg, cs_last_hash = lg_last_hash lg\<rparr>"
      and len: "length (lg_last_hash lg) = 32"
    using alog.inv_reaches [OF lg] laws by (auto simp: log_inv_def)
  have lg1: "lg1 = lg\<lparr>lg_file := file_of A (es @ [e1])\<rparr>" "res1 = Err AuditIo"
    using r1 es(2) by (auto simp: log_record_def append_entry_def e1(1) Let_def append_file_def file_of_def entry_line_def)
  have lg2: "lg_file lg2 = file_of A (es @ [e1, e2])" "res2 = Ok ()"
    using r2 by (auto simp: log_record_def append_entry_def e2(1) lg1 Let_def append_file_def file_of_def entry_line_def)
  note f2 = build_entry_fields [OF e2(1), unfolded lg1(1), simplified]
  have "verify_entry A (recompute_entry_hash A e1) (lg_next_sequence lg + 1) e2
      = Err (ChainLinkBroken (lg_next_sequence lg + 1) (al_hex_enc A (recompute_entry_hash A e1)) (al_hex_enc A (lg_last_hash lg)))"
    using h laws len by (simp add: verify_entry_def f2 decode_hash_enc length_recompute)
  then have "verify_entries A GENESIS_HASH 0 (es @ [e1, e2])
      = Err (ChainLinkBroken (lg_next_sequence lg + 1) (al_hex_enc A (recompute_entry_hash A e1)) (al_hex_enc A (lg_last_hash lg)))"
    using es(3) verify_built [OF laws len e1(1)] by (simp add: verify_entries_append)
  then show ?thesis
    using lg1(2) lg2 es(1) e1(2) e2(2) verify_file [of "es @ [e1, e2]" A]
    by (simp add: audit_open_def log_len_def)
qed

text \<open>
  A crash between the line and its line feed goes unnoticed: the file verifies and reopens with the
  entry counted, and the next entry is then glued to its line, where the two together are no JSON
  object.
\<close>

lemma torn_line_feed_corrupts:
  assumes laws: "hash_laws A" and lg: "reaches (log_start A) (log_step A) lg"
    and e1: "e1 = build_entry A now caller cap tr ps d out dur iid lg" "json_ok A e1" "al_to_string A e1 \<noteq> []"
    and crash: "lg_file lg1 = append_file (WriteFailed (length (entry_line A e1))) (entry_line A e1 @ [10]) (lg_file lg)"
    and e2: "e2 = build_entry A now' caller' cap' tr' ps' d' out' dur' iid' lg2" "json_ok A e2"
    and r2: "log_record A WriteOk now' caller' cap' tr' ps' d' out' dur' iid' lg2 = (lg3, res2)"
    and reopened: "audit_open A True (Contents (lg_file lg1)) = Ok lg2"
    and glued: "al_from_str A (al_to_string A e1 @ al_to_string A e2) = None"
  shows "log_len lg2 = log_len lg + 1"
    and "verify_chain A (Contents (lg_file lg3)) = Err (CorruptEntry (log_len lg) NotAnEntry)"
proof -
  obtain es where es: "\<forall>e \<in> set es. json_ok A e" "lg_file lg = file_of A es"
      "verify_entries A GENESIS_HASH 0 es
         = Ok \<lparr>cs_entries = lg_next_sequence lg, cs_last_hash = lg_last_hash lg\<rparr>"
      and len: "length (lg_last_hash lg) = 32"
    using alog.inv_reaches [OF lg] laws by (auto simp: log_inv_def)
  have line: "entry_line A e1 \<noteq> []" using e1(3) by (auto simp: entry_line_def as_bytes_def neq_Nil_conv)
  have f1: "lg_file lg1 = file_of A es @ entry_line A e1" using crash es(2) by (simp add: append_file_def)
  have rd: "read_lines [] (lg_file lg1) = map (entry_line A) es @ [entry_line A e1]"
    using read_lines_file [OF es(1), of "entry_line A e1"] read_lines_last [of "entry_line A e1" "[]"]
      entry_line_chars(1) [OF e1(2)] line by (simp add: f1)
  have "verify_chain A (Contents (lg_file lg1)) = Ok \<lparr>cs_entries = lg_next_sequence lg + 1,
      cs_last_hash = recompute_entry_hash A e1\<rparr>"
    using verify_lines_entries [OF es(1), of GENESIS_HASH 0 "[entry_line A e1]"] verify_built [OF laws len e1(1)]
      parse_entry_line [OF e1(2)]
    by (simp add: verify_chain_def rd es(3))
  then have lg2: "lg_file lg2 = lg_file lg1" "lg_next_sequence lg2 = lg_next_sequence lg + 1"
    using reopened by (auto simp: audit_open_def file_bytes_def)
  then show "log_len lg2 = log_len lg + 1" by (simp add: log_len_def)
  have f3: "lg_file lg3 = file_of A es @ (entry_line A e1 @ entry_line A e2) @ [10]"
    using r2 lg2(1) f1 by (auto simp: log_record_def append_entry_def Let_def append_file_def e2(1) entry_line_def)
  let ?l = "entry_line A e1 @ entry_line A e2"
  have "strip_cr ?l = ?l"
    using entry_line_chars(2) [OF e2(2)] entry_line_chars(2) [OF e1(2)] line
    by (cases "entry_line A e2 = []") (auto simp: strip_cr_def butlast_append split: if_splits)
  then have rd3: "read_lines [] (lg_file lg3) = map (entry_line A) es @ [?l]"
    using read_lines_file [OF es(1), of "?l @ [10]"] read_lines_line [of ?l "[]" "[]"]
      entry_line_chars(1) [OF e1(2)] entry_line_chars(1) [OF e2(2)] by (simp add: f3)
  have "from_utf8 ?l = Some (al_to_string A e1 @ al_to_string A e2)"
    using e1(2) e2(2) from_utf8_as_bytes [of "al_to_string A e1 @ al_to_string A e2"]
    by (simp add: entry_line_def json_ok_def)
  then have "parse_line A (lg_next_sequence lg) ?l = Err (CorruptEntry (lg_next_sequence lg) NotAnEntry)"
    using glued by (simp add: parse_line_def)
  then show "verify_chain A (Contents (lg_file lg3)) = Err (CorruptEntry (log_len lg) NotAnEntry)"
    using verify_lines_entries [OF es(1), of GENESIS_HASH 0 "[?l]"]
    by (simp add: verify_chain_def rd3 es(3) log_len_def)
qed

section \<open>The entry of a decided intent\<close>

lemma tier2_summary_terminal:
  assumes "terminal_status (lr_status r)" "executed_status (lr_status r) \<Longrightarrow> lr_execution r \<noteq> None"
  obtains d out dur where "tier2_summary now r = Ok (d, out, dur)"
    "au_allowed d \<longleftrightarrow> executed_status (lr_status r)" "out \<noteq> None \<longleftrightarrow> executed_status (lr_status r)"
proof (cases "executed_status (lr_status r)")
  case True
  then obtain x where "lr_execution r = Some x" using assms(2) by blast
  then show ?thesis using that True by (auto simp: tier2_summary_def Let_def executed_status_def)
next
  case False
  then show ?thesis
    using that assms(1) by (cases "lr_status r") (simp_all add: tier2_summary_def Let_def executed_status_def terminal_status_def)
qed

lemma tier2_summary_open: "\<not> terminal_status (lr_status r) \<Longrightarrow> tier2_summary now r = Err NotTerminal"
  by (cases "lr_status r") (simp_all add: tier2_summary_def Let_def terminal_status_def)

lemma append_entry_ok:
  "\<exists>lg'. append_entry A WriteOk e lg = (lg', Ok ()) \<and> lg_file lg' = lg_file lg @ entry_line A e @ [10]"
  by (simp add: append_entry_def Let_def append_file_def entry_line_def)

end
