(* ===== verification/Strings.thy ===== *)
theory Strings
  imports Utf8 Approval
begin

text \<open>
  Operations of the standard library on strings that the node uses on untrusted text: lossy UTF-8
  decoding, splitting, ASCII case, decimal parsing. The lemmas show that lossy decoding is exact on
  valid input and that decimal parsing inverts decimal printing.
\<close>

section \<open>Lossy decoding\<close>

text \<open>
  \<open>String::from_utf8_lossy\<close> puts U+FFFD for each maximal run of bytes that starts a character and
  cannot be continued. \<open>bad_len\<close> is the length of such a run at the head of a list.
\<close>

definition byte_at :: "u8 list \<Rightarrow> nat \<Rightarrow> nat" where
  "byte_at bs i = (if i < length bs then unat (bs ! i) else 0)"

definition second_ok :: "nat \<Rightarrow> nat \<Rightarrow> bool" where
  "second_ok n x \<longleftrightarrow>
     n = 0xE0 \<and> 0xA0 \<le> x \<and> x \<le> 0xBF \<or> 0xE1 \<le> n \<and> n \<le> 0xEC \<and> 0x80 \<le> x \<and> x \<le> 0xBF \<or>
     n = 0xED \<and> 0x80 \<le> x \<and> x \<le> 0x9F \<or> 0xEE \<le> n \<and> n \<le> 0xEF \<and> 0x80 \<le> x \<and> x \<le> 0xBF \<or>
     n = 0xF0 \<and> 0x90 \<le> x \<and> x \<le> 0xBF \<or> 0xF1 \<le> n \<and> n \<le> 0xF3 \<and> 0x80 \<le> x \<and> x \<le> 0xBF \<or>
     n = 0xF4 \<and> 0x80 \<le> x \<and> x \<le> 0x8F"

definition bad_len :: "u8 list \<Rightarrow> nat" where
  "bad_len bs =
     (if second_ok (byte_at bs 0) (byte_at bs 1)
      then if 0xF0 \<le> byte_at bs 0 \<and> 0x80 \<le> byte_at bs 2 \<and> byte_at bs 2 \<le> 0xBF then 3 else 2
      else 1)"

function from_utf8_lossy :: "u8 list \<Rightarrow> rstring" where
  "from_utf8_lossy bs =
     (if bs = [] then []
      else case utf8_next bs of
        Some (c, r) \<Rightarrow> c # from_utf8_lossy r
      | None \<Rightarrow> 0xFFFD # from_utf8_lossy (drop (bad_len bs) bs))"
  by pat_completeness auto
termination
proof (relation "measure length")
  show "(drop (bad_len bs) bs, bs) \<in> measure length" if "bs \<noteq> []" for bs
    using that by (simp add: bad_len_def)
qed (auto dest: utf8_next_shorter)

declare from_utf8_lossy.simps [simp del]

lemma from_utf8_lossy_valid: "from_utf8 bs = Some s \<Longrightarrow> from_utf8_lossy bs = s"
proof (induction bs arbitrary: s rule: from_utf8.induct)
  case (1 bs)
  show ?case
  proof (cases "bs = []")
    case True
    then show ?thesis using 1(2) by (simp add: from_utf8.simps from_utf8_lossy.simps)
  next
    case False
    then obtain c r s' where "utf8_next bs = Some (c, r)" "from_utf8 r = Some s'" "s = c # s'"
      using 1(2) by (auto simp: from_utf8.simps [of bs] split: option.splits)
    then show ?thesis
      using 1(1) [OF False, of "(c, r)" c r s'] False by (simp add: from_utf8_lossy.simps [of bs])
  qed
qed

lemma from_utf8_lossy_as_bytes [simp]: "list_all is_scalar s \<Longrightarrow> from_utf8_lossy (as_bytes s) = s"
  by (rule from_utf8_lossy_valid) simp

section \<open>Splitting and ASCII case\<close>

fun split_once :: "rchar \<Rightarrow> rstring \<Rightarrow> (rstring \<times> rstring) option" where
  "split_once c [] = None"
| "split_once c (x # xs) =
     (if x = c then Some ([], xs) else map_option (\<lambda>(a, b). (x # a, b)) (split_once c xs))"

lemma split_once_Some: "split_once c s = Some (a, b) \<longleftrightarrow> s = a @ c # b \<and> c \<notin> set a"
proof (induction s arbitrary: a)
  case Nil
  show ?case by simp
next
  case (Cons x s)
  show ?case by (cases a) (auto simp: Cons.IH)
qed

lemma split_once_None: "split_once c s = None \<longleftrightarrow> c \<notin> set s"
  by (induction s) auto

definition eq_ignore_ascii_case :: "rstring \<Rightarrow> rstring \<Rightarrow> bool" where
  "eq_ignore_ascii_case a b \<longleftrightarrow> to_ascii_lowercase a = to_ascii_lowercase b"

definition is_ascii_digit :: "rchar \<Rightarrow> bool" where
  "is_ascii_digit c \<longleftrightarrow> 48 \<le> c \<and> c \<le> 57"

definition is_ascii_alphanumeric :: "rchar \<Rightarrow> bool" where
  "is_ascii_alphanumeric c \<longleftrightarrow> is_ascii_digit c \<or> 65 \<le> c \<and> c \<le> 90 \<or> 97 \<le> c \<and> c \<le> 122"

definition quoted :: "rstring \<Rightarrow> rstring" where
  "quoted s = [39] @ s @ [39]"

section \<open>Decimal numbers\<close>

text \<open>
  \<open>str::parse\<close> for an unsigned type of \<open>w\<close> bits: an optional plus sign and at least one digit, with
  the overflow of the accumulator checked at every digit.
\<close>

fun parse_digits :: "nat \<Rightarrow> nat \<Rightarrow> rstring \<Rightarrow> nat option" where
  "parse_digits bound acc [] = Some acc"
| "parse_digits bound acc (d # ds) =
     (if is_ascii_digit d
      then if acc * 10 + (d - 48) < bound then parse_digits bound (acc * 10 + (d - 48)) ds else None
      else None)"

definition parse_unsigned :: "nat \<Rightarrow> rstring \<Rightarrow> nat option" where
  "parse_unsigned bound s =
     (let digits = (case s of [] \<Rightarrow> [] | c # r \<Rightarrow> if c = 43 then r else s)
      in if digits = [] then None else parse_digits bound 0 digits)"

definition parse_u32 :: "rstring \<Rightarrow> u32 option" where
  "parse_u32 s = map_option of_nat (parse_unsigned (2 ^ 32) s)"

lemma parse_digits_append:
  "parse_digits bound acc (a @ b) = Option.bind (parse_digits bound acc a) (\<lambda>v. parse_digits bound v b)"
  by (induction a arbitrary: acc) auto

lemma parse_digits_dec_string: "n < bound \<Longrightarrow> parse_digits bound 0 (dec_string n) = Some n"
proof (induction n rule: dec_string.induct)
  case (1 n)
  show ?case
  proof (cases "n < 10")
    case True
    then show ?thesis using 1(2) by (simp add: dec_string.simps [of n] is_ascii_digit_def)
  next
    case False
    have "n mod 10 < 10" by simp
    moreover have "n div 10 * 10 + n mod 10 = n" by simp
    ultimately show ?thesis
      using 1 False by (simp add: dec_string.simps [of n] parse_digits_append is_ascii_digit_def)
  qed
qed

lemma dec_string_digits: "list_all is_ascii_digit (dec_string n)"
proof (induction n rule: dec_string.induct)
  case (1 n)
  have "n mod 10 \<le> 9" using mod_less_divisor [of 10 n] by linarith
  then show ?case using 1 by (simp add: dec_string.simps [of n] is_ascii_digit_def)
qed

lemma dec_string_not_Nil [simp]: "dec_string n \<noteq> []"
  by (simp add: dec_string.simps [of n])

lemma parse_unsigned_dec_string: "n < bound \<Longrightarrow> parse_unsigned bound (dec_string n) = Some n"
proof -
  assume n: "n < bound"
  obtain c r where "dec_string n = c # r" by (cases "dec_string n") simp_all
  then have "c \<noteq> 43" using dec_string_digits [of n] by (auto simp: is_ascii_digit_def)
  then show ?thesis
    using \<open>dec_string n = c # r\<close> parse_digits_dec_string [OF n] by (simp add: parse_unsigned_def)
qed

lemma parse_u32_dec_string [simp]: "parse_u32 (dec_string (unat v)) = Some v"
proof -
  have "unat v < 2 ^ 32" using unsigned_less [of v] by simp
  then show ?thesis by (simp only: parse_u32_def parse_unsigned_dec_string) simp
qed

section \<open>Trimming\<close>

lemma trim_ends_id:
  assumes "s \<noteq> []" "\<not> is_whitespace (hd s)" "\<not> is_whitespace (last s)"
  shows "trim s = s"
proof -
  have "dropWhile is_whitespace s = s" using assms(1,2) by (cases s) simp_all
  moreover have "dropWhile is_whitespace (rev s) = rev s"
    using assms(1,3) by (cases s rule: rev_cases) simp_all
  ultimately show ?thesis by (simp add: trim_def)
qed

lemma digit_not_whitespace: "is_ascii_digit c \<Longrightarrow> \<not> is_whitespace c"
  by (simp add: is_ascii_digit_def is_whitespace_def)

lemma digits_scalar: "list_all is_ascii_digit s \<Longrightarrow> list_all is_scalar s"
  by (auto simp: list_all_iff is_ascii_digit_def is_scalar_def)

lemma trim_dec_string [simp]: "trim (dec_string n) = dec_string n"
proof (rule trim_ends_id)
  have "\<forall>c \<in> set (dec_string n). is_ascii_digit c"
    using dec_string_digits [of n] by (simp add: list_all_iff)
  then show "\<not> is_whitespace (hd (dec_string n))" "\<not> is_whitespace (last (dec_string n))"
    by (simp_all add: digit_not_whitespace)
qed simp

lemma trim_ends:
  assumes "trim s = a" "a \<noteq> []"
  shows "\<not> is_whitespace (hd a)" "\<not> is_whitespace (last a)"
proof -
  let ?t = "dropWhile is_whitespace s"
  have a: "a = rev (dropWhile is_whitespace (rev ?t))" using assms(1) by (simp add: trim_def)
  then obtain w where w: "?t = a @ w"
    using takeWhile_dropWhile_id [of is_whitespace "rev ?t"] rev_append rev_rev_ident by metis
  then have "?t \<noteq> []" "hd ?t = hd a" using assms(2) by (simp_all add: hd_append)
  then show "\<not> is_whitespace (hd a)" using hd_dropWhile [of is_whitespace s] by metis
  have "dropWhile is_whitespace (rev ?t) \<noteq> []" using a assms(2) by auto
  then have "\<not> is_whitespace (hd (dropWhile is_whitespace (rev ?t)))" using hd_dropWhile by blast
  then show "\<not> is_whitespace (last a)" using a by (simp add: last_rev)
qed

end
