(* ===== verification/Targets.thy ===== *)
theory Targets
  imports Strings Sanitize
begin

text \<open>
  What a request may name: the payload parsers of \<open>forge-node/src/network.rs\<close> for the capabilities
  that act on outside systems (Proxmox guests, Home Assistant entities, Docker containers, WireGuard
  peers, notifications), with their lists compiled into the binary. Error texts are the source's.
  The lemmas say exactly which targets get through, whatever bytes a peer sends.
\<close>

section \<open>Proxmox guests\<close>

datatype proxmox_resource_kind = Lxc | Vm

fun prk_as_str :: "proxmox_resource_kind \<Rightarrow> rstring" where
  "prk_as_str Lxc = str ''lxc''"
| "prk_as_str Vm = str ''vm''"

fun prk_uai_tool_name :: "proxmox_resource_kind \<Rightarrow> rstring" where
  "prk_uai_tool_name Lxc = str ''lxc_restart''"
| "prk_uai_tool_name Vm = str ''vm_reset''"

record proxmox_restart_target =
  px_kind :: proxmox_resource_kind
  px_vmid :: u32

definition px_canonical :: "proxmox_restart_target \<Rightarrow> rstring" where
  "px_canonical t = prk_as_str (px_kind t) @ str '':'' @ dec_string (unat (px_vmid t))"

definition px_forms :: rstring where
  "px_forms = quoted (str ''lxc:<vmid>'') @ str '' or '' @ quoted (str ''vm:<vmid>'')"

definition parse_proxmox_kind :: "rstring \<Rightarrow> (proxmox_resource_kind, rstring) result" where
  "parse_proxmox_kind s =
     (if s = str ''lxc'' then Ok Lxc
      else if s = str ''vm'' then Ok Vm
      else Err (str ''proxmox_restart: unknown resource kind '' @ quoted s @ str '' - expected ''
             @ quoted (str ''lxc'') @ str '' or '' @ quoted (str ''vm'')))"

definition parse_proxmox_restart_target :: "u8 list \<Rightarrow> (proxmox_restart_target, rstring) result" where
  "parse_proxmox_restart_target payload =
     (let trimmed = trim (from_utf8_lossy payload) in
      if trimmed = [] then Err (str ''proxmox_restart: payload is empty - expected '' @ px_forms)
      else case split_once 58 trimmed of
        None \<Rightarrow> Err (str ''proxmox_restart: '' @ quoted trimmed @ str '' is not in the expected ''
                  @ px_forms @ str '' form'')
      | Some (kind_str, vmid_str) \<Rightarrow>
          rbind (parse_proxmox_kind (to_ascii_lowercase (trim kind_str))) (\<lambda>kind.
            case parse_u32 (trim vmid_str) of
              None \<Rightarrow> Err (str ''proxmox_restart: '' @ quoted (trim vmid_str)
                        @ str '' is not a valid VMID (expected a positive integer)'')
            | Some vmid \<Rightarrow>
                if vmid = 0
                then Err (str ''proxmox_restart: VMID 0 is never a real guest - refusing'')
                else Ok \<lparr>px_kind = kind, px_vmid = vmid\<rparr>))"

section \<open>Home Assistant entities\<close>

datatype ha_action = HaOn | HaOff | HaToggle

fun ha_as_str :: "ha_action \<Rightarrow> rstring" where
  "ha_as_str HaOn = str ''on''"
| "ha_as_str HaOff = str ''off''"
| "ha_as_str HaToggle = str ''toggle''"

fun ha_uai_tool_name :: "ha_action \<Rightarrow> rstring" where
  "ha_uai_tool_name HaOn = str ''ha_turn_on''"
| "ha_uai_tool_name HaOff = str ''ha_turn_off''"
| "ha_uai_tool_name HaToggle = str ''ha_toggle''"

definition ALLOWED_HA_DOMAINS :: "rstring list" where
  "ALLOWED_HA_DOMAINS =
     [str ''light'', str ''switch'', str ''fan'', str ''input_boolean'', str ''scene'']"

record ha_toggle_target =
  ha_action_of :: ha_action
  ha_entity_id :: rstring

definition ha_canonical :: "ha_toggle_target \<Rightarrow> rstring" where
  "ha_canonical t = ha_as_str (ha_action_of t) @ str '':'' @ ha_entity_id t"

text \<open>Debug formatting of a list of names that need no escapes.\<close>

fun debug_names :: "rstring list \<Rightarrow> rstring" where
  "debug_names [] = []"
| "debug_names [n] = [34] @ n @ [34]"
| "debug_names (n # ns) = [34] @ n @ [34] @ str '', '' @ debug_names ns"

definition parse_ha_action :: "rstring \<Rightarrow> (ha_action, rstring) result" where
  "parse_ha_action s =
     (if s = str ''on'' then Ok HaOn
      else if s = str ''off'' then Ok HaOff
      else if s = str ''toggle'' then Ok HaToggle
      else Err (str ''home_assistant_toggle: unknown action '' @ quoted s @ str '' - expected ''
             @ quoted (str ''on'') @ str '', '' @ quoted (str ''off'') @ str '', or ''
             @ quoted (str ''toggle'')))"

definition bad_entity_id :: "rstring \<Rightarrow> rstring" where
  "bad_entity_id e = str ''home_assistant_toggle: '' @ quoted e
     @ str '' is not a valid entity_id (expected '' @ quoted (str ''domain.object_id'') @ str '')''"

definition check_ha_entity :: "ha_action \<Rightarrow> rstring \<Rightarrow> (ha_toggle_target, rstring) result" where
  "check_ha_entity action entity_id =
     (if entity_id = [] then Err (str ''home_assistant_toggle: entity_id is empty'')
      else case split_once 46 entity_id of
        None \<Rightarrow> Err (bad_entity_id entity_id)
      | Some (domain, object_id) \<Rightarrow>
          if domain = [] \<or> object_id = [] then Err (bad_entity_id entity_id)
          else if domain \<notin> set ALLOWED_HA_DOMAINS
          then Err (str ''home_assistant_toggle: domain '' @ quoted domain @ str '' is not permitted - only [''
                 @ debug_names ALLOWED_HA_DOMAINS
                 @ str ''] are allowed (locks, covers/garage doors, alarm panels, valves, sirens, cameras, and climate devices are deliberately excluded - see parse_ha_toggle_target''
                 @ [39] @ str ''s doc comment)'')
          else if domain = str ''scene'' \<and> action \<noteq> HaOn
          then Err (str ''home_assistant_toggle: '' @ quoted (str ''scene'') @ str '' entities only support ''
                 @ quoted (str ''on'') @ str '' (activation) - Home Assistant has no scene off/toggle service, got action ''
                 @ quoted (ha_as_str action))
          else Ok \<lparr>ha_action_of = action, ha_entity_id = entity_id\<rparr>)"

definition parse_ha_toggle_target :: "u8 list \<Rightarrow> (ha_toggle_target, rstring) result" where
  "parse_ha_toggle_target payload =
     (let trimmed = trim (from_utf8_lossy payload) in
      if trimmed = []
      then Err (str ''home_assistant_toggle: payload is empty - expected ''
             @ quoted (str ''<on|off|toggle>:<entity_id>''))
      else case split_once 58 trimmed of
        None \<Rightarrow> Err (str ''home_assistant_toggle: '' @ quoted trimmed @ str '' is not in the expected ''
                  @ quoted (str ''<on|off|toggle>:<entity_id>'') @ str '' form'')
      | Some (action_str, entity_id_str) \<Rightarrow>
          rbind (parse_ha_action (to_ascii_lowercase (trim action_str))) (\<lambda>action.
            check_ha_entity action (trim entity_id_str)))"

section \<open>Docker containers\<close>

definition ALLOWED_DOCKER_CONTAINERS :: "rstring list" where
  "ALLOWED_DOCKER_CONTAINERS =
     [str ''infra-watchtower'', str ''lib-calibre-web'', str ''dl-bazarr'', str ''ntl-snmpsim'']"

definition HARD_DENIED_DOCKER_CONTAINERS :: "rstring list" where
  "HARD_DENIED_DOCKER_CONTAINERS = [str ''ai-uai'', str ''forge-node'']"

record docker_restart_target =
  dk_name :: rstring

definition dk_canonical :: "docker_restart_target \<Rightarrow> rstring" where
  "dk_canonical t = dk_name t"

definition name_chars_ok :: "(rchar \<Rightarrow> bool) \<Rightarrow> rstring \<Rightarrow> bool" where
  "name_chars_ok extra name \<longleftrightarrow>
     (case name of
        [] \<Rightarrow> False
      | c # cs \<Rightarrow> is_ascii_alphanumeric c \<and> list_all (\<lambda>c. is_ascii_alphanumeric c \<or> extra c) cs)"

definition docker_char :: "rchar \<Rightarrow> bool" where
  "docker_char c \<longleftrightarrow> c = 95 \<or> c = 46 \<or> c = 45"

definition parse_docker_restart_target :: "u8 list \<Rightarrow> (docker_restart_target, rstring) result" where
  "parse_docker_restart_target payload =
     (let name = trim (from_utf8_lossy payload) in
      if name = [] then Err (str ''docker_restart: payload is empty - expected a container name'')
      else if length (as_bytes name) > 128
      then Err (str ''docker_restart: container name is too long (''
             @ dec_string (length (as_bytes name)) @ str '' chars, max 128)'')
      else if \<not> name_chars_ok docker_char name
      then Err (str ''docker_restart: '' @ quoted name
             @ str '' is not a valid Docker container name (expected [a-zA-Z0-9][a-zA-Z0-9_.-]*)'')
      else if list_ex (\<lambda>denied. eq_ignore_ascii_case denied name) HARD_DENIED_DOCKER_CONTAINERS
      then Err (str ''docker_restart: '' @ quoted name
             @ str '' is hard-denied in code and can never be targeted, regardless of policy (it is either AXIOM''
             @ [39] @ str ''s own UAI broker path or forge-node itself)'')
      else if name \<notin> set ALLOWED_DOCKER_CONTAINERS
      then Err (str ''docker_restart: '' @ quoted name @ str '' is not on the allowlist - only [''
             @ debug_names ALLOWED_DOCKER_CONTAINERS
             @ str ''] may be restarted via this capability (see parse_docker_restart_target''
             @ [39] @ str ''s doc comment for why)'')
      else Ok \<lparr>dk_name = name\<rparr>)"

section \<open>WireGuard peers\<close>

definition HARD_DENIED_WG_PEER_TARGETS :: "rstring list" where
  "HARD_DENIED_WG_PEER_TARGETS = [str ''larry-laptop'', str ''phone'']"

definition MAX_WG_PEER_NAME_LEN :: nat where "MAX_WG_PEER_NAME_LEN = 64"

datatype wg_peer_action = WgCreate | WgDelete | WgEnable | WgDisable

fun wg_as_str :: "wg_peer_action \<Rightarrow> rstring" where
  "wg_as_str WgCreate = str ''create''"
| "wg_as_str WgDelete = str ''delete''"
| "wg_as_str WgEnable = str ''enable''"
| "wg_as_str WgDisable = str ''disable''"

definition reduces_access :: "wg_peer_action \<Rightarrow> bool" where
  "reduces_access a \<longleftrightarrow> a = WgDelete \<or> a = WgDisable"

record wg_peer_manage_target =
  wt_action :: wg_peer_action
  wt_name :: rstring

definition wg_form :: rstring where
  "wg_form = quoted (str ''<create|delete|enable|disable>:<peer name>'')"

definition parse_wg_action :: "rstring \<Rightarrow> (wg_peer_action, rstring) result" where
  "parse_wg_action s =
     (if s = str ''create'' then Ok WgCreate
      else if s = str ''delete'' then Ok WgDelete
      else if s = str ''enable'' then Ok WgEnable
      else if s = str ''disable'' then Ok WgDisable
      else Err (str ''wg_peer_manage: unknown action '' @ quoted s @ str '' - expected ''
             @ quoted (str ''create'') @ str '', '' @ quoted (str ''delete'') @ str '', ''
             @ quoted (str ''enable'') @ str '', or '' @ quoted (str ''disable'')))"

definition wg_char :: "rchar \<Rightarrow> bool" where
  "wg_char c \<longleftrightarrow> c = 95 \<or> c = 46 \<or> c = 45 \<or> c = 32"

definition wg_hard_denied :: "rstring \<Rightarrow> bool" where
  "wg_hard_denied name \<longleftrightarrow>
     list_ex (\<lambda>denied. eq_ignore_ascii_case denied name) HARD_DENIED_WG_PEER_TARGETS"

definition check_wg_name :: "wg_peer_action \<Rightarrow> rstring \<Rightarrow> (wg_peer_manage_target, rstring) result" where
  "check_wg_name action name =
     (if name = [] then Err (str ''wg_peer_manage: peer name is empty'')
      else if length (as_bytes name) > MAX_WG_PEER_NAME_LEN
      then Err (str ''wg_peer_manage: peer name is too long ('' @ dec_string (length (as_bytes name))
             @ str '' chars, max '' @ dec_string MAX_WG_PEER_NAME_LEN @ str '')'')
      else if \<not> name_chars_ok wg_char name
      then Err (str ''wg_peer_manage: '' @ quoted name
             @ str '' is not a valid peer name (expected to start with a letter/digit, and contain only letters, digits, spaces, ''
             @ quoted (str ''_'') @ str '', '' @ quoted (str ''.'') @ str '', '' @ quoted (str ''-'') @ str '')'')
      else if reduces_access action \<and> wg_hard_denied name
      then Err (str ''wg_peer_manage: '' @ quoted name @ str '' is hard-denied in code for ''
             @ quoted (wg_as_str action)
             @ str '' and can never be targeted by it, regardless of policy - it is one of Larry'' @ [39]
             @ str ''s own currently-relied-upon WireGuard peers (see HARD_DENIED_WG_PEER_TARGETS'' @ [39]
             @ str ''s own doc comment)'')
      else Ok \<lparr>wt_action = action, wt_name = name\<rparr>)"

definition parse_wg_peer_manage_target :: "u8 list \<Rightarrow> (wg_peer_manage_target, rstring) result" where
  "parse_wg_peer_manage_target payload =
     (let trimmed = trim (from_utf8_lossy payload) in
      if trimmed = [] then Err (str ''wg_peer_manage: payload is empty - expected '' @ wg_form)
      else case split_once 58 trimmed of
        None \<Rightarrow> Err (str ''wg_peer_manage: '' @ quoted trimmed @ str '' is not in the expected ''
                  @ wg_form @ str '' form'')
      | Some (action_str, name_str) \<Rightarrow>
          rbind (parse_wg_action (to_ascii_lowercase (trim action_str))) (\<lambda>action.
            check_wg_name action (trim name_str)))"

section \<open>Notifications\<close>

definition prepare_notify_message :: "u8 list \<Rightarrow> (rstring, rstring) result" where
  "prepare_notify_message payload =
     (let raw = from_utf8_lossy payload in
      if trim raw = [] then Err (str ''notify_send: payload is empty'')
      else (let sanitized = sanitize_str raw;
                message = ss_value sanitized
            in Ok (if ss_truncated sanitized then message @ str '' [truncated]'' else message)))"

section \<open>Which targets get through\<close>

lemma rbind_Ok_cases:
  assumes "rbind r k = Ok y"
  obtains x where "r = Ok x" "k x = Ok y"
  using assms by (cases r) auto

lemma allowed_containers_valid:
  "list_all (\<lambda>n. n \<noteq> [] \<and> length (as_bytes n) \<le> 128 \<and> name_chars_ok docker_char n \<and>
     \<not> list_ex (\<lambda>denied. eq_ignore_ascii_case denied n) HARD_DENIED_DOCKER_CONTAINERS)
   ALLOWED_DOCKER_CONTAINERS"
  by code_simp

lemma docker_target_iff:
  "parse_docker_restart_target payload = Ok t \<longleftrightarrow>
     dk_name t = trim (from_utf8_lossy payload) \<and> dk_name t \<in> set ALLOWED_DOCKER_CONTAINERS"
  (is "_ \<longleftrightarrow> _ = ?n \<and> _")
proof (cases "?n \<in> set ALLOWED_DOCKER_CONTAINERS")
  case True
  then have "?n \<noteq> []" "\<not> length (as_bytes ?n) > 128" "name_chars_ok docker_char ?n"
      "\<not> list_ex (\<lambda>denied. eq_ignore_ascii_case denied ?n) HARD_DENIED_DOCKER_CONTAINERS"
    using allowed_containers_valid by (auto simp: list_all_iff)
  then have "parse_docker_restart_target payload = Ok \<lparr>dk_name = ?n\<rparr>"
    using True by (simp add: parse_docker_restart_target_def)
  then show ?thesis using True by (cases t) auto
next
  case False
  then show ?thesis by (auto simp: parse_docker_restart_target_def Let_def)
qed

lemma docker_never_hard_denied:
  "parse_docker_restart_target payload = Ok t \<Longrightarrow> d \<in> set HARD_DENIED_DOCKER_CONTAINERS \<Longrightarrow>
     \<not> eq_ignore_ascii_case d (dk_name t)"
  using allowed_containers_valid
  by (auto simp: docker_target_iff list_all_iff list_ex_iff)

definition ha_entity_permitted :: "ha_action \<Rightarrow> rstring \<Rightarrow> bool" where
  "ha_entity_permitted action e \<longleftrightarrow>
     (case split_once 46 e of
        None \<Rightarrow> False
      | Some (domain, object_id) \<Rightarrow>
          object_id \<noteq> [] \<and> domain \<in> set ALLOWED_HA_DOMAINS \<and> (domain \<noteq> str ''scene'' \<or> action = HaOn))"

lemma check_ha_entity_iff:
  "check_ha_entity action e = Ok t \<longleftrightarrow>
     t = \<lparr>ha_action_of = action, ha_entity_id = e\<rparr> \<and> ha_entity_permitted action e"
proof -
  have "[] \<notin> set ALLOWED_HA_DOMAINS" by code_simp
  then show ?thesis
    by (auto simp: check_ha_entity_def ha_entity_permitted_def split: option.splits prod.splits)
qed

lemma ha_target_permitted:
  assumes "parse_ha_toggle_target payload = Ok t"
  shows "ha_entity_permitted (ha_action_of t) (ha_entity_id t)"
  using assms
  by (auto simp: parse_ha_toggle_target_def Let_def check_ha_entity_iff elim!: rbind_Ok_cases
      split: if_splits option.splits)

lemma check_wg_name_Ok:
  "check_wg_name action name = Ok t \<Longrightarrow>
     t = \<lparr>wt_action = action, wt_name = name\<rparr> \<and> name \<noteq> [] \<and> length (as_bytes name) \<le> MAX_WG_PEER_NAME_LEN \<and>
     name_chars_ok wg_char name \<and> \<not> (reduces_access action \<and> wg_hard_denied name)"
  by (auto simp: check_wg_name_def split: if_splits)

lemma wg_target_checked:
  assumes "parse_wg_peer_manage_target payload = Ok t"
  shows "check_wg_name (wt_action t) (wt_name t) = Ok t"
proof -
  obtain a n where "check_wg_name a n = Ok t"
    using assms
    by (auto simp: parse_wg_peer_manage_target_def Let_def elim!: rbind_Ok_cases
        split: if_splits option.splits)
  then show ?thesis using check_wg_name_Ok [of a n t] by simp
qed

lemma wg_target_not_denied:
  assumes "parse_wg_peer_manage_target payload = Ok t" "reduces_access (wt_action t)"
  shows "\<not> wg_hard_denied (wt_name t)"
  using check_wg_name_Ok [OF wg_target_checked [OF assms(1)]] assms(2) by simp

lemma proxmox_vmid_nonzero: "parse_proxmox_restart_target payload = Ok t \<Longrightarrow> px_vmid t \<noteq> 0"
  by (auto simp: parse_proxmox_restart_target_def Let_def elim!: rbind_Ok_cases
      split: if_splits option.splits)

text \<open>The canonical form of a target, against which the deny list is matched, is read back as it.\<close>

definition kind_name_ok :: "proxmox_resource_kind \<Rightarrow> bool" where
  "kind_name_ok k \<longleftrightarrow>
     prk_as_str k \<noteq> [] \<and> 58 \<notin> set (prk_as_str k) \<and> \<not> is_whitespace (hd (prk_as_str k)) \<and>
     trim (prk_as_str k) = prk_as_str k \<and> to_ascii_lowercase (prk_as_str k) = prk_as_str k \<and>
     parse_proxmox_kind (prk_as_str k) = Ok k \<and> list_all is_scalar (prk_as_str k)"

lemma kind_name_ok: "kind_name_ok k"
  by (cases k) (simp_all add: kind_name_ok_def is_whitespace_def trim_def to_ascii_lowercase_def
      ascii_lower_def str_def parse_proxmox_kind_def is_scalar_def)

lemma proxmox_canonical_parses:
  assumes "px_vmid t \<noteq> 0"
  shows "parse_proxmox_restart_target (as_bytes (px_canonical t)) = Ok t"
proof -
  let ?d = "dec_string (unat (px_vmid t))" and ?k = "prk_as_str (px_kind t)"
  have k: "?k \<noteq> []" "58 \<notin> set ?k" "\<not> is_whitespace (hd ?k)" "trim ?k = ?k" "to_ascii_lowercase ?k = ?k"
      "parse_proxmox_kind ?k = Ok (px_kind t)" "list_all is_scalar ?k"
    using kind_name_ok [of "px_kind t"] by (simp_all add: kind_name_ok_def)
  have d: "list_all is_ascii_digit ?d" by (rule dec_string_digits)
  then have "\<not> is_whitespace (last ?d)" by (simp add: list_all_iff digit_not_whitespace)
  moreover have "px_canonical t = ?k @ 58 # ?d" by (simp add: px_canonical_def str_def)
  ultimately have c: "px_canonical t \<noteq> []" "trim (px_canonical t) = px_canonical t"
      "split_once 58 (px_canonical t) = Some (?k, ?d)" "list_all is_scalar (px_canonical t)"
    using k(1-3,7) digits_scalar [OF d]
    by (simp_all add: trim_ends_id split_once_Some hd_append is_scalar_def)
  show ?thesis
    using c(1) k(4-6) assms
    by (simp add: parse_proxmox_restart_target_def from_utf8_lossy_as_bytes [OF c(4)] c(2,3))
qed

lemma notify_message_safe:
  assumes "prepare_notify_message payload = Ok m"
  shows "\<exists>body. clean body \<and> length body \<le> MAX_UNTRUSTED_STRING_CHARS \<and>
     (m = body \<or> m = body @ str '' [truncated]'')"
  using assms clean_cleaned [of MAX_UNTRUSTED_STRING_CHARS "from_utf8_lossy payload"]
  by (intro exI [of _ "ss_value (sanitize_str (from_utf8_lossy payload))"])
    (auto simp: prepare_notify_message_def Let_def split: if_splits)

end
