(* ===== verification/Wire.thy ===== *)
theory Wire
  imports FrameSign
begin

text \<open>
  How a node puts messages on the wire and takes them off (\<open>forge-node/src/network.rs\<close>): signed
  frames of crate axiom-codec, and the older HELLO messages that share the socket with them. The
  lemmas show that what a node builds is accepted by its peers as its own, that no datagram is read
  as both kinds, and which bytes a signature under a node's key can stand for.
\<close>

unbundle bit_operations_syntax

section \<open>Frames\<close>

text \<open>
  The shared tail of the frame builders: encode into a buffer of the frame's size and 32 bytes more,
  and cut it to the length written. \<open>None\<close> is the logged error; \<open>encode_vec_cases\<close> shows that it is never
  a panic of the encoder.
\<close>

definition encode_vec :: "frame \<Rightarrow> u8 list option" where
  "encode_vec f =
     (case encode f (replicate (frame_wire_size f + 32) 0) of
        (buf, Ok written) \<Rightarrow> Some (take written buf)
      | _ \<Rightarrow> None)"

definition sign_and_encode_frame :: "ed25519 \<Rightarrow> keypair \<Rightarrow> frame \<Rightarrow> u8 list" where
  "sign_and_encode_frame E identity f =
     (case frame_sign E identity f of
        (g, Ok _) \<Rightarrow> (case encode_vec g of Some bs \<Rightarrow> bs | None \<Rightarrow> [])
      | (g, _) \<Rightarrow> [])"

definition simple_frame ::
    "ed25519 \<Rightarrow> keypair \<Rightarrow> frame_type \<Rightarrow> trace_id \<Rightarrow> intent_hash \<Rightarrow> u8 list \<Rightarrow> routing_ext option \<Rightarrow> frame" where
  "simple_frame E identity ft tid ih payload routing =
     (let header = with_intent (with_trust_level (frame_header_new ft (keypair_node_id E identity)) TlSig) ih
      in (frame_new header PtRaw payload)\<lparr>fr_trace_id := Some tid, fr_routing := routing\<rparr>)"

definition build_simple_frame ::
    "ed25519 \<Rightarrow> keypair \<Rightarrow> frame_type \<Rightarrow> trace_id \<Rightarrow> intent_hash \<Rightarrow> u8 list \<Rightarrow> routing_ext option \<Rightarrow> u8 list" where
  "build_simple_frame E identity ft tid ih payload routing =
     sign_and_encode_frame E identity (simple_frame E identity ft tid ih payload routing)"

definition build_ping_frame :: "ed25519 \<Rightarrow> keypair \<Rightarrow> trace_id \<Rightarrow> u8 list" where
  "build_ping_frame E identity tid = build_simple_frame E identity FtPing tid intent_hash_zero [] None"

definition build_pong_frame :: "ed25519 \<Rightarrow> keypair \<Rightarrow> trace_id \<Rightarrow> u8 list" where
  "build_pong_frame E identity tid = build_simple_frame E identity FtPong tid intent_hash_zero [] None"

definition build_intent_frame ::
    "ed25519 \<Rightarrow> keypair \<Rightarrow> intent_hash \<Rightarrow> trace_id \<Rightarrow> u8 list \<Rightarrow> routing_ext option \<Rightarrow> u8 list" where
  "build_intent_frame E identity ih tid payload routing =
     build_simple_frame E identity FtIntent tid ih payload routing"

definition build_fulfill_frame ::
    "ed25519 \<Rightarrow> keypair \<Rightarrow> intent_hash \<Rightarrow> trace_id \<Rightarrow> u8 list \<Rightarrow> routing_ext option \<Rightarrow> u8 list" where
  "build_fulfill_frame E identity ih tid payload routing =
     build_simple_frame E identity FtFulfill tid ih payload routing"

definition build_error_frame ::
    "ed25519 \<Rightarrow> keypair \<Rightarrow> intent_hash \<Rightarrow> trace_id \<Rightarrow> rstring \<Rightarrow> routing_ext option \<Rightarrow> u8 list" where
  "build_error_frame E identity ih tid reason routing =
     build_simple_frame E identity FtError tid ih (as_bytes reason) routing"

definition decode_verified_frame :: "ed25519 \<Rightarrow> u8 list \<Rightarrow> frame option" where
  "decode_verified_frame E data =
     (case decode data of
        Ok d \<Rightarrow>
          (let f = as_frame d in
           case frame_verify E f of
             Ok verified \<Rightarrow> if verified then Some f else None
           | _ \<Rightarrow> None)
      | _ \<Rightarrow> None)"

text \<open>\<open>next_trace_id\<close>: the nanoseconds of the wall clock combined with a counter.\<close>

definition next_trace_id :: "u64 \<Rightarrow> u64 \<Rightarrow> trace_id" where
  "next_trace_id nanos counter = trace_id_from_u64 (nanos XOR counter)"

section \<open>HELLO messages\<close>

definition HELLO_MSG_TYPE :: u8 where "HELLO_MSG_TYPE = 0x01"
definition HELLO_ACK_MSG_TYPE :: u8 where "HELLO_ACK_MSG_TYPE = 0x02"

definition AXIO :: "u8 list" where "AXIO = [0x41, 0x58, 0x49, 0x4F]"

definition hello_body :: "node_id \<Rightarrow> u8 \<Rightarrow> u64 \<Rightarrow> u8 list" where
  "hello_body n msg_type secs = AXIO @ [0x01] @ [msg_type] @ node_id_bytes n @ to_be 8 secs"

definition build_frame :: "ed25519 \<Rightarrow> keypair \<Rightarrow> u8 \<Rightarrow> u64 \<Rightarrow> u8 list" where
  "build_frame E identity msg_type secs =
     (let buf = hello_body (keypair_node_id E identity) msg_type secs
      in buf @ signature_bytes (keypair_sign E identity buf))"

definition build_hello_frame :: "ed25519 \<Rightarrow> keypair \<Rightarrow> u64 \<Rightarrow> u8 list" where
  "build_hello_frame E identity secs = build_frame E identity HELLO_MSG_TYPE secs"

definition build_hello_reply_frame :: "ed25519 \<Rightarrow> keypair \<Rightarrow> u64 \<Rightarrow> u8 list" where
  "build_hello_reply_frame E identity secs = build_frame E identity HELLO_ACK_MSG_TYPE secs"

definition frame_msg_type :: "u8 list \<Rightarrow> u8 option" where
  "frame_msg_type data = (if 5 < length data then Some (data ! 5) else None)"

definition extract_sender_with_timestamp :: "ed25519 \<Rightarrow> u8 list \<Rightarrow> (node_id \<times> u64) option" where
  "extract_sender_with_timestamp E data =
     (if length data < 110 then None
      else if take 4 data \<noteq> AXIO then None
      else
        (let n = NodeId (take 32 (drop 6 data));
             timestamp = from_be (take 8 (drop 38 data));
             sig = Signature (take 64 (drop 46 data))
         in if \<not> node_id_verify E n (take 46 data) sig then None else Some (n, timestamp)))"

definition extract_sender :: "ed25519 \<Rightarrow> u8 list \<Rightarrow> node_id option" where
  "extract_sender E data = map_option fst (extract_sender_with_timestamp E data)"

section \<open>What a node builds is accepted as its own\<close>

lemma encode_vec_cases:
  "typed_frame f \<Longrightarrow>
     encode_vec f = (if length (fr_payload f) > MAX_PAYLOAD_SIZE then None else Some (frame_bytes f))"
  using length_frame_bytes [of f] by (simp add: encode_vec_def encode_cases)

lemma encode_vec_wf: "wf_frame f \<Longrightarrow> encode_vec f = Some (frame_bytes f)"
  by (simp add: encode_vec_cases wf_frame_typed wf_frame_def not_less)

lemma decode_verified_iff:
  "decode_verified_frame E data = Some f \<longleftrightarrow>
     decode data = Ok (of_frame f) \<and> frame_verify E f = Ok True"
proof -
  have "as_frame d = f \<longleftrightarrow> d = of_frame f" for d using as_frame_inj [of d "of_frame f"] by auto
  then show ?thesis
    by (auto simp: decode_verified_frame_def Let_def split: result.splits if_splits)
qed

lemma decode_verified_wf:
  "decode_verified_frame E data = Some f \<Longrightarrow> wf_frame f"
  using decode_sound(1) [of data "of_frame f"] by (simp add: decode_verified_iff)

lemma decode_verified_frame_bytes:
  "wf_frame f \<Longrightarrow> frame_verify E f = Ok True \<Longrightarrow> decode_verified_frame E (frame_bytes f) = Some f"
  using decode_frame_bytes [of f "[]"] by (simp add: decode_verified_iff)

lemma sign_and_encode_accepted:
  assumes "ed25519_correct E" "wf_keypair k" "wf_frame f" "fh_trust_level (fr_header f) = TlSig"
    and "fh_sender_id (fr_header f) = keypair_node_id E k"
  shows "decode_verified_frame E (sign_and_encode_frame E k f)
     = Some (f\<lparr>fr_auth := AuthSignature (keypair_sign E k (signature_data f))\<rparr>)"
proof -
  have "uses_signature (fh_trust_level (fr_header f))" by (simp add: assms(4) uses_signature_def)
  then obtain g where g: "frame_sign E k f = (g, Ok ())" "wf_frame g" "frame_verify E g = Ok True"
      "g = f\<lparr>fr_auth := AuthSignature (keypair_sign E k (signature_data f))\<rparr>"
    using frame_sign_ok [OF assms(1-3) _ assms(5)] by metis
  then show ?thesis
    by (simp add: sign_and_encode_frame_def encode_vec_wf decode_verified_frame_bytes)
qed

definition wf_routing_opt :: "routing_ext option \<Rightarrow> bool" where
  "wf_routing_opt r \<longleftrightarrow> (case r of None \<Rightarrow> True | Some r \<Rightarrow> wf_node_id (re_destination r))"

lemma keypair_node_id_wf: "ed25519_correct E \<Longrightarrow> wf_keypair k \<Longrightarrow> wf_node_id (keypair_node_id E k)"
  by (simp add: ed25519_correct_def wf_keypair_def keypair_node_id_def wf_id_defs size_defs)

lemma wf_simple_frame:
  assumes "ed25519_correct E" "wf_keypair k" "wf_frame_type ft" "wf_trace_id tid" "wf_intent_hash ih"
    and "length payload \<le> MAX_PAYLOAD_SIZE" "wf_routing_opt routing"
  shows "wf_frame (simple_frame E k ft tid ih payload routing)"
  using assms keypair_node_id_wf [OF assms(1,2)]
  by (simp add: simple_frame_def Let_def wf_frame_def frame_new_def with_intent_def with_trust_level_def
      frame_header_new_def wf_header_def clock_zero_def flags_default_def payload_header_new_def
      wf_payload_type_def uses_signature_def wf_routing_opt_def)

lemma simple_frame_header [simp]:
  "fh_trust_level (fr_header (simple_frame E k ft tid ih payload routing)) = TlSig"
  "fh_sender_id (fr_header (simple_frame E k ft tid ih payload routing)) = keypair_node_id E k"
  "fh_frame_type (fr_header (simple_frame E k ft tid ih payload routing)) = ft"
  "fh_intent_hash (fr_header (simple_frame E k ft tid ih payload routing)) = ih"
  "fr_trace_id (simple_frame E k ft tid ih payload routing) = Some tid"
  "fr_payload (simple_frame E k ft tid ih payload routing) = payload"
  "fr_routing (simple_frame E k ft tid ih payload routing) = routing"
  by (simp_all add: simple_frame_def Let_def with_intent_def with_trust_level_def frame_header_new_def
      frame_new_def)

lemma build_simple_frame_accepted:
  assumes "ed25519_correct E" "wf_keypair k" "wf_frame_type ft" "wf_trace_id tid" "wf_intent_hash ih"
    and "length payload \<le> MAX_PAYLOAD_SIZE" "wf_routing_opt routing"
  obtains f where "decode_verified_frame E (build_simple_frame E k ft tid ih payload routing) = Some f"
    and "fh_sender_id (fr_header f) = keypair_node_id E k" "fh_frame_type (fr_header f) = ft"
    and "fh_intent_hash (fr_header f) = ih" "fr_trace_id f = Some tid" "fr_payload f = payload"
    and "fr_routing f = routing"
  using sign_and_encode_accepted [OF assms(1,2) wf_simple_frame [OF assms]]
  by (simp add: build_simple_frame_def)

section \<open>HELLO messages and frames do not mix\<close>

lemma length_AXIO [simp]: "length AXIO = 4"
  by (simp add: AXIO_def)

lemma length_hello_body: "wf_node_id n \<Longrightarrow> length (hello_body n t secs) = 46"
  by (simp add: hello_body_def wf_id_defs size_defs)

lemma build_frame_parts:
  assumes "ed25519_correct E" "wf_keypair k"
  shows "\<exists>sig. build_frame E k t secs = hello_body (keypair_node_id E k) t secs @ sig \<and>
     length (hello_body (keypair_node_id E k) t secs) = 46 \<and> length sig = 64 \<and>
     node_id_verify E (keypair_node_id E k) (hello_body (keypair_node_id E k) t secs) (Signature sig)"
  using assms wf_keypair_sign [OF assms] keypair_sign_verifies [OF assms]
    length_hello_body [OF keypair_node_id_wf [OF assms]]
  by (intro exI [of _ "signature_bytes (keypair_sign E k (hello_body (keypair_node_id E k) t secs))"])
    (simp add: build_frame_def Let_def wf_id_defs size_defs)

lemma hello_body_parts:
  assumes "wf_node_id n"
  shows "take 4 (hello_body n t secs) = AXIO" "take 32 (drop 6 (hello_body n t secs)) = node_id_bytes n"
    and "drop 38 (hello_body n t secs) = to_be 8 secs" "hello_body n t secs ! 5 = t"
  using assms by (simp_all add: hello_body_def wf_id_defs size_defs nth_append)

lemma from_be_to_be_u64 [simp]: "from_be (to_be 8 x) = (x :: u64)"
  by (simp add: from_be_to_be take_bit_word_all)

lemma extract_hello:
  assumes "ed25519_correct E" "wf_keypair k"
  shows "extract_sender_with_timestamp E (build_frame E k t secs @ rest) = Some (keypair_node_id E k, secs)"
    and "frame_msg_type (build_frame E k t secs @ rest) = Some t"
proof -
  let ?n = "keypair_node_id E k" and ?b = "hello_body (keypair_node_id E k) t secs"
  obtain sig where s: "build_frame E k t secs = ?b @ sig" "length ?b = 46" "length sig = 64"
      "node_id_verify E ?n ?b (Signature sig)"
    using build_frame_parts [OF assms] by blast
  note p = hello_body_parts [OF keypair_node_id_wf [OF assms], of t secs]
  have "take 8 (drop 38 (?b @ sig @ rest)) = to_be 8 secs" "take 4 (?b @ sig @ rest) = AXIO"
      "take 32 (drop 6 (?b @ sig @ rest)) = node_id_bytes ?n" "take 46 (?b @ sig @ rest) = ?b"
      "take 64 (drop 46 (?b @ sig @ rest)) = sig"
    using s(2,3) p by simp_all
  then show "extract_sender_with_timestamp E (build_frame E k t secs @ rest) = Some (?n, secs)"
    using s by (simp add: extract_sender_with_timestamp_def Let_def)
  show "frame_msg_type (build_frame E k t secs @ rest) = Some t"
    using s(1-3) p(4) by (simp add: frame_msg_type_def nth_append)
qed

lemma header_byte0_magic: "bit (header_byte0 h) 7"
  by (simp add: header_byte0_def MAGIC_def bit_simps)

lemma frame_bytes_0: "frame_bytes f ! 0 = header_byte0 (fr_header f)" "frame_bytes f \<noteq> []"
  by (simp_all add: frame_bytes_def signed_bytes_def header_bytes_def)

lemma decode_first_byte:
  assumes "decode buf = Ok d"
  shows "buf \<noteq> [] \<and> bit (hd buf) 7"
proof -
  let ?f = "as_frame d"
  have sz: "frame_wire_size ?f \<le> length buf" "0 < frame_wire_size ?f"
    using decode_sound(2) [OF assms] by (simp_all add: frame_wire_size_def size_defs)
  then have "(take (frame_wire_size ?f) buf)[2 := buf ! 2 AND 0xF0] ! 0 = buf ! 0" by simp
  then have "buf ! 0 = header_byte0 (fr_header ?f)"
    using frame_bytes_0(1) [of ?f] by (simp add: decode_sound(3) [OF assms])
  moreover have "buf \<noteq> []" using sz by auto
  ultimately show ?thesis using header_byte0_magic by (simp add: hd_conv_nth)
qed

lemma signature_data_first_byte:
  assumes "typed_frame f"
  shows "signature_data f \<noteq> [] \<and> (hd (signature_data f) = 0 \<or> bit (hd (signature_data f)) 7)"
proof (cases "length (fr_payload f) \<le> MAX_PAYLOAD_SIZE")
  case True
  then show ?thesis
    using signature_data_bytes [OF assms True] header_byte0_magic [of "fr_header f"]
    by (simp add: signed_bytes_def header_bytes_def)
next
  case False
  have "frame_wire_size f - auth_wire_size (fr_auth f) \<noteq> 0"
    by (simp add: frame_wire_size_def size_defs)
  then show ?thesis
    using False by (simp add: signature_data_def encode_def efail_def Let_def)
qed

lemma AXIO_first: "take 4 bs = AXIO \<Longrightarrow> bs \<noteq> [] \<and> hd bs = 0x41"
  by (cases bs) (auto simp: AXIO_def)

lemma not_both_kinds:
  "extract_sender_with_timestamp E data = None \<or> decode_verified_frame E data = None"
proof -
  have "\<not> bit (0x41 :: u8) 7" by simp
  then have "take 4 data = AXIO \<Longrightarrow> decode data \<noteq> Ok d" for d
    using decode_first_byte [of data d] AXIO_first [of data] by auto
  then have "take 4 data = AXIO \<Longrightarrow> decode_verified_frame E data = None"
    by (simp add: decode_verified_frame_def split: result.split)
  then show ?thesis by (cases "take 4 data = AXIO") (auto simp: extract_sender_with_timestamp_def)
qed

end
