(* ===== verification/Announce.thy ===== *)
theory Announce
  imports Wire
begin

text \<open>
  Capability announcements and their gossip, \<open>axiom-router/src/announce.rs\<close>: the payload and its wire
  form, the manager that creates announcements, and \<open>process_announcement\<close>, which decides whether an
  announcement heard from a peer is authentic, fresh and new. Wall-clock seconds and the monotonic
  clock (nanoseconds) are arguments. The lemmas show that a payload survives the wire, that only
  what an origin signed is ever accepted, that relaying keeps the origin's claim and runs out of
  hops, and that the loop protection works although its table is pruned.
\<close>

section \<open>Payloads\<close>

definition MAX_ANNOUNCE_TTL :: u8 where "MAX_ANNOUNCE_TTL = 16"
definition MAX_ROUTE_INDIRECTION :: u8 where "MAX_ROUTE_INDIRECTION = 2"
definition MAX_ACCEPTED_ANNOUNCE_TTL :: u8 where "MAX_ACCEPTED_ANNOUNCE_TTL = MAX_ROUTE_INDIRECTION"
definition MAX_ANNOUNCE_CLOCK_SKEW :: u64 where "MAX_ANNOUNCE_CLOCK_SKEW = 300"

definition ORIGIN_SIG_DOMAIN :: "u8 list" where
  "ORIGIN_SIG_DOMAIN = as_bytes (str ''AXIOM/announce-origin/v1'')"

record announced_capability =
  ac_intent_hash :: intent_hash
  ac_category :: "u8 list"
  ac_load :: u8
  ac_latency_ms :: u16

definition announced_new :: "intent_hash \<Rightarrow> u8 list \<Rightarrow> announced_capability" where
  "announced_new ih category =
     \<lparr>ac_intent_hash = ih, ac_category = category, ac_load = 128, ac_latency_ms = 0\<rparr>"

definition with_load :: "announced_capability \<Rightarrow> u8 \<Rightarrow> announced_capability" where
  "with_load c l = c\<lparr>ac_load := l\<rparr>"

definition with_latency :: "announced_capability \<Rightarrow> u16 \<Rightarrow> announced_capability" where
  "with_latency c l = c\<lparr>ac_latency_ms := l\<rparr>"

definition announced_encode :: "announced_capability \<Rightarrow> u8 list" where
  "announced_encode c =
     intent_hash_bytes (ac_intent_hash c) @ ac_category c @ [ac_load c] @ to_be 2 (ac_latency_ms c)"

definition announced_decode :: "u8 list \<Rightarrow> announced_capability option" where
  "announced_decode data =
     (if length data < 23 then None
      else Some \<lparr>ac_intent_hash = IntentHash (take 16 data), ac_category = take 4 (drop 16 data),
                 ac_load = data ! 20, ac_latency_ms = from_be [data ! 21, data ! 22]\<rparr>)"

record announce_payload =
  ap_ttl :: u8
  ap_capabilities :: "announced_capability list"
  ap_origin :: "node_id option"
  ap_origin_clock :: "hybrid_clock option"
  ap_origin_signature :: "signature option"

definition payload_new :: "u8 \<Rightarrow> announce_payload" where
  "payload_new ttl =
     \<lparr>ap_ttl = ttl, ap_capabilities = [], ap_origin = None, ap_origin_clock = None,
      ap_origin_signature = None\<rparr>"

definition add_capability :: "announce_payload \<Rightarrow> announced_capability \<Rightarrow> announce_payload" where
  "add_capability p c = p\<lparr>ap_capabilities := ap_capabilities p @ [c]\<rparr>"

definition with_origin :: "announce_payload \<Rightarrow> node_id \<Rightarrow> hybrid_clock \<Rightarrow> announce_payload" where
  "with_origin p n c = p\<lparr>ap_origin := Some n, ap_origin_clock := Some c\<rparr>"

definition with_origin_signature :: "announce_payload \<Rightarrow> signature \<Rightarrow> announce_payload" where
  "with_origin_signature p s = p\<lparr>ap_origin_signature := Some s\<rparr>"

definition origin_signing_bytes_for ::
    "node_id \<Rightarrow> hybrid_clock \<Rightarrow> announced_capability list \<Rightarrow> u8 list" where
  "origin_signing_bytes_for n c caps =
     ORIGIN_SIG_DOMAIN @ node_id_bytes n @ clock_to_bytes c @ to_be 2 (of_nat (length caps) :: u16)
     @ concat (map announced_encode caps)"

definition origin_signing_bytes :: "announce_payload \<Rightarrow> u8 list option" where
  "origin_signing_bytes p =
     (case (ap_origin p, ap_origin_clock p) of
        (Some n, Some c) \<Rightarrow> Some (origin_signing_bytes_for n c (ap_capabilities p))
      | _ \<Rightarrow> None)"

definition origin_trailer :: "announce_payload \<Rightarrow> u8 list" where
  "origin_trailer p =
     (case (ap_origin p, ap_origin_clock p) of
        (Some n, Some c) \<Rightarrow>
          node_id_bytes n @ clock_to_bytes c
          @ (case ap_origin_signature p of Some s \<Rightarrow> signature_bytes s | None \<Rightarrow> [])
      | _ \<Rightarrow> [])"

definition payload_encode :: "announce_payload \<Rightarrow> u8 list" where
  "payload_encode p =
     [ap_ttl p] @ to_be 2 (of_nat (length (ap_capabilities p)) :: u16)
     @ concat (map announced_encode (ap_capabilities p)) @ origin_trailer p"

definition decode_trailer ::
    "u8 list \<Rightarrow> node_id option \<times> hybrid_clock option \<times> signature option" where
  "decode_trailer t =
     (if length t = NODE_ID_SIZE + CLOCK_SIZE + SIGNATURE_SIZE
      then (Some (NodeId (take NODE_ID_SIZE t)),
            Some (clock_from_bytes (take CLOCK_SIZE (drop NODE_ID_SIZE t))),
            Some (Signature (drop (NODE_ID_SIZE + CLOCK_SIZE) t)))
      else if length t = NODE_ID_SIZE + CLOCK_SIZE
      then (Some (NodeId (take NODE_ID_SIZE t)),
            Some (clock_from_bytes (drop NODE_ID_SIZE t)), None)
      else (None, None, None))"

definition payload_decode :: "u8 list \<Rightarrow> announce_payload option" where
  "payload_decode data =
     (if length data < 3 then None
      else
        (let ttl = data ! 0;
             cap_count = unat (from_be [data ! 1, data ! 2] :: u16);
             caps_end = 3 + cap_count * 23
         in if length data < caps_end then None
            else
              (let caps = List.map_filter (\<lambda>i. announced_decode (take 23 (drop (3 + i * 23) data)))
                            [0..<cap_count];
                   (origin, origin_clock, origin_signature) = decode_trailer (drop caps_end data)
               in Some \<lparr>ap_ttl = ttl, ap_capabilities = caps, ap_origin = origin,
                        ap_origin_clock = origin_clock, ap_origin_signature = origin_signature\<rparr>)))"

definition decrement_ttl :: "announce_payload \<Rightarrow> announce_payload \<times> bool" where
  "decrement_ttl p = (if ap_ttl p > 0 then (p\<lparr>ap_ttl := ap_ttl p - 1\<rparr>, True) else (p, False))"

section \<open>The manager\<close>

record seen_announcement =
  sa_first_seen :: nat
  sa_clock :: hybrid_clock
  sa_count :: u32

type_synonym seen_map = "(node_id \<times> intent_hash, seen_announcement) hmap"

record announcement_manager =
  am_identity :: keypair
  am_local_capabilities :: "announced_capability list"
  am_seen :: seen_map
  am_clock :: clock_manager

definition manager_new :: "keypair \<Rightarrow> u64 \<Rightarrow> announcement_manager" where
  "manager_new identity secs =
     \<lparr>am_identity = identity, am_local_capabilities = [], am_seen = [],
      am_clock = \<lparr>cm_clock = clock_now secs\<rparr>\<rparr>"

definition register_capability :: "announced_capability \<Rightarrow> announcement_manager \<Rightarrow> announcement_manager" where
  "register_capability c m = m\<lparr>am_local_capabilities := am_local_capabilities m @ [c]\<rparr>"

definition unregister_capability :: "intent_hash \<Rightarrow> announcement_manager \<Rightarrow> announcement_manager" where
  "unregister_capability ih m =
     m\<lparr>am_local_capabilities := filter (\<lambda>c. ac_intent_hash c \<noteq> ih) (am_local_capabilities m)\<rparr>"

definition create_announcement ::
    "ed25519 \<Rightarrow> u64 \<Rightarrow> u8 \<Rightarrow> announcement_manager \<Rightarrow> announcement_manager \<times> frame" where
  "create_announcement E now_secs ttl m =
     (let (cm, clock) = cm_tick (cm_sync_physical (am_clock m) now_secs);
          node = keypair_node_id E (am_identity m);
          header = with_clock (with_trust_level (frame_header_new FtAnnounce node) TlSig) clock;
          payload = foldl add_capability
                      (with_origin (payload_new (min ttl MAX_ANNOUNCE_TTL)) node clock)
                      (am_local_capabilities m);
          sig = keypair_sign E (am_identity m)
                  (origin_signing_bytes_for node clock (ap_capabilities payload))
      in (m\<lparr>am_clock := cm\<rparr>, frame_new header PtRaw (payload_encode (with_origin_signature payload sig))))"

definition abs_diff :: "u64 \<Rightarrow> u64 \<Rightarrow> u64" where
  "abs_diff a b = (if a \<le> b then b - a else a - b)"

definition within_skew :: "u64 \<Rightarrow> u64 \<Rightarrow> bool" where
  "within_skew now_secs p \<longleftrightarrow> abs_diff now_secs p \<le> MAX_ANNOUNCE_CLOCK_SKEW"

text \<open>The body of the loop over the capabilities: the table and whether anything was new.\<close>

definition touch_seen ::
    "nat \<Rightarrow> node_id \<Rightarrow> hybrid_clock \<Rightarrow> announced_capability \<Rightarrow> seen_map \<times> bool \<Rightarrow> seen_map \<times> bool" where
  "touch_seen now origin clock cap st =
     (let (seen, fresh) = st; key = (origin, ac_intent_hash cap) in
      case hm_get seen key of
        Some e \<Rightarrow>
          (let e = e\<lparr>sa_first_seen := now\<rparr> in
           if happens_before (sa_clock e) clock
           then (hm_insert key (e\<lparr>sa_clock := clock, sa_count := sa_count e + 1\<rparr>) seen, True)
           else (hm_insert key e seen, fresh))
      | None \<Rightarrow> (hm_insert key \<lparr>sa_first_seen = now, sa_clock = clock, sa_count = 1\<rparr> seen, True))"

definition forward_announcement ::
    "ed25519 \<Rightarrow> u64 \<Rightarrow> announcement_manager \<Rightarrow> frame \<Rightarrow> u8 \<Rightarrow> announced_capability list \<Rightarrow> node_id
       \<Rightarrow> hybrid_clock \<Rightarrow> signature \<Rightarrow> announcement_manager \<times> frame option" where
  "forward_announcement E now_secs m f ttl caps origin clock sig =
     (if ttl > 0 then
        (let fwd = foldl add_capability
                     (with_origin_signature (with_origin (payload_new (ttl - 1)) origin clock) sig) caps;
             cm = (if within_skew now_secs (physical (fh_clock (fr_header f)))
                   then cm_update (am_clock m) (fh_clock (fr_header f)) else am_clock m);
             (cm, c) = cm_tick cm;
             header = with_clock (with_trust_level
                        (frame_header_new FtAnnounce (keypair_node_id E (am_identity m)))
                        (fh_trust_level (fr_header f))) c
         in (m\<lparr>am_clock := cm\<rparr>, Some (frame_new header PtRaw (payload_encode fwd))))
      else (m, None))"

definition process_announcement ::
    "ed25519 \<Rightarrow> u64 \<Rightarrow> nat \<Rightarrow> frame \<Rightarrow> announcement_manager
       \<Rightarrow> announcement_manager \<times> (announced_capability list \<times> frame option) option" where
  "process_announcement E now_secs now f m =
     (case payload_decode (fr_payload f) of
        None \<Rightarrow> (m, None)
      | Some p \<Rightarrow>
          (case (ap_origin p, ap_origin_clock p, ap_origin_signature p) of
             (Some origin, Some clock, Some sig) \<Rightarrow>
               if \<not> node_id_verify E origin (origin_signing_bytes_for origin clock (ap_capabilities p)) sig
               then (m, None)
               else if \<not> within_skew now_secs (physical clock) then (m, None)
               else if origin = keypair_node_id E (am_identity m) then (m, None)
               else
                 (let ttl = min (ap_ttl p) MAX_ACCEPTED_ANNOUNCE_TTL;
                      (seen, any_fresh) =
                        fold (touch_seen now origin clock) (ap_capabilities p) (am_seen m, False);
                      m = m\<lparr>am_seen := seen\<rparr>
                  in if \<not> any_fresh then (m, None)
                     else
                       (let (m, fwd) =
                          forward_announcement E now_secs m f ttl (ap_capabilities p) origin clock sig
                        in (m, Some (ap_capabilities p, fwd))))
           | _ \<Rightarrow> (m, None)))"

definition cleanup_stale :: "nat \<Rightarrow> nat \<Rightarrow> announcement_manager \<Rightarrow> announcement_manager" where
  "cleanup_stale now max_age m =
     m\<lparr>am_seen := hm_retain (\<lambda>_ v. now - sa_first_seen v < max_age) (am_seen m)\<rparr>"

definition update_capability_metrics ::
    "intent_hash \<Rightarrow> u8 \<Rightarrow> u16 \<Rightarrow> announcement_manager \<Rightarrow> announcement_manager" where
  "update_capability_metrics ih load latency m =
     (let caps = am_local_capabilities m;
          before = takeWhile (\<lambda>c. ac_intent_hash c \<noteq> ih) caps
      in case drop (length before) caps of
           [] \<Rightarrow> m
         | c # rest \<Rightarrow>
             m\<lparr>am_local_capabilities := before @ c\<lparr>ac_load := load, ac_latency_ms := latency\<rparr> # rest\<rparr>)"

definition seen_count :: "announcement_manager \<Rightarrow> nat" where
  "seen_count m = length (am_seen m)"

section \<open>The wire form of a payload\<close>

definition wf_announced :: "announced_capability \<Rightarrow> bool" where
  "wf_announced c \<longleftrightarrow> wf_intent_hash (ac_intent_hash c) \<and> length (ac_category c) = 4"

definition wf_trailer :: "announce_payload \<Rightarrow> bool" where
  "wf_trailer p \<longleftrightarrow>
     (case (ap_origin p, ap_origin_clock p, ap_origin_signature p) of
        (None, None, None) \<Rightarrow> True
      | (Some n, Some c, s) \<Rightarrow>
          wf_node_id n \<and> physical c \<le> MAX_PHYSICAL \<and> (case s of None \<Rightarrow> True | Some s \<Rightarrow> wf_signature s)
      | _ \<Rightarrow> False)"

definition wf_payload :: "announce_payload \<Rightarrow> bool" where
  "wf_payload p \<longleftrightarrow>
     length (ap_capabilities p) < 65536 \<and> list_all wf_announced (ap_capabilities p) \<and> wf_trailer p"

lemma length_announced_encode: "wf_announced c \<Longrightarrow> length (announced_encode c) = 23"
  by (simp add: wf_announced_def announced_encode_def wf_id_defs size_defs)

lemma from_be_of_to_be_2: "to_be 2 x = [a, b] \<Longrightarrow> from_be [a, b] = (x :: u16)"
  by (metis from_be_to_be_u16)

lemma announced_decode_encode: "wf_announced c \<Longrightarrow> announced_decode (announced_encode c) = Some c"
proof -
  assume wf: "wf_announced c"
  obtain a b where ab: "to_be 2 (ac_latency_ms c) = [a, b]" by (simp add: to_be_2)
  show ?thesis
    using wf from_be_of_to_be_2 [OF ab]
    by (simp add: announced_decode_def announced_encode_def wf_announced_def wf_id_defs size_defs ab nth_append)
qed

lemma length_concat_encode: "list_all wf_announced caps \<Longrightarrow> length (concat (map announced_encode caps)) = 23 * length caps"
  by (induction caps) (simp_all add: length_announced_encode)

lemma chunk_at:
  "list_all wf_announced caps \<Longrightarrow> i < length caps \<Longrightarrow>
     take 23 (drop (i * 23) (concat (map announced_encode caps) @ t)) = announced_encode (caps ! i)"
proof (induction caps arbitrary: i)
  case (Cons c caps)
  then show ?case by (cases i) (simp_all add: length_announced_encode)
qed simp

lemma map_filter_all:
  assumes "\<And>i. i < length xs \<Longrightarrow> f i = Some (xs ! i)"
  shows "List.map_filter f [0..<length xs] = xs"
proof -
  have "List.map_filter f [0..<length xs] = map ((!) xs) [0..<length xs]"
    using assms by (auto simp: List.map_filter_def intro!: map_cong)
  then show ?thesis by (simp add: map_nth)
qed

lemma decode_trailer_origin:
  assumes "wf_trailer p"
  shows "decode_trailer (origin_trailer p) = (ap_origin p, ap_origin_clock p, ap_origin_signature p)"
proof -
  have clock: "physical c \<le> MAX_PHYSICAL \<Longrightarrow> clock_from_bytes (clock_to_bytes c) = c" for c
    by (cases c) (simp add: clock_from_to_bytes take_bit_MAX_PHYSICAL)
  show ?thesis
    using assms
    by (auto simp: wf_trailer_def decode_trailer_def origin_trailer_def wf_id_defs size_defs clock
        split: option.splits)
qed

lemma payload_round_trip:
  assumes "wf_payload p"
  shows "payload_decode (payload_encode p) = Some p"
proof -
  let ?caps = "ap_capabilities p" and ?cs = "concat (map announced_encode (ap_capabilities p))"
  have wf: "list_all wf_announced ?caps" "wf_trailer p" "length ?caps < 65536"
    using assms by (simp_all add: wf_payload_def)
  obtain a b where ab: "to_be 2 (of_nat (length ?caps) :: u16) = [a, b]" by (simp add: to_be_2)
  have n: "unat (from_be [a, b] :: u16) = length ?caps"
    unfolding from_be_of_to_be_2 [OF ab] using wf(3) by (simp add: unat_of_nat take_bit_nat_eq_self)
  let ?d = "[ap_ttl p, a, b] @ ?cs @ origin_trailer p"
  have enc: "payload_encode p = ?d" by (simp add: payload_encode_def ab)
  have len: "length ?cs = 23 * length ?caps" by (rule length_concat_encode [OF wf(1)])
  have skip: "drop (3 + k) ?d = drop k (?cs @ origin_trailer p)" for k
  proof -
    have "drop (3 + k) ?d = drop k (drop 3 ?d)" by (simp only: drop_drop add.commute)
    then show ?thesis by simp
  qed
  have "List.map_filter (\<lambda>i. announced_decode (take 23 (drop (3 + i * 23) ?d))) [0..<length ?caps] = ?caps"
  proof (rule map_filter_all)
    fix i assume i: "i < length ?caps"
    have "announced_decode (take 23 (drop (i * 23) (?cs @ origin_trailer p))) = Some (?caps ! i)"
      using i wf(1) by (simp only: chunk_at announced_decode_encode list_all_length)
    then show "announced_decode (take 23 (drop (3 + i * 23) ?d)) = Some (?caps ! i)" by (simp only: skip)
  qed
  moreover have "drop (3 + length ?caps * 23) ?d = origin_trailer p"
    unfolding skip using len by simp
  ultimately show ?thesis
    unfolding enc payload_decode_def
    using len n by (simp add: decode_trailer_origin [OF wf(2)] Let_def)
qed

lemma clock_from_bytes_bound: "length bs = 7 \<Longrightarrow> physical (clock_from_bytes bs) \<le> MAX_PHYSICAL"
  using from_be_5_bound [of "take 5 bs"] by (simp add: clock_from_bytes_def from_be_zeros [of 3, simplified])

lemma decode_trailer_wf:
  "decode_trailer t = (n, c, s) \<Longrightarrow>
     wf_trailer \<lparr>ap_ttl = l, ap_capabilities = cs, ap_origin = n, ap_origin_clock = c, ap_origin_signature = s\<rparr>"
  by (auto simp: decode_trailer_def wf_trailer_def wf_id_defs size_defs clock_from_bytes_bound split: if_splits)

lemma payload_decode_wf: "payload_decode data = Some p \<Longrightarrow> wf_payload p"
proof -
  assume d: "payload_decode data = Some p"
  let ?n = "unat (from_be [data ! 1, data ! 2] :: u16)"
  have len: "3 + ?n * 23 \<le> length data" "3 \<le> length data"
    using d by (auto simp: payload_decode_def Let_def split: if_splits)
  have caps: "ap_capabilities p
      = List.map_filter (\<lambda>i. announced_decode (take 23 (drop (3 + i * 23) data))) [0..<?n]"
    and tr: "wf_trailer p"
    using d decode_trailer_wf by (auto simp: payload_decode_def Let_def split: if_splits prod.splits)
  have "?n < 65536" using unsigned_less [of "from_be [data ! 1, data ! 2] :: u16"] by simp
  moreover have "length (List.map_filter f xs) \<le> length xs" for f :: "nat \<Rightarrow> announced_capability option" and xs
    by (simp add: List.map_filter_def)
  ultimately have "length (ap_capabilities p) < 65536"
    unfolding caps by (metis (no_types, lifting) length_upt diff_zero le_less_trans)
  moreover have "list_all wf_announced (ap_capabilities p)"
    unfolding caps list_all_iff
    by (auto simp: List.map_filter_def announced_decode_def wf_announced_def wf_id_defs size_defs split: if_splits)
  ultimately show ?thesis using tr by (simp add: wf_payload_def)
qed

section \<open>The table of announcements seen\<close>

definition advances :: "nat \<Rightarrow> seen_map \<Rightarrow> seen_map \<Rightarrow> bool" where
  "advances now s s' \<longleftrightarrow>
     (\<forall>k e. hm_get s k = Some e \<longrightarrow>
        (\<exists>e'. hm_get s' k = Some e' \<and> sa_clock e \<le> sa_clock e' \<and>
              (sa_first_seen e' = sa_first_seen e \<or> sa_first_seen e' = now)))"

definition covers :: "nat \<Rightarrow> node_id \<Rightarrow> hybrid_clock \<Rightarrow> intent_hash \<Rightarrow> seen_map \<Rightarrow> bool" where
  "covers now origin clock ih s \<longleftrightarrow>
     (\<exists>e. hm_get s (origin, ih) = Some e \<and> clock \<le> sa_clock e \<and> sa_first_seen e = now)"

definition is_new :: "node_id \<Rightarrow> hybrid_clock \<Rightarrow> intent_hash \<Rightarrow> seen_map \<Rightarrow> bool" where
  "is_new origin clock ih s \<longleftrightarrow>
     (case hm_get s (origin, ih) of None \<Rightarrow> True | Some e \<Rightarrow> sa_clock e < clock)"

lemma touch_seen_get:
  "hm_get (fst (touch_seen now origin clock cap (s, b))) k =
     (if k = (origin, ac_intent_hash cap)
      then Some (case hm_get s k of
             Some e \<Rightarrow> if sa_clock e < clock
                      then e\<lparr>sa_first_seen := now, sa_clock := clock, sa_count := sa_count e + 1\<rparr>
                      else e\<lparr>sa_first_seen := now\<rparr>
           | None \<Rightarrow> \<lparr>sa_first_seen = now, sa_clock = clock, sa_count = 1\<rparr>)
      else hm_get s k)"
  by (simp add: touch_seen_def Let_def happens_before_less split: option.split)

lemma touch_seen_fresh:
  "snd (touch_seen now origin clock cap (s, b)) \<longleftrightarrow> b \<or> is_new origin clock (ac_intent_hash cap) s"
  by (auto simp: touch_seen_def Let_def happens_before_less is_new_def split: option.split)

lemma touch_seen_advances: "advances now s (fst (touch_seen now origin clock cap (s, b)))"
  by (auto simp: advances_def touch_seen_get)

lemma touch_seen_covers: "covers now origin clock (ac_intent_hash cap) (fst (touch_seen now origin clock cap (s, b)))"
  by (auto simp: covers_def touch_seen_get split: option.split)

lemma advances_refl: "advances now s s"
  by (auto simp: advances_def)

lemma advancesE:
  assumes "advances now s s'" "hm_get s k = Some e"
  obtains e' where "hm_get s' k = Some e'" "sa_clock e \<le> sa_clock e'"
    and "sa_first_seen e' = sa_first_seen e \<or> sa_first_seen e' = now"
  using assms unfolding advances_def by blast

lemma advances_trans:
  assumes "advances now s t" "advances now t u"
  shows "advances now s u"
  unfolding advances_def
proof (intro allI impI)
  fix k e assume e: "hm_get s k = Some e"
  obtain e' where e': "hm_get t k = Some e'" "sa_clock e \<le> sa_clock e'"
      "sa_first_seen e' = sa_first_seen e \<or> sa_first_seen e' = now"
    using assms(1) e by (rule advancesE)
  obtain e'' where "hm_get u k = Some e''" "sa_clock e' \<le> sa_clock e''"
      "sa_first_seen e'' = sa_first_seen e' \<or> sa_first_seen e'' = now"
    using assms(2) e'(1) by (rule advancesE)
  then show "\<exists>e'. hm_get u k = Some e' \<and> sa_clock e \<le> sa_clock e' \<and>
      (sa_first_seen e' = sa_first_seen e \<or> sa_first_seen e' = now)"
    using e'(2,3) by auto
qed

lemma covers_advances: "covers now origin clock ih s \<Longrightarrow> advances now s t \<Longrightarrow> covers now origin clock ih t"
  unfolding covers_def by (auto elim!: advancesE intro: order_trans)

lemma is_new_advances: "is_new origin clock ih t \<Longrightarrow> advances now s t \<Longrightarrow> is_new origin clock ih s"
  by (auto simp: is_new_def split: option.splits elim!: advancesE)

abbreviation touch_all where
  "touch_all now origin clock caps st \<equiv> fold (touch_seen now origin clock) caps st"

lemma touch_all_advances: "advances now s (fst (touch_all now origin clock caps (s, b)))"
proof (induction caps arbitrary: s b)
  case (Cons c caps)
  obtain t b' where t: "touch_seen now origin clock c (s, b) = (t, b')" by fastforce
  then have "advances now s t" using touch_seen_advances [of now s origin clock c b] by simp
  then show ?case using Cons [of t b'] t by (auto intro: advances_trans)
qed (simp add: advances_refl)

lemma touch_all_covers:
  "cap \<in> set caps \<Longrightarrow> covers now origin clock (ac_intent_hash cap) (fst (touch_all now origin clock caps (s, b)))"
proof (induction caps arbitrary: s b)
  case (Cons c caps)
  obtain t b' where t: "touch_seen now origin clock c (s, b) = (t, b')" by fastforce
  show ?case
  proof (cases "cap = c")
    case True
    then have "covers now origin clock (ac_intent_hash cap) t"
      using touch_seen_covers [of now origin clock c s b] t by simp
    then show ?thesis using touch_all_advances [of now t origin clock caps b'] t
      by (auto intro: covers_advances)
  next
    case False
    then show ?thesis using Cons t by simp
  qed
qed simp

lemma touch_all_fresh:
  "snd (touch_all now origin clock caps (s, b)) \<Longrightarrow>
     b \<or> (\<exists>cap \<in> set caps. is_new origin clock (ac_intent_hash cap) s)"
proof (induction caps arbitrary: s b)
  case (Cons c caps)
  obtain t b' where t: "touch_seen now origin clock c (s, b) = (t, b')" by fastforce
  have "advances now s t" "b' \<longleftrightarrow> b \<or> is_new origin clock (ac_intent_hash c) s"
    using touch_seen_advances [of now s origin clock c b] touch_seen_fresh [of now origin clock c s b] t
    by simp_all
  moreover have "b' \<or> (\<exists>cap \<in> set caps. is_new origin clock (ac_intent_hash cap) t)"
    using Cons t by simp
  ultimately show ?case using is_new_advances [of origin clock _ t now s] by auto
qed simp

lemma touch_all_fresh_mono: "b \<Longrightarrow> snd (touch_all now origin clock caps (s, b))"
proof (induction caps arbitrary: s b)
  case (Cons c caps)
  obtain t b' where t: "touch_seen now origin clock c (s, b) = (t, b')" by fastforce
  then have "b'" using touch_seen_fresh [of now origin clock c s b] Cons.prems by simp
  then show ?case using Cons.IH [of b' t] t by simp
qed simp

lemma touch_all_other:
  "fst k \<noteq> origin \<Longrightarrow> hm_get (fst (touch_all now origin clock caps (s, b))) k = hm_get s k"
proof (induction caps arbitrary: s b)
  case (Cons c caps)
  obtain t b' where t: "touch_seen now origin clock c (s, b) = (t, b')" by fastforce
  then have "hm_get t k = hm_get s k"
    using Cons.prems touch_seen_get [of now origin clock c s b k] by (cases k) simp
  then show ?case using Cons t by simp
qed simp

section \<open>What is accepted\<close>

text \<open>The signed claim an announcement frame carries.\<close>

definition origin_claim ::
    "frame \<Rightarrow> (node_id \<times> hybrid_clock \<times> announced_capability list \<times> signature) option" where
  "origin_claim f =
     (case payload_decode (fr_payload f) of
        None \<Rightarrow> None
      | Some p \<Rightarrow>
          (case (ap_origin p, ap_origin_clock p, ap_origin_signature p) of
             (Some n, Some c, Some s) \<Rightarrow> Some (n, c, ap_capabilities p, s)
           | _ \<Rightarrow> None))"

definition claim_ttl :: "frame \<Rightarrow> u8" where
  "claim_ttl f = (case payload_decode (fr_payload f) of None \<Rightarrow> 0 | Some p \<Rightarrow> ap_ttl p)"

definition claim_valid ::
    "ed25519 \<Rightarrow> u64 \<Rightarrow> announcement_manager \<Rightarrow> node_id \<times> hybrid_clock \<times> announced_capability list \<times> signature \<Rightarrow> bool" where
  "claim_valid E now_secs m cl \<longleftrightarrow>
     (case cl of (n, c, caps, s) \<Rightarrow>
        node_id_verify E n (origin_signing_bytes_for n c caps) s \<and> within_skew now_secs (physical c) \<and>
        n \<noteq> keypair_node_id E (am_identity m))"

lemma process_cases:
  "process_announcement E now_secs now f m =
     (case origin_claim f of
        None \<Rightarrow> (m, None)
      | Some (n, c, caps, s) \<Rightarrow>
          if \<not> claim_valid E now_secs m (n, c, caps, s) then (m, None)
          else
            (let (seen, fresh) = touch_all now n c caps (am_seen m, False);
                 m' = m\<lparr>am_seen := seen\<rparr>
             in if \<not> fresh then (m', None)
                else
                  (let (m'', fwd) = forward_announcement E now_secs m' f
                         (min (claim_ttl f) MAX_ACCEPTED_ANNOUNCE_TTL) caps n c s
                   in (m'', Some (caps, fwd)))))"
  by (auto simp: process_announcement_def origin_claim_def claim_valid_def claim_ttl_def Let_def
      split: option.split prod.split)

lemma forward_keeps:
  assumes "forward_announcement E now_secs m f ttl caps n c s = (m', fwd)"
  shows "am_seen m' = am_seen m \<and> am_identity m' = am_identity m \<and>
     am_local_capabilities m' = am_local_capabilities m"
  using assms by (auto simp: forward_announcement_def Let_def split: if_splits prod.splits)

lemma process_accepts:
  assumes "process_announcement E now_secs now f m = (m', Some (caps, fwd))"
  obtains n c s where "origin_claim f = Some (n, c, caps, s)" "claim_valid E now_secs m (n, c, caps, s)"
    and "am_seen m' = fst (touch_all now n c caps (am_seen m, False))"
    and "\<exists>cap \<in> set caps. is_new n c (ac_intent_hash cap) (am_seen m)"
    and "forward_announcement E now_secs (m\<lparr>am_seen := am_seen m'\<rparr>) f
           (min (claim_ttl f) MAX_ACCEPTED_ANNOUNCE_TTL) caps n c s = (m', fwd)"
    and "am_identity m' = am_identity m"
proof -
  obtain n c s where cl: "origin_claim f = Some (n, c, caps, s)"
    using assms by (auto simp: process_cases Let_def split: option.splits if_splits prod.splits)
  have v: "claim_valid E now_secs m (n, c, caps, s)"
    using assms by (auto simp: process_cases cl split: if_splits)
  obtain seen fresh where sf: "touch_all now n c caps (am_seen m, False) = (seen, fresh)" by fastforce
  have fr: "fresh" "forward_announcement E now_secs (m\<lparr>am_seen := seen\<rparr>) f
      (min (claim_ttl f) MAX_ACCEPTED_ANNOUNCE_TTL) caps n c s = (m', fwd)"
    using assms v by (auto simp: process_cases cl sf Let_def split: if_splits prod.splits)
  moreover have "am_seen m' = seen \<and> am_identity m' = am_identity m"
    using forward_keeps [OF fr(2)] by simp
  moreover have "\<exists>cap \<in> set caps. is_new n c (ac_intent_hash cap) (am_seen m)"
    using touch_all_fresh [of now n c caps "am_seen m" False] sf fr(1) by simp
  ultimately show thesis using that cl v sf by simp
qed

lemma process_advances:
  assumes "process_announcement E now_secs now f m = (m', out)"
  shows "advances now (am_seen m) (am_seen m') \<and> am_identity m' = am_identity m"
proof (cases "origin_claim f")
  case None
  then show ?thesis using assms by (simp add: process_cases advances_refl)
next
  case (Some cl)
  obtain n c caps s where cl: "cl = (n, c, caps, s)" by (cases cl)
  obtain seen fresh where sf: "touch_all now n c caps (am_seen m, False) = (seen, fresh)" by fastforce
  have a: "advances now (am_seen m) seen"
    using touch_all_advances [of now "am_seen m" n c caps False] sf by simp
  obtain m2 fwd where fw: "forward_announcement E now_secs (m\<lparr>am_seen := seen\<rparr>) f
      (min (claim_ttl f) MAX_ACCEPTED_ANNOUNCE_TTL) caps n c s = (m2, fwd)" by fastforce
  show ?thesis
    using assms a forward_keeps [OF fw]
    by (auto simp: process_cases Some cl sf fw Let_def advances_refl split: if_splits)
qed

section \<open>No announcement is accepted twice\<close>

definition ANNOUNCEMENT_MAX_AGE :: nat where "ANNOUNCEMENT_MAX_AGE = 30 * 60 * 1000000000"

text \<open>
  A node's manager over time. The history records each announcement it accepted: the claim and the
  time. Creating announcements and changing the local capabilities leave the table alone. \<open>wall\<close> maps
  the monotonic clock to the seconds the wall clock shows then.
\<close>

record gossip_run =
  gr_mgr :: announcement_manager
  gr_now :: nat
  gr_accepted :: "(node_id \<times> hybrid_clock \<times> announced_capability list \<times> nat) list"

definition gossip_start :: "gossip_run \<Rightarrow> bool" where
  "gossip_start s \<longleftrightarrow> (\<exists>k secs t. s = \<lparr>gr_mgr = manager_new k secs, gr_now = t, gr_accepted = []\<rparr>)"

inductive gossip_step :: "ed25519 \<Rightarrow> (nat \<Rightarrow> u64) \<Rightarrow> gossip_run \<Rightarrow> gossip_run \<Rightarrow> bool"
  for E :: ed25519 and wall :: "nat \<Rightarrow> u64" where
  gossip_accept:
    "gr_now s \<le> now \<Longrightarrow> process_announcement E (wall now) now f (gr_mgr s) = (m', Some (caps, fwd)) \<Longrightarrow>
     origin_claim f = Some (n, c, caps, sig) \<Longrightarrow>
     gossip_step E wall s (s\<lparr>gr_mgr := m', gr_now := now, gr_accepted := (n, c, caps, now) # gr_accepted s\<rparr>)"
| gossip_refuse:
    "gr_now s \<le> now \<Longrightarrow> process_announcement E (wall now) now f (gr_mgr s) = (m', None) \<Longrightarrow>
     gossip_step E wall s (s\<lparr>gr_mgr := m', gr_now := now\<rparr>)"
| gossip_cleanup:
    "gr_now s \<le> now \<Longrightarrow>
     gossip_step E wall s (s\<lparr>gr_mgr := cleanup_stale now ANNOUNCEMENT_MAX_AGE (gr_mgr s), gr_now := now\<rparr>)"
| gossip_create:
    "gr_now s \<le> now \<Longrightarrow> create_announcement E (wall now) ttl (gr_mgr s) = (m', f) \<Longrightarrow>
     gossip_step E wall s (s\<lparr>gr_mgr := m', gr_now := now\<rparr>)"
| gossip_register:
    "gossip_step E wall s (s\<lparr>gr_mgr := register_capability cap (gr_mgr s)\<rparr>)"
| gossip_unregister:
    "gossip_step E wall s (s\<lparr>gr_mgr := unregister_capability ih (gr_mgr s)\<rparr>)"

text \<open>An accepted claim is still covered by the table, unless it is too old for any replay to be fresh.\<close>

definition still_covered :: "seen_map \<Rightarrow> nat \<Rightarrow> node_id \<Rightarrow> hybrid_clock \<Rightarrow> nat \<Rightarrow> intent_hash \<Rightarrow> bool" where
  "still_covered seen now n c t ih \<longleftrightarrow>
     (\<exists>e. hm_get seen (n, ih) = Some e \<and> c \<le> sa_clock e \<and> t \<le> sa_first_seen e) \<or>
     t + ANNOUNCEMENT_MAX_AGE \<le> now"

definition accepted_inv :: "(nat \<Rightarrow> u64) \<Rightarrow> gossip_run \<Rightarrow> bool" where
  "accepted_inv wall s \<longleftrightarrow>
     (\<forall>(n, c, caps, t) \<in> set (gr_accepted s).
        t \<le> gr_now s \<and> within_skew (wall t) (physical c) \<and>
        (\<forall>cap \<in> set caps. still_covered (am_seen (gr_mgr s)) (gr_now s) n c t (ac_intent_hash cap)))"

definition wall_steady :: "(nat \<Rightarrow> u64) \<Rightarrow> nat \<Rightarrow> bool" where
  "wall_steady wall now \<longleftrightarrow>
     (\<forall>t t'. t + ANNOUNCEMENT_MAX_AGE \<le> t' \<and> t' \<le> now \<longrightarrow>
        unat (wall t) + 2 * unat MAX_ANNOUNCE_CLOCK_SKEW < unat (wall t'))"

definition once_inv :: "(nat \<Rightarrow> u64) \<Rightarrow> gossip_run \<Rightarrow> bool" where
  "once_inv wall s \<longleftrightarrow>
     accepted_inv wall s \<and>
     (wall_steady wall (gr_now s) \<longrightarrow> distinct (map (\<lambda>(n, c, caps, t). (n, c, caps)) (gr_accepted s)))"

lemma still_covered_advances:
  assumes "still_covered seen now n c t ih" "advances now' seen seen'" "now \<le> now'" "t \<le> now'"
  shows "still_covered seen' now' n c t ih"
proof (cases "t + ANNOUNCEMENT_MAX_AGE \<le> now'")
  case False
  then obtain e where e: "hm_get seen (n, ih) = Some e" "c \<le> sa_clock e" "t \<le> sa_first_seen e"
    using assms(1,3) by (auto simp: still_covered_def)
  obtain e' where "hm_get seen' (n, ih) = Some e'" "sa_clock e \<le> sa_clock e'"
      "sa_first_seen e' = sa_first_seen e \<or> sa_first_seen e' = now'"
    using assms(2) e(1) by (rule advancesE)
  then show ?thesis using e assms(4) by (auto simp: still_covered_def)
qed (simp add: still_covered_def)

lemma hm_get_retain_keep: "hm_get m k = Some v \<Longrightarrow> P k v \<Longrightarrow> hm_get (hm_retain P m) k = Some v"
  by (induction m) (auto simp: hm_get_def hm_retain_def split: if_splits)

lemma still_covered_cleanup:
  assumes "still_covered seen now n c t ih" "now \<le> now'"
  shows "still_covered (hm_retain (\<lambda>_ v. now' - sa_first_seen v < ANNOUNCEMENT_MAX_AGE) seen) now' n c t ih"
    (is "still_covered (hm_retain ?P seen) _ _ _ _ _")
proof (cases "t + ANNOUNCEMENT_MAX_AGE \<le> now'")
  case False
  then obtain e where e: "hm_get seen (n, ih) = Some e" "c \<le> sa_clock e" "t \<le> sa_first_seen e"
    using assms by (auto simp: still_covered_def)
  have "0 < ANNOUNCEMENT_MAX_AGE" by (simp add: ANNOUNCEMENT_MAX_AGE_def)
  then have "?P (n, ih) e" using e(3) False by linarith
  then show ?thesis using e hm_get_retain_keep [of seen "(n, ih)" e ?P] by (auto simp: still_covered_def)
qed (simp add: still_covered_def)

lemma accepted_inv_mono:
  assumes "accepted_inv wall s" "gr_accepted s' = gr_accepted s" "gr_now s \<le> gr_now s'"
    and "\<And>n c t ih. t \<le> gr_now s \<Longrightarrow> still_covered (am_seen (gr_mgr s)) (gr_now s) n c t ih \<Longrightarrow>
      still_covered (am_seen (gr_mgr s')) (gr_now s') n c t ih"
  shows "accepted_inv wall s'"
  using assms by (fastforce simp: accepted_inv_def)

lemma within_skew_dist:
  assumes "within_skew a p" "within_skew b p"
  shows "unat b \<le> unat a + 2 * unat MAX_ANNOUNCE_CLOCK_SKEW"
proof -
  have d: "unat (abs_diff x y) = (if x \<le> y then unat y - unat x else unat x - unat y)" for x y
    by (simp add: abs_diff_def unat_sub)
  have "unat (abs_diff a p) \<le> unat MAX_ANNOUNCE_CLOCK_SKEW" "unat (abs_diff b p) \<le> unat MAX_ANNOUNCE_CLOCK_SKEW"
    using assms by (simp_all add: within_skew_def word_le_nat_alt)
  then show ?thesis unfolding d word_le_nat_alt by (auto split: if_splits)
qed

lemma once_inv_accept:
  assumes inv: "once_inv wall s" and t: "gr_now s \<le> now"
    and p: "process_announcement E (wall now) now f (gr_mgr s) = (m', Some (caps, fwd))"
    and cl: "origin_claim f = Some (n, c, caps, sig)"
  shows "once_inv wall (s\<lparr>gr_mgr := m', gr_now := now, gr_accepted := (n, c, caps, now) # gr_accepted s\<rparr>)"
    (is "once_inv wall ?s")
proof -
  have adv: "advances now (am_seen (gr_mgr s)) (am_seen m')" using process_advances [OF p] by simp
  have old: "accepted_inv wall (s\<lparr>gr_mgr := m', gr_now := now\<rparr>)"
    by (rule accepted_inv_mono [of wall s])
      (use inv t adv in \<open>auto simp: once_inv_def intro: still_covered_advances\<close>)
  have v: "claim_valid E (wall now) (gr_mgr s) (n, c, caps, sig)"
    and seen: "am_seen m' = fst (touch_all now n c caps (am_seen (gr_mgr s), False))"
    and new: "\<exists>cap \<in> set caps. is_new n c (ac_intent_hash cap) (am_seen (gr_mgr s))"
    using process_accepts [OF p] cl by (metis (no_types) option.inject prod.inject)+
  have fresh: "within_skew (wall now) (physical c)" using v by (simp add: claim_valid_def)
  have "covers now n c (ac_intent_hash cap) (am_seen m')" if "cap \<in> set caps" for cap
    unfolding seen by (rule touch_all_covers [OF that])
  then have "\<forall>cap \<in> set caps. still_covered (am_seen m') now n c now (ac_intent_hash cap)"
    by (fastforce simp: covers_def still_covered_def)
  then have inv': "accepted_inv wall ?s" using old fresh by (simp add: accepted_inv_def)
  have "(n, c, caps, t') \<notin> set (gr_accepted s)" if steady: "wall_steady wall now" for t'
  proof
    assume mem: "(n, c, caps, t') \<in> set (gr_accepted s)"
    obtain cap where cap: "cap \<in> set caps" "is_new n c (ac_intent_hash cap) (am_seen (gr_mgr s))"
      using new by blast
    have a: "within_skew (wall t') (physical c)"
        "still_covered (am_seen (gr_mgr s)) (gr_now s) n c t' (ac_intent_hash cap)"
      using inv mem cap(1) by (auto simp: once_inv_def accepted_inv_def)
    then have "t' + ANNOUNCEMENT_MAX_AGE \<le> now"
      using cap(2) t by (auto simp: still_covered_def is_new_def)
    then have "unat (wall t') + 2 * unat MAX_ANNOUNCE_CLOCK_SKEW < unat (wall now)"
      using steady by (simp add: wall_steady_def)
    then show False using within_skew_dist [OF a(1) fresh] by simp
  qed
  moreover have "wall_steady wall now \<Longrightarrow> wall_steady wall (gr_now s)"
    using t by (auto simp: wall_steady_def)
  ultimately show ?thesis using inv inv' by (fastforce simp: once_inv_def)
qed

lemma create_keeps_seen:
  "create_announcement E secs ttl m = (m', f) \<Longrightarrow> am_seen m' = am_seen m \<and> am_identity m' = am_identity m"
  by (auto simp: create_announcement_def Let_def split: prod.splits)

lemma once_inv_other:
  assumes "once_inv wall s" "gr_accepted s' = gr_accepted s" "gr_now s \<le> gr_now s'"
    and "\<And>n c t ih. t \<le> gr_now s \<Longrightarrow> still_covered (am_seen (gr_mgr s)) (gr_now s) n c t ih \<Longrightarrow>
      still_covered (am_seen (gr_mgr s')) (gr_now s') n c t ih"
  shows "once_inv wall s'"
proof -
  have "wall_steady wall (gr_now s') \<Longrightarrow> wall_steady wall (gr_now s)"
    using assms(3) by (auto simp: wall_steady_def)
  then show ?thesis using assms accepted_inv_mono [of wall s s'] by (simp add: once_inv_def)
qed

lemma still_covered_later: "still_covered seen now n c t ih \<Longrightarrow> now \<le> now' \<Longrightarrow> still_covered seen now' n c t ih"
  by (auto simp: still_covered_def)

interpretation gossip: state_machine gossip_start "gossip_step E wall" "once_inv wall" for E wall
proof unfold_locales
  fix s assume "gossip_start s"
  then show "once_inv wall s" by (auto simp: gossip_start_def once_inv_def accepted_inv_def)
next
  fix s s' assume inv: "once_inv wall s" and "gossip_step E wall s s'"
  from this(2) show "once_inv wall s'"
  proof cases
    case (gossip_accept now f m' caps fwd n c sig)
    then show ?thesis using once_inv_accept [OF inv] by simp
  next
    case (gossip_refuse now f m')
    then show ?thesis
      using process_advances [OF gossip_refuse(3)]
      by (intro once_inv_other [OF inv]) (auto intro: still_covered_advances)
  next
    case (gossip_cleanup now)
    then show ?thesis
      by (intro once_inv_other [OF inv]) (auto simp: cleanup_stale_def intro: still_covered_cleanup)
  next
    case (gossip_create now ttl m' f)
    then show ?thesis
      using create_keeps_seen [OF gossip_create(3)]
      by (intro once_inv_other [OF inv]) (auto intro: still_covered_later)
  next
    case (gossip_register cap)
    then show ?thesis by (intro once_inv_other [OF inv]) (simp_all add: register_capability_def)
  next
    case (gossip_unregister ih)
    then show ?thesis by (intro once_inv_other [OF inv]) (simp_all add: unregister_capability_def)
  qed
qed

section \<open>Created announcements are accepted\<close>

lemma foldl_add_capability [simp]:
  "foldl add_capability p caps = p\<lparr>ap_capabilities := ap_capabilities p @ caps\<rparr>"
  by (induction caps arbitrary: p) (simp_all add: add_capability_def)

definition announcement_clock :: "u64 \<Rightarrow> announcement_manager \<Rightarrow> hybrid_clock" where
  "announcement_clock now_secs m = snd (cm_tick (cm_sync_physical (am_clock m) now_secs))"

lemma create_claim:
  assumes "ed25519_correct E" "wf_keypair (am_identity m)" "create_announcement E secs ttl m = (m', f)"
    and "length (am_local_capabilities m) < 65536" "list_all wf_announced (am_local_capabilities m)"
    and "physical (announcement_clock secs m) \<le> MAX_PHYSICAL"
  shows "\<exists>sig. origin_claim f = Some (keypair_node_id E (am_identity m), announcement_clock secs m,
           am_local_capabilities m, sig) \<and>
         node_id_verify E (keypair_node_id E (am_identity m)) (origin_signing_bytes_for
           (keypair_node_id E (am_identity m)) (announcement_clock secs m) (am_local_capabilities m)) sig"
    and "claim_ttl f = min ttl MAX_ANNOUNCE_TTL"
proof -
  let ?n = "keypair_node_id E (am_identity m)" and ?c = "announcement_clock secs m"
    and ?caps = "am_local_capabilities m"
  let ?sig = "keypair_sign E (am_identity m) (origin_signing_bytes_for ?n ?c ?caps)"
  let ?p = "\<lparr>ap_ttl = min ttl MAX_ANNOUNCE_TTL, ap_capabilities = ?caps, ap_origin = Some ?n,
      ap_origin_clock = Some ?c, ap_origin_signature = Some ?sig\<rparr>"
  have wf: "wf_payload ?p"
    using assms(4-6) keypair_node_id_wf [OF assms(1,2)] wf_keypair_sign [OF assms(1,2)]
    by (simp add: wf_payload_def wf_trailer_def)
  have "fr_payload f = payload_encode ?p"
    using assms(3)
    by (auto simp: create_announcement_def announcement_clock_def Let_def frame_new_def with_origin_def
        with_origin_signature_def payload_new_def split: prod.splits)
  then have d: "payload_decode (fr_payload f) = Some ?p" using payload_round_trip [OF wf] by simp
  show "\<exists>sig. origin_claim f = Some (?n, ?c, ?caps, sig) \<and>
      node_id_verify E ?n (origin_signing_bytes_for ?n ?c ?caps) sig"
    using keypair_sign_verifies [OF assms(1,2)] by (auto simp: origin_claim_def d)
  show "claim_ttl f = min ttl MAX_ANNOUNCE_TTL" by (simp add: claim_ttl_def d)
qed

lemma touch_all_is_new:
  assumes "cap \<in> set caps" "is_new origin clock (ac_intent_hash cap) s"
  shows "snd (touch_all now origin clock caps (s, b))"
  using assms
proof (induction caps arbitrary: s b)
  case (Cons c caps)
  obtain t b' where t: "touch_seen now origin clock c (s, b) = (t, b')" by fastforce
  have b': "b' \<longleftrightarrow> b \<or> is_new origin clock (ac_intent_hash c) s"
    using touch_seen_fresh [of now origin clock c s b] t by simp
  show ?case
  proof (cases "ac_intent_hash cap = ac_intent_hash c")
    case True
    then have "b'" using b' Cons.prems(2) by simp
    then show ?thesis using touch_all_fresh_mono [of b' now origin clock caps t] t by simp
  next
    case False
    then have "hm_get t (origin, ac_intent_hash cap) = hm_get s (origin, ac_intent_hash cap)"
      using touch_seen_get [of now origin clock c s b "(origin, ac_intent_hash cap)"] t by simp
    then have "is_new origin clock (ac_intent_hash cap) t" using Cons.prems(2) by (simp add: is_new_def)
    then show ?thesis using Cons.IH [of t b'] Cons.prems(1) False t by auto
  qed
qed simp

lemma created_accepted:
  assumes "ed25519_correct E" "wf_keypair (am_identity m)" "create_announcement E secs ttl m = (m', f)"
    and "length (am_local_capabilities m) < 65536" "list_all wf_announced (am_local_capabilities m)"
    and "physical (announcement_clock secs m) \<le> MAX_PHYSICAL"
    and "keypair_node_id E (am_identity r) \<noteq> keypair_node_id E (am_identity m)"
    and "within_skew now_secs (physical (announcement_clock secs m))"
    and "cap \<in> set (am_local_capabilities m)"
    and "is_new (keypair_node_id E (am_identity m)) (announcement_clock secs m) (ac_intent_hash cap) (am_seen r)"
    and "fr_payload g = fr_payload f"
  shows "\<exists>r' fwd. process_announcement E now_secs now g r = (r', Some (am_local_capabilities m, fwd)) \<and>
     (fwd = None \<longleftrightarrow> ttl = 0)"
proof -
  let ?n = "keypair_node_id E (am_identity m)" and ?c = "announcement_clock secs m"
    and ?caps = "am_local_capabilities m"
  obtain sig where cl: "origin_claim f = Some (?n, ?c, ?caps, sig)"
      "node_id_verify E ?n (origin_signing_bytes_for ?n ?c ?caps) sig"
    using create_claim(1) [OF assms(1-6)] by blast
  have g: "origin_claim g = origin_claim f" "claim_ttl g = claim_ttl f"
    by (simp_all add: origin_claim_def claim_ttl_def assms(11))
  have v: "claim_valid E now_secs r (?n, ?c, ?caps, sig)"
    using cl(2) assms(7,8) by (auto simp: claim_valid_def)
  obtain seen fresh where sf: "touch_all now ?n ?c ?caps (am_seen r, False) = (seen, fresh)" by fastforce
  have "fresh" using touch_all_is_new [OF assms(9,10), of now False] sf by simp
  moreover have "forward_announcement E now_secs r' g (min (claim_ttl f) MAX_ACCEPTED_ANNOUNCE_TTL) ?caps ?n ?c sig
      = (r'', fwd) \<Longrightarrow> fwd = None \<longleftrightarrow> ttl = 0" for r' r'' fwd
    using create_claim(2) [OF assms(1-6)]
    by (auto simp: forward_announcement_def Let_def min_def MAX_ANNOUNCE_TTL_def MAX_ROUTE_INDIRECTION_def
        MAX_ACCEPTED_ANNOUNCE_TTL_def word_greater_zero_iff split: if_splits prod.splits)
  ultimately show ?thesis using v by (auto simp: process_cases g cl(1) sf Let_def split: prod.split)
qed

text \<open>What a node creates and puts on the wire is accepted as a verified frame.\<close>

lemma announcement_verified:
  assumes "ed25519_correct E" "wf_keypair (am_identity m)" "create_announcement E secs ttl m = (m', f)"
    and "length (am_local_capabilities m) < 65536" "list_all wf_announced (am_local_capabilities m)"
    and "physical (announcement_clock secs m) \<le> MAX_PHYSICAL"
  shows "decode_verified_frame E (sign_and_encode_frame E (am_identity m) f)
      = Some (f\<lparr>fr_auth := AuthSignature (keypair_sign E (am_identity m) (signature_data f))\<rparr>)"
    and "fh_frame_type (fr_header f) = FtAnnounce" "fr_routing f = None"
    and "fh_sender_id (fr_header f) = keypair_node_id E (am_identity m)"
proof -
  note n = keypair_node_id_wf [OF assms(1,2)]
  obtain p where f: "f = frame_new (with_clock (with_trust_level (frame_header_new FtAnnounce
        (keypair_node_id E (am_identity m))) TlSig) (announcement_clock secs m)) PtRaw (payload_encode p)"
      "ap_capabilities p = am_local_capabilities m" "length (origin_trailer p) \<le> 103"
    using assms(3) n wf_keypair_sign [OF assms(1,2)]
    by (auto simp: create_announcement_def announcement_clock_def Let_def origin_trailer_def with_origin_def
        with_origin_signature_def payload_new_def wf_id_defs size_defs split: prod.splits)
  have "length (payload_encode p) \<le> MAX_PAYLOAD_SIZE"
    using f(2,3) assms(4) length_concat_encode [OF assms(5)]
    by (simp add: payload_encode_def MAX_PAYLOAD_SIZE_def)
  then have wf: "wf_frame f"
    unfolding f(1) using n assms(6)
    by (intro wf_frame_new) (simp_all add: wf_header_def with_clock_def with_trust_level_def
        frame_header_new_def flags_default_def wf_frame_type_def wf_payload_type_def)
  show "fh_frame_type (fr_header f) = FtAnnounce" "fr_routing f = None"
    and sender: "fh_sender_id (fr_header f) = keypair_node_id E (am_identity m)"
    by (simp_all add: f(1) frame_new_def with_clock_def with_trust_level_def frame_header_new_def)
  have "fh_trust_level (fr_header f) = TlSig"
    by (simp add: f(1) frame_new_def with_clock_def with_trust_level_def frame_header_new_def)
  then show "decode_verified_frame E (sign_and_encode_frame E (am_identity m) f)
      = Some (f\<lparr>fr_auth := AuthSignature (keypair_sign E (am_identity m) (signature_data f))\<rparr>)"
    using sender by (rule sign_and_encode_accepted [OF assms(1,2) wf])
qed

section \<open>Relaying\<close>

text \<open>An honest node accepts the announcement \<open>f\<close> and sends \<open>g\<close> on: what \<open>process_announcement\<close> built, with a signature.\<close>

definition relayed :: "ed25519 \<Rightarrow> frame \<Rightarrow> frame \<Rightarrow> bool" where
  "relayed E f g \<longleftrightarrow>
     (\<exists>now_secs now m m' caps h a.
        process_announcement E now_secs now f m = (m', Some (caps, Some h)) \<and> g = h\<lparr>fr_auth := a\<rparr>)"

lemma relayed_claim:
  assumes "relayed E f g"
  shows "origin_claim g = origin_claim f" "unat (claim_ttl g) < min (unat (claim_ttl f)) 2"
proof -
  obtain now_secs now m m' caps h a where
    p: "process_announcement E now_secs now f m = (m', Some (caps, Some h))" and g: "g = h\<lparr>fr_auth := a\<rparr>"
    using assms by (auto simp: relayed_def)
  from p obtain n c s where cl: "origin_claim f = Some (n, c, caps, s)"
    and fw: "forward_announcement E now_secs (m\<lparr>am_seen := am_seen m'\<rparr>) f
           (min (claim_ttl f) MAX_ACCEPTED_ANNOUNCE_TTL) caps n c s = (m', Some h)"
    by (rule process_accepts)
  let ?ttl = "min (claim_ttl f) MAX_ACCEPTED_ANNOUNCE_TTL"
  let ?q = "\<lparr>ap_ttl = ?ttl - 1, ap_capabilities = caps, ap_origin = Some n, ap_origin_clock = Some c,
      ap_origin_signature = Some s\<rparr>"
  have pos: "?ttl > 0" and pay: "fr_payload h = payload_encode ?q"
    using fw by (auto simp: forward_announcement_def Let_def frame_new_def with_origin_def
        with_origin_signature_def payload_new_def split: if_splits prod.splits)
  obtain p where "payload_decode (fr_payload f) = Some p" "ap_capabilities p = caps" "ap_origin p = Some n"
      "ap_origin_clock p = Some c" "ap_origin_signature p = Some s"
    using cl by (auto simp: origin_claim_def split: option.splits)
  then have "wf_payload ?q"
    using payload_decode_wf [of "fr_payload f" p] by (simp add: wf_payload_def wf_trailer_def)
  then have d: "payload_decode (fr_payload g) = Some ?q" using payload_round_trip pay g by simp
  then show "origin_claim g = origin_claim f" using cl by (simp add: origin_claim_def)
  have nz: "?ttl \<noteq> 0" using pos unfolding word_greater_zero_iff .
  have "unat (?ttl - 1) = unat ?ttl - 1" by (rule unat_minus_one [OF nz])
  moreover have "0 < unat ?ttl" using nz unfolding unat_gt_0 .
  moreover have "unat ?ttl = min (unat (claim_ttl f)) 2"
    by (auto simp: MAX_ACCEPTED_ANNOUNCE_TTL_def MAX_ROUTE_INDIRECTION_def min_def word_le_nat_alt)
  moreover have "claim_ttl g = ?ttl - 1" using d by (simp add: claim_ttl_def [of g])
  ultimately show "unat (claim_ttl g) < min (unat (claim_ttl f)) 2"
    by (metis diff_less zero_less_one)
qed

lemma relayed_chain:
  "(relayed E ^^ n) f g \<Longrightarrow> origin_claim g = origin_claim f \<and> (0 < n \<longrightarrow> unat (claim_ttl g) + n \<le> 2)"
proof (induction n arbitrary: g)
  case (Suc n)
  then obtain h where h: "(relayed E ^^ n) f h" "relayed E h g" by auto
  then show ?case using Suc.IH [OF h(1)] relayed_claim [OF h(2)] by (cases n) auto
qed simp

section \<open>A sample exchange\<close>

definition sample_cap :: announced_capability where
  "sample_cap = announced_new (IntentHash (replicate 16 1)) (replicate 4 99)"

definition sample_origin :: announcement_manager where
  "sample_origin = register_capability sample_cap (manager_new (Keypair (replicate 32 1)) 1000)"

definition sample_relay :: announcement_manager where
  "sample_relay = manager_new (Keypair (replicate 32 2)) 1000"

definition sample_announce :: frame where
  "sample_announce = snd (create_announcement plain_ed 1000 2 sample_origin)"

lemma sample_clock: "announcement_clock 1000 sample_origin = HybridClock 1000 1"
  by (simp add: announcement_clock_def sample_origin_def register_capability_def manager_new_def
      cm_sync_physical_def cm_tick_def clock_now_def clock_tick_def sat_add_def Let_def)

lemma sample_conditions:
  "wf_keypair (am_identity sample_origin)" "length (am_local_capabilities sample_origin) < 65536"
  "list_all wf_announced (am_local_capabilities sample_origin)" "am_local_capabilities sample_origin = [sample_cap]"
  "keypair_node_id plain_ed (am_identity sample_relay) \<noteq> keypair_node_id plain_ed (am_identity sample_origin)"
  "am_seen sample_relay = []" "wf_keypair (am_identity sample_relay)"
  by (simp_all add: sample_origin_def sample_relay_def register_capability_def manager_new_def wf_keypair_def
      sample_cap_def announced_new_def wf_announced_def wf_id_defs size_defs keypair_node_id_def plain_ed_def)

lemma sample_created:
  "create_announcement plain_ed 1000 2 sample_origin
     = (fst (create_announcement plain_ed 1000 2 sample_origin), sample_announce)"
  by (simp add: sample_announce_def)

lemma sample_accepted:
  assumes "within_skew now_secs 1000"
  shows "\<exists>r' h. process_announcement plain_ed now_secs now sample_announce sample_relay
     = (r', Some ([sample_cap], Some h))"
proof -
  have "physical (announcement_clock 1000 sample_origin) \<le> MAX_PHYSICAL"
    by (simp add: sample_clock MAX_PHYSICAL_def)
  then obtain r' fwd where "process_announcement plain_ed now_secs now sample_announce sample_relay
      = (r', Some (am_local_capabilities sample_origin, fwd))" "fwd = None \<longleftrightarrow> (2 :: u8) = 0"
    using created_accepted [OF plain_ed_correct sample_conditions(1) sample_created sample_conditions(2,3) _
        sample_conditions(5), of now_secs sample_cap sample_announce now] assms
    by (auto simp: sample_clock sample_conditions is_new_def)
  then show ?thesis by (auto simp: sample_conditions)
qed

section \<open>Properties\<close>

text \<open>
  C18: only an origin speaks for itself. Whatever frame arrives, either it carries a claim that its
  origin signed, made within five minutes of this node's wall clock and by another node, or the manager is
  left unchanged and nothing is passed on; and even a valid claim changes nothing the manager
  remembers of other origins.
\<close>

theorem only_origin_speaks:
  assumes "process_announcement E now_secs now f m = (m', out)"
  shows "(\<exists>n c caps s. origin_claim f = Some (n, c, caps, s) \<and>
            node_id_verify E n (origin_signing_bytes_for n c caps) s \<and>
            unat (abs_diff now_secs (physical c)) \<le> 300 \<and> n \<noteq> keypair_node_id E (am_identity m) \<and>
            (\<forall>k. fst k \<noteq> n \<longrightarrow> hm_get (am_seen m') k = hm_get (am_seen m) k) \<and>
            (out = None \<or> fst (the out) = caps)) \<or>
         m' = m \<and> out = None"
proof (cases "origin_claim f")
  case None
  then show ?thesis using assms by (simp add: process_cases)
next
  case (Some cl)
  obtain n c caps s where cl: "cl = (n, c, caps, s)" by (cases cl)
  obtain seen fresh where sf: "touch_all now n c caps (am_seen m, False) = (seen, fresh)" by fastforce
  obtain m2 fwd where fw: "forward_announcement E now_secs (m\<lparr>am_seen := seen\<rparr>) f
      (min (claim_ttl f) MAX_ACCEPTED_ANNOUNCE_TTL) caps n c s = (m2, fwd)" by fastforce
  show ?thesis
  proof (cases "claim_valid E now_secs m (n, c, caps, s)")
    case False
    then show ?thesis using assms by (simp add: process_cases Some cl)
  next
    case True
    then have "am_seen m' = seen" "out = None \<or> fst (the out) = caps"
      using assms forward_keeps [OF fw]
      by (auto simp: process_cases Some cl sf fw Let_def split: if_splits)
    moreover have "hm_get seen k = hm_get (am_seen m) k" if "fst k \<noteq> n" for k
      using touch_all_other [OF that, of now c caps "am_seen m" False] sf by simp
    moreover have "unat (abs_diff now_secs (physical c)) \<le> 300"
      using True by (simp add: claim_valid_def within_skew_def MAX_ANNOUNCE_CLOCK_SKEW_def word_le_nat_alt)
    ultimately show ?thesis using True Some cl by (auto simp: claim_valid_def)
  qed
qed

theorem only_origin_speaks_witness:
  "\<exists>n c caps s. origin_claim sample_announce = Some (n, c, caps, s) \<and>
     node_id_verify plain_ed n (origin_signing_bytes_for n c caps) s"
proof -
  obtain r' h where p: "process_announcement plain_ed 1000 0 sample_announce sample_relay
      = (r', Some ([sample_cap], Some h))"
    using sample_accepted [of 1000 0] by (auto simp: within_skew_def abs_diff_def MAX_ANNOUNCE_CLOCK_SKEW_def)
  show ?thesis using only_origin_speaks [OF p] by auto
qed

text \<open>
  C19: gossip does not loop. Over any run of a node's manager, with announcements heard in any order and
  repeated at will, and the table of what was seen pruned after thirty minutes, no announcement (origin, clock and
  capabilities) is accepted twice. The wall clock must not have been set back: in half an hour of
  the monotonic clock it gains more than ten minutes.
\<close>

theorem announcement_accepted_once:
  assumes "reaches gossip_start (gossip_step E wall) s" "wall_steady wall (gr_now s)"
  shows "distinct (map (\<lambda>(n, c, caps, t). (n, c, caps)) (gr_accepted s))"
  using gossip.inv_reaches [OF assms(1)] assms(2) by (simp add: once_inv_def)

theorem announcement_accepted_once_witness:
  "\<exists>s. reaches gossip_start (gossip_step plain_ed (\<lambda>t. 1000 + of_nat (t div 1000000000))) s \<and>
     length (gr_accepted s) = 1 \<and> distinct (map (\<lambda>(n, c, caps, t). (n, c, caps)) (gr_accepted s))"
proof -
  let ?wall = "\<lambda>t. 1000 + of_nat (t div 1000000000) :: u64"
  let ?s0 = "\<lparr>gr_mgr = sample_relay, gr_now = 0, gr_accepted = []\<rparr>"
  obtain r' h where p: "process_announcement plain_ed (?wall 0) 0 sample_announce sample_relay
      = (r', Some ([sample_cap], Some h))"
    using sample_accepted [of 1000 0] by (auto simp: within_skew_def abs_diff_def MAX_ANNOUNCE_CLOCK_SKEW_def)
  then obtain n c s where cl: "origin_claim sample_announce = Some (n, c, [sample_cap], s)"
    by (rule process_accepts)
  let ?s1 = "?s0\<lparr>gr_mgr := r', gr_now := 0, gr_accepted := (n, c, [sample_cap], 0) # gr_accepted ?s0\<rparr>"
  have "gossip_start ?s0" unfolding gossip_start_def sample_relay_def by blast
  then have "reaches gossip_start (gossip_step plain_ed ?wall) ?s0" by (rule reaches_start)
  moreover have "gossip_step plain_ed ?wall ?s0 ?s1"
    using gossip_accept [of ?s0 0 plain_ed ?wall sample_announce r' "[sample_cap]" "Some h" n c s] p cl by simp
  ultimately have r: "reaches gossip_start (gossip_step plain_ed ?wall) ?s1" by (rule reaches_step)
  have "wall_steady ?wall (gr_now ?s1)" by (simp add: wall_steady_def ANNOUNCEMENT_MAX_AGE_def)
  then show ?thesis using announcement_accepted_once [OF r] r by (intro exI [of _ ?s1]) simp
qed

text \<open>
  C20: a chain of honest relays carries an announcement at most twice, whatever hop count its sender
  claimed, and at its end the origin, its clock, its capabilities and its signature are those of the start.
\<close>

theorem gossip_hops:
  assumes "(relayed E ^^ n) f g"
  shows "n \<le> unat MAX_ROUTE_INDIRECTION \<and> origin_claim g = origin_claim f"
  using relayed_chain [OF assms] by (auto simp: MAX_ROUTE_INDIRECTION_def)

theorem gossip_hops_witness:
  "\<exists>g. (relayed plain_ed ^^ 1) sample_announce g \<and> origin_claim g = origin_claim sample_announce"
proof -
  obtain r' h where p: "process_announcement plain_ed 1000 0 sample_announce sample_relay
      = (r', Some ([sample_cap], Some h))"
    using sample_accepted [of 1000 0] by (auto simp: within_skew_def abs_diff_def MAX_ANNOUNCE_CLOCK_SKEW_def)
  have "h = h\<lparr>fr_auth := fr_auth h\<rparr>" by simp
  then have r: "(relayed plain_ed ^^ 1) sample_announce h"
    using p unfolding relpowp_1 relayed_def by blast
  then show ?thesis using gossip_hops [OF r] by blast
qed

text \<open>
  An announcement arrives. What a node creates and puts on the wire is accepted as a verified
  frame by every other node, and the other node, if its wall clock is within five minutes and it has no newer
  claim of the origin for one of the capabilities, accepts exactly the capabilities announced. It passes the
  announcement on unless its hop count is used up.
\<close>

lemma announcement_delivered:
  assumes "ed25519_correct E" "wf_keypair (am_identity m)" "create_announcement E secs ttl m = (m', f)"
    and "length (am_local_capabilities m) < 65536" "list_all wf_announced (am_local_capabilities m)"
    and "physical (announcement_clock secs m) \<le> MAX_PHYSICAL"
    and "keypair_node_id E (am_identity r) \<noteq> keypair_node_id E (am_identity m)"
    and "within_skew now_secs (physical (announcement_clock secs m))"
    and "cap \<in> set (am_local_capabilities m)"
    and "is_new (keypair_node_id E (am_identity m)) (announcement_clock secs m) (ac_intent_hash cap) (am_seen r)"
  shows "\<exists>g r' fwd. decode_verified_frame E (sign_and_encode_frame E (am_identity m) f) = Some g \<and>
     process_announcement E now_secs now g r = (r', Some (am_local_capabilities m, fwd)) \<and>
     (fwd = None \<longleftrightarrow> ttl = 0)"
  using created_accepted [OF assms, of "f\<lparr>fr_auth := AuthSignature (keypair_sign E (am_identity m) (signature_data f))\<rparr>" now]
    announcement_verified(1) [OF assms(1-6)]
  by auto



end
