(* ===== verification/Semantic.thy ===== *)
theory Semantic
  imports Announce "HOL-Library.Multiset"
begin

text \<open>
  The registry of who provides what, \<open>axiom-router/src/semantic.rs\<close> (with the intents and constraints
  of \<open>ai.rs\<close>): registration, removal of a node, lookup by hash, category and tag, and the ranked
  discovery that request routing uses. The reputation scores are single-precision floats, whose
  operations are the parameter \<open>f32_ops\<close>: nothing below depends on rounding. A hash table is iterated in the order of its association list.

  The lemmas show that the registry implements the plain relation "node provides capability", and
  that its two indexes are complete and hold nothing that is no longer provided.
\<close>

section \<open>Capabilities and intents\<close>

record category =
  cat_path :: "rstring list"

definition category_from_str :: "rstring \<Rightarrow> category" where
  "category_from_str s = \<lparr>cat_path = split_on 58 s\<rparr>"

definition category_matches :: "category \<Rightarrow> category \<Rightarrow> bool" where
  "category_matches a b \<longleftrightarrow>
     (if length (cat_path a) > length (cat_path b) then False
      else list_all (\<lambda>(x, y). x = y) (zip (cat_path a) (cat_path b)))"

definition category_depth :: "category \<Rightarrow> nat" where
  "category_depth c = length (cat_path c)"

datatype route_constraint =
  MinTrust trust_level | MaxLatency u16 | MaxLoad u8 | PreferAgent node_id | ExcludeAgent node_id
| Custom rstring

record ai_intent =
  ai_hash :: intent_hash
  ai_name :: "rstring option"
  ai_constraints :: "route_constraint list"

definition ai_intent_from_str :: "(u8 list \<Rightarrow> u8 list) \<Rightarrow> rstring \<Rightarrow> ai_intent" where
  "ai_intent_from_str blake3 capability =
     \<lparr>ai_hash = IntentHash (take 16 (blake3 (as_bytes capability))), ai_name = Some capability,
      ai_constraints = []\<rparr>"

definition ai_intent_from_hash :: "intent_hash \<Rightarrow> ai_intent" where
  "ai_intent_from_hash h = \<lparr>ai_hash = h, ai_name = None, ai_constraints = []\<rparr>"

definition ai_with_constraint :: "ai_intent \<Rightarrow> route_constraint \<Rightarrow> ai_intent" where
  "ai_with_constraint i c = i\<lparr>ai_constraints := ai_constraints i @ [c]\<rparr>"

record semantic_capability =
  sc_intent_hash :: intent_hash
  sc_name :: rstring
  sc_category :: category
  sc_tags :: "rstring list"
  sc_version :: u32

definition semantic_new :: "(u8 list \<Rightarrow> u8 list) \<Rightarrow> rstring \<Rightarrow> semantic_capability" where
  "semantic_new blake3 name =
     \<lparr>sc_intent_hash = ai_hash (ai_intent_from_str blake3 name), sc_name = name,
      sc_category = category_from_str name, sc_tags = [], sc_version = 10000\<rparr>"

definition with_tag :: "semantic_capability \<Rightarrow> rstring \<Rightarrow> semantic_capability" where
  "with_tag c t = c\<lparr>sc_tags := sc_tags c @ [t]\<rparr>"

definition version_number :: "u8 \<Rightarrow> u8 \<Rightarrow> u8 \<Rightarrow> u32" where
  "version_number major minor patch = ucast major * 10000 + ucast minor * 100 + ucast patch"

definition with_version :: "semantic_capability \<Rightarrow> u8 \<Rightarrow> u8 \<Rightarrow> u8 \<Rightarrow> semantic_capability" where
  "with_version c major minor patch = c\<lparr>sc_version := version_number major minor patch\<rparr>"

section \<open>The router\<close>

text \<open>Single-precision arithmetic: \<open>f_lit n d\<close> is the literal nearest to \<open>n / d\<close>.\<close>

record 'r f32_ops =
  f_lit :: "nat \<Rightarrow> nat \<Rightarrow> 'r"
  f_of_u32 :: "u32 \<Rightarrow> 'r"
  f_to_u32 :: "'r \<Rightarrow> u32"
  f_add :: "'r \<Rightarrow> 'r \<Rightarrow> 'r"
  f_sub :: "'r \<Rightarrow> 'r \<Rightarrow> 'r"
  f_mul :: "'r \<Rightarrow> 'r \<Rightarrow> 'r"
  f_div :: "'r \<Rightarrow> 'r \<Rightarrow> 'r"
  f_min :: "'r \<Rightarrow> 'r \<Rightarrow> 'r"
  f_clamp :: "'r \<Rightarrow> 'r \<Rightarrow> 'r \<Rightarrow> 'r"

type_synonym providers = "(intent_hash, (node_id \<times> semantic_capability) list) hmap"
type_synonym hash_index = "(rstring, intent_hash list) hmap"

record 'r semantic_router =
  sr_capabilities :: providers
  sr_category_index :: hash_index
  sr_tag_index :: hash_index
  sr_reputation :: "(node_id, 'r) hmap"
  sr_local_id :: node_id

definition router_new :: "node_id \<Rightarrow> 'r semantic_router" where
  "router_new n =
     \<lparr>sr_capabilities = [], sr_category_index = [], sr_tag_index = [], sr_reputation = [],
      sr_local_id = n\<rparr>"

definition or_empty :: "'a list option \<Rightarrow> 'a list" where
  "or_empty x = (case x of None \<Rightarrow> [] | Some xs \<Rightarrow> xs)"

definition add_hash :: "rstring \<Rightarrow> intent_hash \<Rightarrow> hash_index \<Rightarrow> hash_index" where
  "add_hash k h idx =
     (let hashes = or_empty (hm_get idx k)
      in hm_insert k (if h \<in> set hashes then hashes else hashes @ [h]) idx)"

fun join :: "rchar \<Rightarrow> rstring list \<Rightarrow> rstring" where
  "join c [] = []"
| "join c [s] = s"
| "join c (s # ss) = s @ c # join c ss"

definition category_prefixes :: "semantic_capability \<Rightarrow> rstring list" where
  "category_prefixes c =
     map (\<lambda>depth. join 58 (take depth (cat_path (sc_category c)))) [1..<Suc (category_depth (sc_category c))]"

definition register :: "node_id \<Rightarrow> semantic_capability \<Rightarrow> 'r semantic_router \<Rightarrow> 'r semantic_router" where
  "register n cap r =
     (let h = sc_intent_hash cap;
          entries = filter (\<lambda>(i, _). i \<noteq> n) (or_empty (hm_get (sr_capabilities r) h)) @ [(n, cap)]
      in r\<lparr>sr_capabilities := hm_insert h entries (sr_capabilities r),
           sr_category_index := fold (\<lambda>k. add_hash k h) (category_prefixes cap) (sr_category_index r),
           sr_tag_index := fold (\<lambda>k. add_hash k h) (sc_tags cap) (sr_tag_index r)\<rparr>)"

definition hm_map_vals :: "('v \<Rightarrow> 'w) \<Rightarrow> ('k, 'v) hmap \<Rightarrow> ('k, 'w) hmap" where
  "hm_map_vals f m = map (\<lambda>(k, v). (k, f v)) m"

definition without_node :: "node_id \<Rightarrow> providers \<Rightarrow> providers" where
  "without_node n caps =
     hm_retain (\<lambda>_ es. es \<noteq> []) (hm_map_vals (filter (\<lambda>(i, _). i \<noteq> n)) caps)"

definition drop_hash :: "intent_hash \<Rightarrow> hash_index \<Rightarrow> hash_index" where
  "drop_hash h idx = hm_retain (\<lambda>_ hs. hs \<noteq> []) (hm_map_vals (filter (\<lambda>x. x \<noteq> h)) idx)"

definition unregister_node :: "node_id \<Rightarrow> 'r semantic_router \<Rightarrow> 'r semantic_router" where
  "unregister_node n r =
     (let removed = map fst (filter (\<lambda>(_, es). list_ex (\<lambda>(i, _). i = n) es) (sr_capabilities r));
          caps = without_node n (sr_capabilities r);
          prune = fold (\<lambda>h idx. if hm_get caps h \<noteq> None then idx else drop_hash h idx) removed
      in r\<lparr>sr_capabilities := caps, sr_category_index := prune (sr_category_index r),
           sr_tag_index := prune (sr_tag_index r), sr_reputation := hm_remove n (sr_reputation r)\<rparr>)"

definition lookup_hashes :: "intent_hash list \<Rightarrow> 'r semantic_router \<Rightarrow> semantic_capability list" where
  "lookup_hashes hashes r = concat (map (\<lambda>h. map snd (or_empty (hm_get (sr_capabilities r) h))) hashes)"

definition find_by_category :: "rstring \<Rightarrow> 'r semantic_router \<Rightarrow> semantic_capability list" where
  "find_by_category prefix r = lookup_hashes (or_empty (hm_get (sr_category_index r) prefix)) r"

definition find_by_tag :: "rstring \<Rightarrow> 'r semantic_router \<Rightarrow> semantic_capability list" where
  "find_by_tag tag r =
     filter (\<lambda>c. tag \<in> set (sc_tags c)) (lookup_hashes (or_empty (hm_get (sr_tag_index r) tag)) r)"

fun evaluate_constraints :: "node_id \<Rightarrow> 'r semantic_router \<Rightarrow> u32 \<Rightarrow> route_constraint list \<Rightarrow> bool \<times> u32" where
  "evaluate_constraints n r bonus [] = (True, bonus)"
| "evaluate_constraints n r bonus (MinTrust l # cs) =
     (if hm_get (sr_reputation r) n = None \<and> l = TlFull then (False, 0)
      else evaluate_constraints n r bonus cs)"
| "evaluate_constraints n r bonus (MaxLatency _ # cs) = evaluate_constraints n r bonus cs"
| "evaluate_constraints n r bonus (MaxLoad _ # cs) = evaluate_constraints n r bonus cs"
| "evaluate_constraints n r bonus (PreferAgent a # cs) =
     evaluate_constraints n r (if a = n then bonus + 500 else bonus) cs"
| "evaluate_constraints n r bonus (ExcludeAgent a # cs) =
     (if a = n then (False, 0) else evaluate_constraints n r bonus cs)"
| "evaluate_constraints n r bonus (Custom _ # cs) = evaluate_constraints n r bonus cs"

record discovery_result =
  dr_agent :: node_id
  dr_trust_level :: trust_level
  dr_latency_ms :: u16
  dr_load :: u8
  dr_score :: u32

definition get_reputation :: "'r f32_ops \<Rightarrow> 'r semantic_router \<Rightarrow> node_id \<Rightarrow> 'r" where
  "get_reputation R r n = (case hm_get (sr_reputation r) n of Some x \<Rightarrow> x | None \<Rightarrow> f_lit R 1 2)"

definition rep_points :: "'r f32_ops \<Rightarrow> 'r \<Rightarrow> u32" where
  "rep_points R x = f_to_u32 R (f_mul R x (f_lit R 100 1))"

definition discover_entry ::
    "'r f32_ops \<Rightarrow> 'r semantic_router \<Rightarrow> route_constraint list \<Rightarrow> node_id \<times> semantic_capability
       \<Rightarrow> discovery_result option" where
  "discover_entry R r constraints entry =
     (case entry of (n, cap) \<Rightarrow>
        (let score = of_nat (category_depth (sc_category cap)) * 100 + rep_points R (get_reputation R r n);
             (passes, constraint_score) = evaluate_constraints n r 0 constraints
         in if \<not> passes then None
            else Some \<lparr>dr_agent = n, dr_trust_level = TlRaw, dr_latency_ms = 0, dr_load = 128,
                       dr_score = score + constraint_score\<rparr>))"

text \<open>\<open>sort_by\<close> with the arguments swapped: a stable sort by falling score.\<close>

definition discover :: "'r f32_ops \<Rightarrow> ai_intent \<Rightarrow> 'r semantic_router \<Rightarrow> discovery_result list" where
  "discover R i r =
     sort_key (\<lambda>d. - uint (dr_score d))
       (List.map_filter (discover_entry R r (ai_constraints i))
          (or_empty (hm_get (sr_capabilities r) (ai_hash i))))"

definition discover_multi :: "ai_intent list \<Rightarrow> 'r semantic_router \<Rightarrow> node_id list" where
  "discover_multi intents r =
     (let nodes = (\<lambda>i. map fst (or_empty (hm_get (sr_capabilities r) (ai_hash i)))) in
      case intents of
        [] \<Rightarrow> []
      | i # rest \<Rightarrow> fold (\<lambda>i acc. filter (\<lambda>n. n \<in> set (nodes i)) acc) rest (remdups (nodes i)))"

definition interaction_score :: "'r f32_ops \<Rightarrow> bool \<Rightarrow> u32 \<Rightarrow> 'r" where
  "interaction_score R success response_time_ms =
     (if success
      then let time_score = f_div R (f_sub R (f_lit R 1000 1) (f_min R (f_of_u32 R response_time_ms) (f_lit R 1000 1)))
                              (f_lit R 1000 1)
           in f_add R (f_lit R 1 2) (f_mul R time_score (f_lit R 1 2))
      else f_lit R 0 1)"

definition update_reputation ::
    "'r f32_ops \<Rightarrow> node_id \<Rightarrow> bool \<Rightarrow> u32 \<Rightarrow> 'r semantic_router \<Rightarrow> 'r semantic_router" where
  "update_reputation R n success response_time_ms r =
     (let alpha = f_lit R 1 10;
          new_score = interaction_score R success response_time_ms;
          averaged = f_add R (f_mul R (get_reputation R r n) (f_sub R (f_lit R 1 1) alpha)) (f_mul R new_score alpha)
      in r\<lparr>sr_reputation := hm_insert n (f_clamp R averaged (f_lit R 0 1) (f_lit R 1 1)) (sr_reputation r)\<rparr>)"

definition num_capabilities :: "'r semantic_router \<Rightarrow> nat" where
  "num_capabilities r = sum_list (map (\<lambda>(_, es). length es) (sr_capabilities r))"

definition num_intents :: "'r semantic_router \<Rightarrow> nat" where
  "num_intents r = length (sr_capabilities r)"

section \<open>Queries\<close>

record semantic_query =
  sq_intent :: "ai_intent option"
  sq_category_prefix :: "rstring option"
  sq_required_tags :: "rstring list"
  sq_optional_tags :: "rstring list"
  sq_min_version :: "u32 option"
  sq_limit :: nat

definition query_new :: semantic_query where
  "query_new =
     \<lparr>sq_intent = None, sq_category_prefix = None, sq_required_tags = [], sq_optional_tags = [],
      sq_min_version = None, sq_limit = 10\<rparr>"

definition query_intent :: "ai_intent \<Rightarrow> semantic_query \<Rightarrow> semantic_query" where
  "query_intent i q = q\<lparr>sq_intent := Some i\<rparr>"

definition query_category :: "rstring \<Rightarrow> semantic_query \<Rightarrow> semantic_query" where
  "query_category prefix q = q\<lparr>sq_category_prefix := Some prefix\<rparr>"

definition require_tag :: "rstring \<Rightarrow> semantic_query \<Rightarrow> semantic_query" where
  "require_tag tag q = q\<lparr>sq_required_tags := sq_required_tags q @ [tag]\<rparr>"

definition prefer_tag :: "rstring \<Rightarrow> semantic_query \<Rightarrow> semantic_query" where
  "prefer_tag tag q = q\<lparr>sq_optional_tags := sq_optional_tags q @ [tag]\<rparr>"

definition min_version :: "u8 \<Rightarrow> u8 \<Rightarrow> u8 \<Rightarrow> semantic_query \<Rightarrow> semantic_query" where
  "min_version major minor patch q = q\<lparr>sq_min_version := Some (version_number major minor patch)\<rparr>"

definition query_limit :: "nat \<Rightarrow> semantic_query \<Rightarrow> semantic_query" where
  "query_limit n q = q\<lparr>sq_limit := n\<rparr>"

record semantic_route =
  rt_agent :: node_id
  rt_capability :: semantic_capability
  rt_trust_level :: trust_level
  rt_match_score :: u32
  rt_latency_ms :: u16
  rt_load :: u8

definition candidates :: "semantic_query \<Rightarrow> 'r semantic_router \<Rightarrow> (node_id \<times> semantic_capability) list" where
  "candidates q r =
     (let entries = (\<lambda>h. or_empty (hm_get (sr_capabilities r) h)) in
      case sq_intent q of
        Some i \<Rightarrow> entries (ai_hash i)
      | None \<Rightarrow>
          (case sq_category_prefix q of
             Some prefix \<Rightarrow> concat (map entries (remdups (or_empty (hm_get (sr_category_index r) prefix))))
           | None \<Rightarrow> concat (map snd (sr_capabilities r))))"

definition query_admits :: "semantic_query \<Rightarrow> semantic_capability \<Rightarrow> bool" where
  "query_admits q cap \<longleftrightarrow>
     list_all (\<lambda>tag. tag \<in> set (sc_tags cap)) (sq_required_tags q) \<and>
     (case sq_min_version q of None \<Rightarrow> True | Some v \<Rightarrow> \<not> sc_version cap < v)"

definition query_score :: "'r f32_ops \<Rightarrow> semantic_query \<Rightarrow> 'r semantic_router \<Rightarrow> node_id \<Rightarrow> semantic_capability \<Rightarrow> u32" where
  "query_score R q r n cap =
     fold (\<lambda>tag score. if tag \<in> set (sc_tags cap) then score + 50 else score) (sq_optional_tags q)
       (of_nat (category_depth (sc_category cap)) * 100) + rep_points R (get_reputation R r n)"

definition query_execute :: "'r f32_ops \<Rightarrow> semantic_query \<Rightarrow> 'r semantic_router \<Rightarrow> semantic_route list" where
  "query_execute R q r =
     take (sq_limit q) (sort_key (\<lambda>x. - uint (rt_match_score x))
       (map (\<lambda>(n, cap). \<lparr>rt_agent = n, rt_capability = cap, rt_trust_level = TlRaw,
                          rt_match_score = query_score R q r n cap, rt_latency_ms = 0, rt_load = 128\<rparr>)
          (filter (\<lambda>(_, cap). query_admits q cap) (candidates q r))))"

section \<open>The maps\<close>

lemma hm_get_map_vals: "hm_get (hm_map_vals f m) k = map_option f (hm_get m k)"
  by (simp add: hm_get_def hm_map_vals_def map_of_map)

lemma hm_wf_map_vals [simp, intro]: "hm_wf m \<Longrightarrow> hm_wf (hm_map_vals f m)"
  by (simp add: hm_wf_def hm_map_vals_def comp_def case_prod_unfold)

lemma or_empty_simps [simp]: "or_empty None = []" "or_empty (Some xs) = xs"
  by (simp_all add: or_empty_def)

lemma hm_get_non_empty:
  assumes "hm_wf m"
  shows "or_empty (hm_get (hm_retain (\<lambda>_ xs. xs \<noteq> []) m) k) = or_empty (hm_get m k)"
    and "hm_get (hm_retain (\<lambda>_ xs. xs \<noteq> []) m) k \<noteq> Some []"
  using assms by (simp_all add: hm_get_retain split: option.split)

lemma without_node_get:
  "hm_wf caps \<Longrightarrow> or_empty (hm_get (without_node n caps) h) = filter (\<lambda>(i, _). i \<noteq> n) (or_empty (hm_get caps h))"
  "hm_wf caps \<Longrightarrow> hm_get (without_node n caps) h \<noteq> Some []"
  "hm_wf caps \<Longrightarrow> hm_wf (without_node n caps)"
  by (simp_all add: without_node_def hm_get_non_empty hm_get_map_vals split: option.split)
    (cases "hm_get caps h"; simp)

lemma drop_hash_get:
  "hm_wf idx \<Longrightarrow> or_empty (hm_get (drop_hash h idx) k) = filter (\<lambda>x. x \<noteq> h) (or_empty (hm_get idx k))"
  "hm_wf idx \<Longrightarrow> hm_get (drop_hash h idx) k \<noteq> Some []"
  "hm_wf idx \<Longrightarrow> hm_wf (drop_hash h idx)"
  by (simp_all add: drop_hash_def hm_get_non_empty hm_get_map_vals split: option.split)
    (cases "hm_get idx k"; simp)

lemma add_hash_get:
  "or_empty (hm_get (add_hash k' h idx) k) =
     (if k = k' \<and> h \<notin> set (or_empty (hm_get idx k)) then or_empty (hm_get idx k) @ [h]
      else or_empty (hm_get idx k))"
  "hm_get idx k \<noteq> Some [] \<Longrightarrow> hm_get (add_hash k' h idx) k \<noteq> Some []"
  "hm_wf idx \<Longrightarrow> hm_wf (add_hash k' h idx)"
  by (auto simp: add_hash_def Let_def)

lemma distinct_add_hash:
  "distinct (or_empty (hm_get idx k)) \<Longrightarrow> distinct (or_empty (hm_get (add_hash k' h idx) k))"
  by (auto simp: add_hash_get)

lemma fold_add_hash:
  "set (or_empty (hm_get (fold (\<lambda>k. add_hash k h) ks idx) k)) =
     set (or_empty (hm_get idx k)) \<union> (if k \<in> set ks then {h} else {})"
  "distinct (or_empty (hm_get idx k)) \<Longrightarrow> distinct (or_empty (hm_get (fold (\<lambda>k. add_hash k h) ks idx) k))"
  "hm_get idx k \<noteq> Some [] \<Longrightarrow> hm_get (fold (\<lambda>k. add_hash k h) ks idx) k \<noteq> Some []"
  "hm_wf idx \<Longrightarrow> hm_wf (fold (\<lambda>k. add_hash k h) ks idx)"
proof (induction ks arbitrary: idx)
  case (Cons a ks)
  { case 1 show ?case by (auto simp: Cons.IH(1) add_hash_get) }
  { case 2 then show ?case by (simp add: Cons.IH(2) distinct_add_hash) }
  { case 3 then show ?case by (simp add: Cons.IH(3) add_hash_get(2)) }
  { case 4 then show ?case by (simp add: Cons.IH(4) add_hash_get(3)) }
qed simp_all

lemma fold_prune:
  assumes "hm_wf idx"
  shows "set (or_empty (hm_get (fold (\<lambda>h idx. if P h then idx else drop_hash h idx) hs idx) k)) =
     set (or_empty (hm_get idx k)) - {h \<in> set hs. \<not> P h}"
    and "distinct (or_empty (hm_get idx k)) \<Longrightarrow>
      distinct (or_empty (hm_get (fold (\<lambda>h idx. if P h then idx else drop_hash h idx) hs idx) k))"
    and "hm_get idx k \<noteq> Some [] \<Longrightarrow>
      hm_get (fold (\<lambda>h idx. if P h then idx else drop_hash h idx) hs idx) k \<noteq> Some []"
    and "hm_wf (fold (\<lambda>h idx. if P h then idx else drop_hash h idx) hs idx)"
  using assms by (induction hs arbitrary: idx) (auto simp: drop_hash_get)

section \<open>The registry as a relation\<close>

definition provides :: "'r semantic_router \<Rightarrow> (node_id \<times> semantic_capability) set" where
  "provides r = {(n, c). (n, c) \<in> set (or_empty (hm_get (sr_capabilities r) (sc_intent_hash c)))}"

definition providers_ok :: "providers \<Rightarrow> bool" where
  "providers_ok caps \<longleftrightarrow>
     hm_wf caps \<and>
     (\<forall>h. hm_get caps h \<noteq> Some [] \<and> distinct (map fst (or_empty (hm_get caps h))) \<and>
          (\<forall>(n, c) \<in> set (or_empty (hm_get caps h)). sc_intent_hash c = h))"

definition index_ok :: "(semantic_capability \<Rightarrow> rstring list) \<Rightarrow> providers \<Rightarrow> hash_index \<Rightarrow> bool" where
  "index_ok keys caps idx \<longleftrightarrow>
     hm_wf idx \<and>
     (\<forall>k. hm_get idx k \<noteq> Some [] \<and> distinct (or_empty (hm_get idx k)) \<and>
          (\<forall>h \<in> set (or_empty (hm_get idx k)). hm_get caps h \<noteq> None)) \<and>
     (\<forall>h. \<forall>(n, c) \<in> set (or_empty (hm_get caps h)). \<forall>k \<in> set (keys c). h \<in> set (or_empty (hm_get idx k)))"

definition router_inv :: "'r semantic_router \<Rightarrow> bool" where
  "router_inv r \<longleftrightarrow>
     providers_ok (sr_capabilities r) \<and>
     index_ok category_prefixes (sr_capabilities r) (sr_category_index r) \<and>
     index_ok sc_tags (sr_capabilities r) (sr_tag_index r)"

lemma router_inv_new: "router_inv (router_new n)"
  by (simp add: router_inv_def router_new_def providers_ok_def index_ok_def)

abbreviation set_provider where
  "set_provider n cap caps \<equiv> hm_insert (sc_intent_hash cap)
     (filter (\<lambda>(i, _). i \<noteq> n) (or_empty (hm_get caps (sc_intent_hash cap))) @ [(n, cap)]) caps"

lemma providers_ok_set:
  assumes "providers_ok caps"
  shows "providers_ok (set_provider n cap caps)"
proof -
  have "distinct (map fst (filter (\<lambda>(i, _). i \<noteq> n) es))" if "distinct (map fst es)"
    for es :: "(node_id \<times> semantic_capability) list"
    using that by (rule distinct_map_filter)
  then show ?thesis using assms by (auto simp: providers_ok_def)
qed

lemma index_ok_add:
  assumes "index_ok keys caps idx"
  shows "index_ok keys (set_provider n cap caps) (fold (\<lambda>k. add_hash k (sc_intent_hash cap)) (keys cap) idx)"
    (is "index_ok keys ?caps ?idx")
proof -
  let ?h = "sc_intent_hash cap"
  have wf: "hm_wf idx"
    and entry: "hm_get idx k \<noteq> Some []" "distinct (or_empty (hm_get idx k))"
    and live: "h \<in> set (or_empty (hm_get idx k)) \<Longrightarrow> hm_get caps h \<noteq> None"
    and full: "(m, c) \<in> set (or_empty (hm_get caps h)) \<Longrightarrow> k \<in> set (keys c) \<Longrightarrow> h \<in> set (or_empty (hm_get idx k))"
    for h k m c
    using assms unfolding index_ok_def by blast+
  note p = fold_add_hash [where h = ?h and ks = "keys cap" and idx = idx]
  show ?thesis
    unfolding index_ok_def
  proof (intro conjI allI ballI)
    show "hm_wf ?idx" by (rule p(4) [OF wf])
    fix k
    show "hm_get ?idx k \<noteq> Some []" "distinct (or_empty (hm_get ?idx k))"
      by (rule p(3) [OF entry(1)], rule p(2) [OF entry(2)])
    fix h assume "h \<in> set (or_empty (hm_get ?idx k))"
    then show "hm_get ?caps h \<noteq> None" using live [of h k] by (auto simp: p(1) split: if_splits)
  next
    fix h x assume x: "x \<in> set (or_empty (hm_get ?caps h))"
    obtain m c where mc: "x = (m, c)" by (cases x)
    show "case x of (m, c) \<Rightarrow> \<forall>k \<in> set (keys c). h \<in> set (or_empty (hm_get ?idx k))"
      using x full [of m c h] by (auto simp: mc p(1) split: if_splits)
  qed
qed

lemma providers_ok_without: "providers_ok caps \<Longrightarrow> providers_ok (without_node n caps)"
  unfolding providers_ok_def by (auto simp: without_node_get intro: distinct_map_filter)

lemma index_ok_prune:
  assumes caps: "providers_ok caps" and idx: "index_ok keys caps idx"
    and removed: "\<And>h. h \<in> set removed \<longleftrightarrow> n \<in> fst ` set (or_empty (hm_get caps h))"
  shows "index_ok keys (without_node n caps)
    (fold (\<lambda>h idx. if hm_get (without_node n caps) h \<noteq> None then idx else drop_hash h idx) removed idx)"
    (is "index_ok keys ?caps ?idx")
proof -
  have wf: "hm_wf caps" "hm_wf idx" using caps idx by (simp_all add: providers_ok_def index_ok_def)
  have entry: "hm_get idx k \<noteq> Some []" "distinct (or_empty (hm_get idx k))"
    and old: "h \<in> set (or_empty (hm_get idx k)) \<Longrightarrow> hm_get caps h \<noteq> None"
    and full: "(m, c) \<in> set (or_empty (hm_get caps h)) \<Longrightarrow> k \<in> set (keys c) \<Longrightarrow> h \<in> set (or_empty (hm_get idx k))"
    for h k m c
    using idx unfolding index_ok_def by blast+
  note p = fold_prune [OF wf(2), where P = "\<lambda>h. hm_get ?caps h \<noteq> None" and hs = removed]
  have gone: "h \<in> set removed" if was: "hm_get caps h \<noteq> None" and now: "hm_get ?caps h = None" for h
  proof -
    obtain es where es: "hm_get caps h = Some es" using was by blast
    then have ne: "es \<noteq> []" using caps unfolding providers_ok_def by blast
    have "filter (\<lambda>(i, _). i \<noteq> n) es = []"
      using without_node_get(1) [OF wf(1), of n h] now es by simp
    then have "\<forall>(i, _) \<in> set es. i = n" by (auto simp: filter_empty_conv)
    then show ?thesis unfolding removed es using ne by (cases es) auto
  qed
  have sub: "set (or_empty (hm_get ?caps h)) \<subseteq> set (or_empty (hm_get caps h))" for h
    by (auto simp: without_node_get(1) [OF wf(1)])
  show ?thesis
    unfolding index_ok_def
  proof (intro conjI allI ballI)
    show "hm_wf ?idx" by (rule p(4))
    fix k
    show "hm_get ?idx k \<noteq> Some []" "distinct (or_empty (hm_get ?idx k))"
      by (rule p(3) [OF entry(1)], rule p(2) [OF entry(2)])
    fix h assume "h \<in> set (or_empty (hm_get ?idx k))"
    then show "hm_get ?caps h \<noteq> None" using old [of h k] gone [of h] unfolding p(1) by blast
  next
    fix h x assume x: "x \<in> set (or_empty (hm_get ?caps h))"
    obtain m c where mc: "x = (m, c)" by (cases x)
    have "hm_get ?caps h \<noteq> None" using x by (cases "hm_get ?caps h") auto
    then show "case x of (m, c) \<Rightarrow> \<forall>k \<in> set (keys c). h \<in> set (or_empty (hm_get ?idx k))"
      using x sub [of h] full [of m c h] unfolding mc prod.case p(1) by blast
  qed
qed

lemma removed_iff:
  "hm_wf caps \<Longrightarrow>
     h \<in> set (map fst (filter (\<lambda>(_, es). list_ex (\<lambda>(i, _). i = n) es) caps)) \<longleftrightarrow>
     n \<in> fst ` set (or_empty (hm_get caps h))"
proof -
  assume wf: "hm_wf caps"
  have "h \<in> set (map fst (filter (\<lambda>(_, es). list_ex (\<lambda>(i, _). i = n) es) caps)) \<longleftrightarrow>
      (\<exists>es. (h, es) \<in> set caps \<and> n \<in> fst ` set es)"
    by (force simp: list_ex_iff)
  also have "\<dots> \<longleftrightarrow> (\<exists>es. hm_get caps h = Some es \<and> n \<in> fst ` set es)"
    using wf by (simp add: hm_get_def hm_wf_def)
  also have "\<dots> \<longleftrightarrow> n \<in> fst ` set (or_empty (hm_get caps h))"
    by (cases "hm_get caps h") auto
  finally show ?thesis .
qed

lemma router_inv_register: "router_inv r \<Longrightarrow> router_inv (register n cap r)"
  by (simp add: router_inv_def register_def Let_def providers_ok_set index_ok_add)

lemma router_inv_unregister: "router_inv r \<Longrightarrow> router_inv (unregister_node n r)"
proof -
  assume r: "router_inv r"
  then have wf: "hm_wf (sr_capabilities r)" by (simp add: router_inv_def providers_ok_def)
  show ?thesis
    using r index_ok_prune [OF _ _ removed_iff [OF wf]]
    by (simp add: router_inv_def unregister_node_def Let_def providers_ok_without)
qed

lemma router_inv_reputation: "router_inv (update_reputation R n ok ms r) \<longleftrightarrow> router_inv r"
  by (simp add: router_inv_def update_reputation_def Let_def)

lemma provides_reputation: "provides (update_reputation R n ok ms r) = provides r"
  by (simp add: provides_def update_reputation_def Let_def)

lemma provides_register:
  assumes "router_inv r"
  shows "provides (register n cap r) =
     {(m, c) \<in> provides r. m \<noteq> n \<or> sc_intent_hash c \<noteq> sc_intent_hash cap} \<union> {(n, cap)}"
  using assms by (auto simp: provides_def register_def Let_def split: if_splits)

lemma provides_unregister:
  assumes "router_inv r"
  shows "provides (unregister_node n r) = {(m, c) \<in> provides r. m \<noteq> n}"
  using assms
  by (auto simp: provides_def unregister_node_def Let_def without_node_get router_inv_def providers_ok_def)

section \<open>What a caller sees\<close>

text \<open>
  The specification of the registry: a set of pairs. A node that registers a capability replaces
  what it offered under the same intent hash; a node that leaves takes all its pairs with it.
\<close>

datatype router_op =
  Register node_id semantic_capability | Unregister node_id | Reputation node_id bool u32

primrec run_router_op :: "'r f32_ops \<Rightarrow> router_op \<Rightarrow> 'r semantic_router \<Rightarrow> 'r semantic_router" where
  "run_router_op R (Register n cap) r = register n cap r"
| "run_router_op R (Unregister n) r = unregister_node n r"
| "run_router_op R (Reputation n ok ms) r = update_reputation R n ok ms r"

primrec spec_router_op :: "router_op \<Rightarrow> (node_id \<times> semantic_capability) set \<Rightarrow> (node_id \<times> semantic_capability) set" where
  "spec_router_op (Register n cap) P =
     {(m, c) \<in> P. m \<noteq> n \<or> sc_intent_hash c \<noteq> sc_intent_hash cap} \<union> {(n, cap)}"
| "spec_router_op (Unregister n) P = {(m, c) \<in> P. m \<noteq> n}"
| "spec_router_op (Reputation n ok ms) P = P"

definition run_router :: "'r f32_ops \<Rightarrow> node_id \<Rightarrow> router_op list \<Rightarrow> 'r semantic_router" where
  "run_router R n ops = fold (run_router_op R) ops (router_new n)"

definition spec_router :: "router_op list \<Rightarrow> (node_id \<times> semantic_capability) set" where
  "spec_router ops = fold spec_router_op ops {}"

lemma run_router_op_refines:
  assumes "router_inv r"
  shows "router_inv (run_router_op R op r) \<and> provides (run_router_op R op r) = spec_router_op op (provides r)"
  using assms by (cases op)
    (simp_all add: router_inv_register router_inv_unregister router_inv_reputation provides_register
      provides_unregister provides_reputation)

lemma fold_router_refines:
  assumes "router_inv r"
  shows "router_inv (fold (run_router_op R) ops r) \<and>
     provides (fold (run_router_op R) ops r) = fold spec_router_op ops (provides r)"
  using assms by (induction ops arbitrary: r) (simp_all add: run_router_op_refines)

lemma run_router_refines: "router_inv (run_router R n ops)" "provides (run_router R n ops) = spec_router ops"
  using fold_router_refines [OF router_inv_new, of R ops n]
  by (simp_all add: run_router_def spec_router_def) (simp add: provides_def router_new_def)

lemma provides_hash:
  assumes "router_inv r"
  shows "(n, c) \<in> set (or_empty (hm_get (sr_capabilities r) h)) \<longleftrightarrow> (n, c) \<in> provides r \<and> sc_intent_hash c = h"
  using assms unfolding router_inv_def providers_ok_def provides_def by fast

lemma find_by_tag_exact:
  assumes "router_inv r"
  shows "set (find_by_tag tag r) = {c. \<exists>n. (n, c) \<in> provides r \<and> tag \<in> set (sc_tags c)}"
proof -
  have "sc_intent_hash c \<in> set (or_empty (hm_get (sr_tag_index r) tag))"
    if "(n, c) \<in> provides r" "tag \<in> set (sc_tags c)" for n c
    using assms that unfolding router_inv_def index_ok_def provides_def by fast
  moreover have "snd ` set (or_empty (hm_get (sr_capabilities r) h)) = {c. sc_intent_hash c = h \<and> (\<exists>n. (n, c) \<in> provides r)}" for h
    using provides_hash [OF assms] by force
  ultimately show ?thesis by (auto simp: find_by_tag_def lookup_hashes_def)
qed

lemma find_by_category_complete:
  assumes "router_inv r"
  shows "{c. \<exists>n. (n, c) \<in> provides r \<and> prefix \<in> set (category_prefixes c)} \<subseteq> set (find_by_category prefix r)"
    and "set (find_by_category prefix r) \<subseteq> snd ` provides r"
proof -
  have "sc_intent_hash c \<in> set (or_empty (hm_get (sr_category_index r) prefix))"
    if "(n, c) \<in> provides r" "prefix \<in> set (category_prefixes c)" for n c
    using assms that unfolding router_inv_def index_ok_def provides_def by fast
  then show "{c. \<exists>n. (n, c) \<in> provides r \<and> prefix \<in> set (category_prefixes c)} \<subseteq> set (find_by_category prefix r)"
    using provides_hash [OF assms] by (force simp: find_by_category_def lookup_hashes_def)
  show "set (find_by_category prefix r) \<subseteq> snd ` provides r"
    using provides_hash [OF assms] by (force simp: find_by_category_def lookup_hashes_def)
qed

lemma provides_entries:
  assumes "router_inv r"
  shows "set (concat (map snd (sr_capabilities r))) = provides r"
proof -
  have wf: "hm_wf (sr_capabilities r)" using assms by (simp add: router_inv_def providers_ok_def)
  have mem: "(h, es) \<in> set (sr_capabilities r) \<longleftrightarrow> hm_get (sr_capabilities r) h = Some es" for h es
    using wf by (simp add: hm_get_def hm_wf_def)
  have "(n, c) \<in> provides r"
    if "hm_get (sr_capabilities r) h = Some es" "(n, c) \<in> set es" for n c h es
    using provides_hash [OF assms, of n c h] that by simp
  moreover have "\<exists>h es. hm_get (sr_capabilities r) h = Some es \<and> (n, c) \<in> set es" if "(n, c) \<in> provides r" for n c
  proof (cases "hm_get (sr_capabilities r) (sc_intent_hash c)")
    case None
    then show ?thesis using that by (simp add: provides_def)
  next
    case (Some es)
    moreover have "(n, c) \<in> set es" using that Some by (simp add: provides_def)
    ultimately show ?thesis by blast
  qed
  moreover have "x \<in> set (concat (map snd (sr_capabilities r))) \<longleftrightarrow>
      (\<exists>h es. hm_get (sr_capabilities r) h = Some es \<and> x \<in> set es)" for x
    by (simp add: mem [symmetric]) (metis prod.collapse snd_conv)
  ultimately show ?thesis by (intro set_eqI) (metis surj_pair)
qed

lemma distinct_entries:
  fixes caps :: providers
  assumes "hm_wf caps" and "\<And>h es. (h, es) \<in> set caps \<Longrightarrow> distinct es"
    and "\<And>h es n c. (h, es) \<in> set caps \<Longrightarrow> (n, c) \<in> set es \<Longrightarrow> sc_intent_hash c = h"
  shows "distinct (concat (map snd caps))"
  using assms
proof (induction caps)
  case (Cons a caps)
  obtain h es where a: "a = (h, es)" by (cases a)
  have "h \<notin> fst ` set caps" using Cons.prems(1) by (simp add: a hm_wf_def)
  then have apart: "x \<notin> set es'" if "x \<in> set es" "(h', es') \<in> set caps" for x h' es'
    using that Cons.prems(3) [of h es "fst x" "snd x"] Cons.prems(3) [of h' es' "fst x" "snd x"]
    by (force simp: a)
  have "distinct (concat (map snd caps))"
  proof (rule Cons.IH)
    show "hm_wf caps" using Cons.prems(1) by (simp add: hm_wf_def)
    fix h es assume "(h, es) \<in> set caps"
    then have m: "(h, es) \<in> set (a # caps)" by simp
    show "distinct es" by (rule Cons.prems(2) [OF m])
    show "sc_intent_hash c = h" if "(n, c) \<in> set es" for n c by (rule Cons.prems(3) [OF m that])
  qed
  then show ?case using Cons.prems(2) [of h es] apart by (force simp: a)
qed simp

lemma num_capabilities_card:
  assumes "router_inv r"
  shows "num_capabilities r = card (provides r)"
proof -
  have ok: "hm_wf (sr_capabilities r)"
    "\<And>h. distinct (map fst (or_empty (hm_get (sr_capabilities r) h)))"
    "\<And>h n c. (n, c) \<in> set (or_empty (hm_get (sr_capabilities r) h)) \<Longrightarrow> sc_intent_hash c = h"
    using assms unfolding router_inv_def providers_ok_def by blast+
  have get: "or_empty (hm_get (sr_capabilities r) h) = es" if "(h, es) \<in> set (sr_capabilities r)" for h es
    using that ok(1) by (simp add: hm_get_def hm_wf_def)
  have ds: "distinct es" "\<And>n c. (n, c) \<in> set es \<Longrightarrow> sc_intent_hash c = h" if "(h, es) \<in> set (sr_capabilities r)" for h es
    using ok(2) [of h] ok(3) [of _ _ h] get [OF that] by (auto simp: distinct_map)
  have "distinct (concat (map snd (sr_capabilities r)))"
    by (rule distinct_entries [OF ok(1)]) (use ds in auto)
  then show ?thesis
    using provides_entries [OF assms] distinct_card [of "concat (map snd (sr_capabilities r))"]
    by (simp add: num_capabilities_def length_concat comp_def case_prod_unfold)
qed

lemma passes_iff:
  "fst (evaluate_constraints n r b cs) \<longleftrightarrow>
     ExcludeAgent n \<notin> set cs \<and> (MinTrust TlFull \<in> set cs \<longrightarrow> hm_get (sr_reputation r) n \<noteq> None)"
  by (induction n r b cs rule: evaluate_constraints.induct) auto

lemma discover_entry_Some:
  "discover_entry R r cs (n, cap) =
     (if fst (evaluate_constraints n r 0 cs)
      then Some \<lparr>dr_agent = n, dr_trust_level = TlRaw, dr_latency_ms = 0, dr_load = 128,
        dr_score = of_nat (category_depth (sc_category cap)) * 100 + rep_points R (get_reputation R r n)
          + snd (evaluate_constraints n r 0 cs)\<rparr>
      else None)"
  by (simp add: discover_entry_def Let_def case_prod_unfold)

lemma discover_agents_aux:
  "map dr_agent (List.map_filter (discover_entry R r cs) es) =
     filter (\<lambda>n. fst (evaluate_constraints n r 0 cs)) (map fst es)"
  by (induction es) (auto simp: List.map_filter_simps discover_entry_Some)

lemma discover_agents:
  "mset (map dr_agent (discover R i r)) =
     mset (filter (\<lambda>n. fst (evaluate_constraints n r 0 (ai_constraints i)))
       (map fst (or_empty (hm_get (sr_capabilities r) (ai_hash i)))))"
proof -
  have "mset (map dr_agent (discover R i r)) =
      mset (map dr_agent (List.map_filter (discover_entry R r (ai_constraints i))
        (or_empty (hm_get (sr_capabilities r) (ai_hash i)))))"
    by (simp add: discover_def)
  then show ?thesis by (simp only: discover_agents_aux)
qed

lemma sorted_falling:
  "sorted_wrt (\<lambda>x y. f y \<le> f x) (sort_key (\<lambda>x. - uint (f x)) xs)" for f :: "'a \<Rightarrow> u32"
proof -
  have "sorted (map (\<lambda>x. - uint (f x)) (sort_key (\<lambda>x. - uint (f x)) xs))" by simp
  then show ?thesis by (simp add: sorted_map word_le_def)
qed

lemma candidates_provided:
  assumes "router_inv r" "(n, c) \<in> set (candidates q r)"
  shows "(n, c) \<in> provides r"
proof (cases "sq_intent q = None \<and> sq_category_prefix q = None")
  case True
  then show ?thesis using assms(2) unfolding provides_entries [OF assms(1), symmetric] by (simp add: candidates_def)
next
  case False
  then obtain h where "(n, c) \<in> set (or_empty (hm_get (sr_capabilities r) h))"
    using assms(2) by (auto simp: candidates_def Let_def split: option.splits)
  then show ?thesis using provides_hash [OF assms(1)] by blast
qed

lemma query_score_agent:
  "x \<in> set (query_execute R q r) \<Longrightarrow> (rt_agent x, rt_capability x) \<in> set (candidates q r) \<and> query_admits q (rt_capability x)"
  by (auto simp: query_execute_def dest!: in_set_takeD)

lemma provider_once:
  assumes "router_inv r"
  shows "distinct (map fst (or_empty (hm_get (sr_capabilities r) h)))"
  using assms by (simp add: router_inv_def providers_ok_def)

lemma provider_nodes:
  assumes "router_inv r"
  shows "fst ` set (or_empty (hm_get (sr_capabilities r) h)) = {n. \<exists>c. (n, c) \<in> provides r \<and> sc_intent_hash c = h}"
  using provides_hash [OF assms] by force

lemma discover_multi_set:
  "set (discover_multi (i # is) r) =
     {n. \<forall>j \<in> set (i # is). n \<in> fst ` set (or_empty (hm_get (sr_capabilities r) (ai_hash j)))}"
proof -
  have "set (fold (\<lambda>i acc. filter (\<lambda>n. n \<in> set (f i)) acc) js acc) = {n \<in> set acc. \<forall>j \<in> set js. n \<in> set (f j)}"
    for js :: "ai_intent list" and f :: "ai_intent \<Rightarrow> node_id list" and acc
    by (induction js arbitrary: acc) auto
  then have "set (discover_multi (i # is) r) =
      {n \<in> set (remdups (map fst (or_empty (hm_get (sr_capabilities r) (ai_hash i))))).
         \<forall>j \<in> set is. n \<in> set (map fst (or_empty (hm_get (sr_capabilities r) (ai_hash j))))}"
    unfolding discover_multi_def Let_def list.case .
  then show ?thesis by auto
qed

section \<open>Properties\<close>

text \<open>
  C21: the registry implements its specification. After any sequence of registrations, departures and
  reputation updates, starting from an empty router, the capabilities held are exactly the specified pairs of
  node and capability; the count is the number of pairs; lookup by tag finds exactly the capabilities with
  that tag; lookup by category finds every capability below that category and only provided ones.
\<close>

theorem registry_refines:
  "provides (run_router R n ops) = spec_router ops \<and>
     num_capabilities (run_router R n ops) = card (spec_router ops) \<and>
     set (find_by_tag tag (run_router R n ops)) = {c. \<exists>m. (m, c) \<in> spec_router ops \<and> tag \<in> set (sc_tags c)} \<and>
     {c. \<exists>m. (m, c) \<in> spec_router ops \<and> prefix \<in> set (category_prefixes c)}
       \<subseteq> set (find_by_category prefix (run_router R n ops)) \<and>
     set (find_by_category prefix (run_router R n ops)) \<subseteq> snd ` spec_router ops"
proof -
  note inv = run_router_refines(1) [of R n ops]
  show ?thesis
    unfolding find_by_tag_exact [OF inv] num_capabilities_card [OF inv] run_router_refines(2)
    using find_by_category_complete [OF inv, of prefix] by (simp add: run_router_refines(2))
qed

text \<open>
  C22: discovery is exact and ranked. In every router that a sequence of operations can produce, \<open>discover\<close>
  lists each node that provides the intent once, leaves out precisely the excluded ones and, where full
  trust is demanded, those of unknown reputation, and orders the rest by falling score.
\<close>

theorem discover_exact:
  "dr_agent ` set (discover R i (run_router R me ops)) =
       {n. (\<exists>c. (n, c) \<in> spec_router ops \<and> sc_intent_hash c = ai_hash i) \<and>
           ExcludeAgent n \<notin> set (ai_constraints i) \<and>
           \<not> (MinTrust TlFull \<in> set (ai_constraints i) \<and>
              n \<notin> dom (hm_get (sr_reputation (run_router R me ops))))} \<and>
     distinct (map dr_agent (discover R i (run_router R me ops))) \<and>
     sorted_wrt (\<lambda>x y. dr_score y \<le> dr_score x) (discover R i (run_router R me ops))"
  (is "?set = ?spec \<and> _ \<and> _")
proof (intro conjI)
  let ?r = "run_router R me ops"
  note inv = run_router_refines(1) [of R me ops]
  note agents = discover_agents [where R = R and i = i and r = ?r]
  have "?set = {n \<in> fst ` set (or_empty (hm_get (sr_capabilities ?r) (ai_hash i))).
         fst (evaluate_constraints n ?r 0 (ai_constraints i))}"
    using arg_cong [OF agents, of set_mset] by auto
  then show "?set = ?spec"
    unfolding provider_nodes [OF inv] run_router_refines(2) passes_iff by auto
  show "distinct (map dr_agent (discover R i ?r))"
    using mset_eq_imp_distinct_iff [OF agents] provider_once [OF inv] by simp
  show "sorted_wrt (\<lambda>x y. dr_score y \<le> dr_score x) (discover R i ?r)"
    unfolding discover_def by (rule sorted_falling)
qed

text \<open>
  A query returns at most as many routes as asked for, best score first, and each is a capability its agent
  provides that carries every required tag and is not older than the minimum version.
\<close>

lemma query_sound:
  "length (query_execute R q (run_router R me ops)) \<le> sq_limit q \<and>
     sorted_wrt (\<lambda>x y. rt_match_score y \<le> rt_match_score x) (query_execute R q (run_router R me ops)) \<and>
     set (query_execute R q (run_router R me ops)) \<subseteq>
       {x. (rt_agent x, rt_capability x) \<in> spec_router ops \<and>
           set (sq_required_tags q) \<subseteq> set (sc_tags (rt_capability x)) \<and>
           sq_min_version q \<notin> Some ` {v. sc_version (rt_capability x) < v}}"
proof -
  note inv = run_router_refines(1) [of R me ops]
  have "(rt_agent x, rt_capability x) \<in> spec_router ops \<and>
      set (sq_required_tags q) \<subseteq> set (sc_tags (rt_capability x)) \<and>
      sq_min_version q \<notin> Some ` {v. sc_version (rt_capability x) < v}"
    if "x \<in> set (query_execute R q (run_router R me ops))" for x
    using query_score_agent [OF that] candidates_provided [OF inv] run_router_refines(2) [of R me ops]
    by (auto simp: query_admits_def list_all_iff)
  then show ?thesis
    by (auto simp: query_execute_def intro: sorted_wrt_take [OF sorted_falling])
qed

end
