(* ===== verification/Dispatch.thy ===== *)
theory Dispatch
  imports Targets AuditLog Semantic
begin

text \<open>
  How a node serves an intent, \<open>forge-node/src/network.rs\<close>: \<open>dispatch_intent\<close> finds the capability,
  asks the policy for a permit, runs the handler and answers with a signed frame. The handlers of the
  device capabilities call the UAI broker over HTTP. Its answers are the parameter \<open>ne_post\<close>, which may
  depend on everything asked before; every request made is kept in a list, so that properties can say
  what the node may ask for. \<open>wg_peer_manage\<close> only proposes; the background task that waits for a
  human and then acts is a step of its own.
\<close>

section \<open>The UAI broker\<close>

record uai_config =
  uai_base_url :: rstring
  uai_token :: rstring

record http_request =
  hr_url :: rstring
  hr_token :: rstring
  hr_body :: json

datatype http_reply = Unreachable rstring | BadReply rstring | Reply json

text \<open>
  What the node takes from outside: signatures, hashes, hex, the HTTP client (an error when it cannot
  be built, and the answers of the broker to a request after earlier ones), JSON printing, and the two
  files that \<open>sysinfo\<close> reads with the float parser for one of them.
\<close>

record node_env =
  ne_ed :: ed25519
  ne_blake3 :: "u8 list \<Rightarrow> u8 list"
  ne_hex :: "u8 list \<Rightarrow> rstring"
  ne_client_error :: "http_request list \<Rightarrow> rstring option"
  ne_post :: "http_request list \<Rightarrow> http_request \<Rightarrow> http_reply"
  ne_json :: "json \<Rightarrow> rstring"
  ne_hostname :: "rstring option"
  ne_uptime :: "rstring option"
  ne_parse_secs :: "rstring \<Rightarrow> u64 option"
  ne_fmt :: fmt_ops

text \<open>A computation that may make requests: given those made so far, a result and all made by then.\<close>

type_synonym 'a uai = "http_request list \<Rightarrow> ('a, rstring) result \<times> http_request list"

definition uai_return :: "'a \<Rightarrow> 'a uai" where
  "uai_return x calls = (Ok x, calls)"

definition uai_fail :: "rstring \<Rightarrow> 'a uai" where
  "uai_fail e calls = (Err e, calls)"

definition uai_bind :: "'a uai \<Rightarrow> ('a \<Rightarrow> 'b uai) \<Rightarrow> 'b uai" where
  "uai_bind m f calls =
     (case m calls of
        (Ok x, calls') \<Rightarrow> f x calls'
      | (Err e, calls') \<Rightarrow> (Err e, calls')
      | (Panic, calls') \<Rightarrow> (Panic, calls'))"

definition http_client :: "node_env \<Rightarrow> unit uai" where
  "http_client V calls =
     (case ne_client_error V calls of
        None \<Rightarrow> (Ok (), calls)
      | Some e \<Rightarrow> (Err (str ''building HTTP client: '' @ e), calls))"

fun as_bool :: "json \<Rightarrow> bool option" where
  "as_bool (JBool b) = Some b"
| "as_bool other = None"

fun as_str :: "json \<Rightarrow> rstring option" where
  "as_str (JString s) = Some s"
| "as_str other = None"

fun as_array :: "json \<Rightarrow> json list option" where
  "as_array (JArray xs) = Some xs"
| "as_array other = None"

definition get_bool :: "json \<Rightarrow> string \<Rightarrow> bool option" where
  "get_bool j k = Option.bind (json_get j (str k)) as_bool"

definition get_str :: "json \<Rightarrow> string \<Rightarrow> rstring option" where
  "get_str j k = Option.bind (json_get j (str k)) as_str"

definition unwrap_or :: "'a option \<Rightarrow> 'a \<Rightarrow> 'a" where
  "unwrap_or x d = (case x of Some y \<Rightarrow> y | None \<Rightarrow> d)"

definition uai_request :: "uai_config \<Rightarrow> rstring \<Rightarrow> json \<Rightarrow> http_request" where
  "uai_request uai tool_name input_args =
     \<lparr>hr_url = uai_base_url uai @ str ''/registry/dispatch'', hr_token = uai_token uai,
      hr_body = JObject [(str ''input_args'', input_args), (str ''tool_name'', JString tool_name)]\<rparr>"

definition uai_dispatch :: "node_env \<Rightarrow> uai_config \<Rightarrow> rstring \<Rightarrow> json \<Rightarrow> json uai" where
  "uai_dispatch V uai tool_name input_args calls =
     (let req = uai_request uai tool_name input_args in
      (case ne_post V calls req of
         Unreachable e \<Rightarrow> Err (str ''UAI unreachable: '' @ e)
       | BadReply e \<Rightarrow> Err (str ''bad UAI reply: '' @ e)
       | Reply resp \<Rightarrow>
           if get_bool resp ''ok'' \<noteq> Some True
           then Err (tool_name @ str '': '' @ unwrap_or (get_str resp ''error'') (str ''unknown error''))
           else Ok resp,
       calls @ [req]))"

text \<open>The client is built first, then one tool is called.\<close>

definition uai_tool :: "node_env \<Rightarrow> uai_config \<Rightarrow> rstring \<Rightarrow> json \<Rightarrow> json uai" where
  "uai_tool V uai tool_name input_args =
     uai_bind (http_client V) (\<lambda>_. uai_dispatch V uai tool_name input_args)"

definition bool_text :: "bool \<Rightarrow> rstring" where
  "bool_text b = (if b then str ''true'' else str ''false'')"

definition uai_ok_suffix :: "json \<Rightarrow> rstring" where
  "uai_ok_suffix resp = str '' (uai ok='' @ bool_text (unwrap_or (get_bool resp ''ok'') False) @ str '')''"

definition restart_proxmox_resource :: "node_env \<Rightarrow> uai_config \<Rightarrow> proxmox_restart_target \<Rightarrow> rstring uai" where
  "restart_proxmox_resource V uai target =
     uai_bind (uai_tool V uai (prk_uai_tool_name (px_kind target))
         (JObject [(str ''vmid'', JNumber (dec_string (unat (px_vmid target))))]))
       (\<lambda>resp. uai_return (str ''restarted '' @ px_canonical target @ uai_ok_suffix resp))"

definition call_ha_action :: "node_env \<Rightarrow> uai_config \<Rightarrow> ha_toggle_target \<Rightarrow> rstring uai" where
  "call_ha_action V uai target =
     uai_bind (uai_tool V uai (ha_uai_tool_name (ha_action_of target))
         (JObject [(str ''entity_id'', JString (ha_entity_id target))]))
       (\<lambda>resp. uai_return (str ''home_assistant_toggle '' @ ha_canonical target @ uai_ok_suffix resp))"

definition restart_docker_container :: "node_env \<Rightarrow> uai_config \<Rightarrow> docker_restart_target \<Rightarrow> rstring uai" where
  "restart_docker_container V uai target =
     uai_bind (uai_tool V uai (str ''docker_restart'') (JObject [(str ''name'', JString (dk_canonical target))]))
       (\<lambda>resp. uai_return (str ''docker_restart '' @ dk_canonical target @ uai_ok_suffix resp))"

definition fetch_wg_peers_list :: "node_env \<Rightarrow> uai_config \<Rightarrow> rstring uai" where
  "fetch_wg_peers_list V uai =
     uai_bind (uai_tool V uai (str ''wg_clients'') (JObject []))
       (\<lambda>clients. uai_return (ne_json V (sanitize_and_wrap_untrusted_json
          (str ''wg_peers_list (WireGuard peer records via UAI/wg-easy)'') clients)))"

definition fetch_network_clients :: "node_env \<Rightarrow> uai_config \<Rightarrow> rstring uai" where
  "fetch_network_clients V uai =
     uai_bind (uai_tool V uai (str ''keepass_lookup'')
         (JObject [(str ''password'', JBool True), (str ''title'', JString (str ''omada controller (Local)''))]))
       (\<lambda>kp. case json_get kp (str ''entry'') of
          None \<Rightarrow> uai_fail (str ''keepass_lookup: reply missing entry'')
        | Some entry \<Rightarrow>
            (case get_str entry ''username'' of
               None \<Rightarrow> uai_fail (str ''keepass_lookup: entry missing username'')
             | Some username \<Rightarrow>
                 (case get_str entry ''password'' of
                    None \<Rightarrow> uai_fail (str ''keepass_lookup: entry missing password'')
                  | Some password \<Rightarrow>
                      uai_bind (uai_dispatch V uai (str ''omada_clients'')
                          (JObject [(str ''host'', JString (str ''192.168.1.14'')),
                                    (str ''password'', JString password), (str ''port'', JNumber (str ''8043'')),
                                    (str ''username'', JString username)]))
                        (\<lambda>clients. uai_return (ne_json V (sanitize_and_wrap_untrusted_json
                           (str ''network_clients (Omada client records via UAI)'') clients))))))"

definition send_notification :: "node_env \<Rightarrow> uai_config \<Rightarrow> rstring \<Rightarrow> u8 list \<Rightarrow> rstring uai" where
  "send_notification V uai topic payload =
     uai_bind (\<lambda>calls. (prepare_notify_message payload, calls)) (\<lambda>message.
       uai_bind (uai_tool V uai (str ''ntfy_send'')
           (JObject [(str ''message'', JString message), (str ''topic'', JString topic)]))
         (\<lambda>resp. uai_return (unwrap_or (get_str resp ''id'') (str ''sent''))))"

section \<open>WireGuard peers\<close>

definition find_wg_peer :: "rstring \<Rightarrow> json list \<Rightarrow> (rstring \<times> bool \<times> bool) option" where
  "find_wg_peer name clients =
     map_option (\<lambda>c. (unwrap_or (get_str c ''id'') [], unwrap_or (get_bool c ''enabled'') True,
                      unwrap_or (get_bool c ''connected'') False))
       (List.find (\<lambda>c. get_str c ''name'' = Some name) clients)"

definition resolve_wg_peer_by_name ::
    "node_env \<Rightarrow> uai_config \<Rightarrow> rstring \<Rightarrow> (rstring \<times> bool \<times> bool) option uai" where
  "resolve_wg_peer_by_name V uai name =
     uai_bind (uai_tool V uai (str ''wg_clients'') (JObject [])) (\<lambda>resp.
       uai_return (find_wg_peer name
         (unwrap_or (Option.bind (json_get resp (str ''clients'')) as_array) [])))"

record wg_peer_manage_capability =
  wc_uai :: uai_config
  wc_action :: wg_peer_action
  wc_name :: rstring
  wc_resolved_id :: "rstring option"
  wc_prior_enabled :: bool

definition wg_done :: "wg_peer_manage_capability \<Rightarrow> rstring \<Rightarrow> rstring" where
  "wg_done c tail =
     str ''wg_peer_manage '' @ wg_as_str (wc_action c) @ str '' '' @ quoted (wc_name c) @ str '' succeeded '' @ tail"

definition wg_change :: "node_env \<Rightarrow> wg_peer_manage_capability \<Rightarrow> rstring uai" where
  "wg_change V c =
      (case wc_action c of
         WgCreate \<Rightarrow>
           uai_bind (uai_dispatch V (wc_uai c) (str ''wg_create_client'') (JObject [(str ''name'', JString (wc_name c))]))
             (\<lambda>resp. uai_return (wg_done c (str ''(new id='' @ unwrap_or
                (Option.bind (json_get resp (str ''data'')) (\<lambda>d. get_str d ''id'')) (str ''(unknown id)'') @ str '')'')))
       | WgDelete \<Rightarrow>
           (case wc_resolved_id c of
              None \<Rightarrow> uai_fail (str ''internal error: no resolved client id for delete'')
            | Some i \<Rightarrow>
                uai_bind (uai_dispatch V (wc_uai c) (str ''wg_delete_client'') (JObject [(str ''client_id'', JString i)]))
                  (\<lambda>_. uai_return (wg_done c (str ''(id='' @ i @ str '')''))))
       | _ \<Rightarrow>
           (case wc_resolved_id c of
              None \<Rightarrow> uai_fail (str ''internal error: no resolved client id'')
            | Some i \<Rightarrow>
                uai_bind (uai_dispatch V (wc_uai c)
                    (if wc_action c = WgEnable then str ''wg_enable_client'' else str ''wg_disable_client'')
                    (JObject [(str ''client_id'', JString i)]))
                  (\<lambda>_. uai_return (wg_done c (str ''(id='' @ i @ str '')'')))))"

definition wg_perform :: "node_env \<Rightarrow> wg_peer_manage_capability \<Rightarrow> rstring uai" where
  "wg_perform V c = uai_bind (http_client V) (\<lambda>_. wg_change V c)"

definition wg_dry_run :: "wg_peer_manage_capability \<Rightarrow> dry_run_diff_entry list" where
  "wg_dry_run c =
     (let entry = (\<lambda>k cur prop. [\<lparr>dd_key = str k, dd_current = cur, dd_proposed = prop\<rparr>]);
          prior = bool_text (wc_prior_enabled c)
      in case wc_action c of
           WgCreate \<Rightarrow> entry ''peer'' (str ''(does not exist)'') (str ''created, name='' @ quoted (wc_name c))
         | WgDelete \<Rightarrow> entry ''peer'' (str ''exists, enabled='' @ prior) (str ''permanently deleted'')
         | WgEnable \<Rightarrow> entry ''enabled'' prior (str ''true'')
         | WgDisable \<Rightarrow> entry ''enabled'' prior (str ''false''))"

text \<open>The trait object the approval flow is handed, executing after the requests made by then.\<close>

definition wg_tier2 :: "node_env \<Rightarrow> wg_peer_manage_capability \<Rightarrow> http_request list \<Rightarrow> tier2_capability" where
  "wg_tier2 V c calls =
     \<lparr>t2_name = str ''wg_peer_manage'', t2_dry_run = (\<lambda>_. Some (wg_dry_run c)),
      t2_execute = (\<lambda>_. case fst (wg_perform V c calls) of Ok s \<Rightarrow> Inr s | Err e \<Rightarrow> Inl e | Panic \<Rightarrow> Inl [])\<rparr>"

section \<open>Handlers\<close>

record dispatch_context =
  dc_identity :: keypair
  dc_local_capabilities :: "rstring list"
  dc_uai_config :: "uai_config option"
  dc_notify_topic :: "rstring option"
  dc_tier2 :: bool

text \<open>
  What a handler works on: the requests made, the approval flow behind \<open>dc_tier2\<close>, and the background
  tasks that have been spawned.
\<close>

record node_io =
  io_calls :: "http_request list"
  io_flow :: approval_flow
  io_tasks :: "(intent_id \<times> wg_peer_manage_capability) list"

text \<open>The head of a request, which every reply repeats.\<close>

record reply_to =
  rt_intent_hash :: intent_hash
  rt_trace_id :: trace_id
  rt_routing :: "routing_ext option"

definition error_reply :: "node_env \<Rightarrow> dispatch_context \<Rightarrow> reply_to \<Rightarrow> rstring \<Rightarrow> u8 list" where
  "error_reply V C q reason =
     build_error_frame (ne_ed V) (dc_identity C) (rt_intent_hash q) (rt_trace_id q) reason (rt_routing q)"

definition fulfill_reply :: "node_env \<Rightarrow> dispatch_context \<Rightarrow> reply_to \<Rightarrow> u8 list \<Rightarrow> u8 list" where
  "fulfill_reply V C q payload =
     build_fulfill_frame (ne_ed V) (dc_identity C) (rt_intent_hash q) (rt_trace_id q) payload (rt_routing q)"

definition outcome_reply ::
    "node_env \<Rightarrow> dispatch_context \<Rightarrow> reply_to \<Rightarrow> (rstring, rstring) result \<Rightarrow> u8 list" where
  "outcome_reply V C q r =
     (case r of Ok s \<Rightarrow> fulfill_reply V C q (as_bytes s) | Err e \<Rightarrow> error_reply V C q e | Panic \<Rightarrow> [])"

definition uai_reply ::
    "node_env \<Rightarrow> dispatch_context \<Rightarrow> reply_to \<Rightarrow> rstring uai \<Rightarrow> http_request list \<Rightarrow> u8 list \<times> http_request list" where
  "uai_reply V C q m calls = (outcome_reply V C q (fst (m calls)), snd (m calls))"

definition dispatch_network_clients ::
    "node_env \<Rightarrow> dispatch_context \<Rightarrow> reply_to \<Rightarrow> http_request list \<Rightarrow> u8 list \<times> http_request list" where
  "dispatch_network_clients V C q calls =
     (case dc_uai_config C of
        None \<Rightarrow> (error_reply V C q (str ''network_clients not configured on this node''), calls)
      | Some uai \<Rightarrow> uai_reply V C q (fetch_network_clients V uai) calls)"

definition dispatch_notify_send ::
    "node_env \<Rightarrow> dispatch_context \<Rightarrow> reply_to \<Rightarrow> u8 list \<Rightarrow> http_request list \<Rightarrow> u8 list \<times> http_request list" where
  "dispatch_notify_send V C q payload calls =
     (case (dc_uai_config C, dc_notify_topic C) of
        (Some uai, Some topic) \<Rightarrow> uai_reply V C q (send_notification V uai topic payload) calls
      | _ \<Rightarrow> (error_reply V C q (str ''notify_send not configured on this node''), calls))"

definition dispatch_wg_peers_list ::
    "node_env \<Rightarrow> dispatch_context \<Rightarrow> reply_to \<Rightarrow> http_request list \<Rightarrow> u8 list \<times> http_request list" where
  "dispatch_wg_peers_list V C q calls =
     (case dc_uai_config C of
        None \<Rightarrow> (error_reply V C q (str ''wg_peers_list not configured on this node''), calls)
      | Some uai \<Rightarrow> uai_reply V C q (fetch_wg_peers_list V uai) calls)"

text \<open>
  The restart and toggle handlers have one shape: parse the target, match its canonical form against
  the policy's deny list, and call the broker if it is configured.
\<close>

definition dispatch_target ::
    "node_env \<Rightarrow> 's policy_libs \<Rightarrow> dispatch_context \<Rightarrow> 's capability_policy \<Rightarrow> rstring
       \<Rightarrow> ('t, rstring) result \<Rightarrow> ('t \<Rightarrow> rstring) \<Rightarrow> (uai_config \<Rightarrow> 't \<Rightarrow> rstring uai)
       \<Rightarrow> reply_to \<Rightarrow> http_request list \<Rightarrow> u8 list \<times> http_request list" where
  "dispatch_target V L C p name parsed canonical act q calls =
     (case parsed of
        Err e \<Rightarrow> (error_reply V C q e, calls)
      | Panic \<Rightarrow> ([], calls)
      | Ok target \<Rightarrow>
          (case check_denied_param_substrings L p name [constraint_string (str ''target'') (canonical target)] of
             Some reason \<Rightarrow> (error_reply V C q reason, calls)
           | None \<Rightarrow>
               (case dc_uai_config C of
                  None \<Rightarrow> (error_reply V C q (name @ str '' not configured on this node''), calls)
                | Some uai \<Rightarrow> uai_reply V C q (act uai target) calls)))"

definition dispatch_proxmox_restart ::
    "node_env \<Rightarrow> 's policy_libs \<Rightarrow> dispatch_context \<Rightarrow> 's capability_policy \<Rightarrow> reply_to \<Rightarrow> u8 list
       \<Rightarrow> http_request list \<Rightarrow> u8 list \<times> http_request list" where
  "dispatch_proxmox_restart V L C p q payload =
     dispatch_target V L C p (str ''proxmox_restart'') (parse_proxmox_restart_target payload) px_canonical
       (restart_proxmox_resource V) q"

definition dispatch_home_assistant_toggle ::
    "node_env \<Rightarrow> 's policy_libs \<Rightarrow> dispatch_context \<Rightarrow> 's capability_policy \<Rightarrow> reply_to \<Rightarrow> u8 list
       \<Rightarrow> http_request list \<Rightarrow> u8 list \<times> http_request list" where
  "dispatch_home_assistant_toggle V L C p q payload =
     dispatch_target V L C p (str ''home_assistant_toggle'') (parse_ha_toggle_target payload) ha_canonical
       (call_ha_action V) q"

definition dispatch_docker_restart ::
    "node_env \<Rightarrow> 's policy_libs \<Rightarrow> dispatch_context \<Rightarrow> 's capability_policy \<Rightarrow> reply_to \<Rightarrow> u8 list
       \<Rightarrow> http_request list \<Rightarrow> u8 list \<times> http_request list" where
  "dispatch_docker_restart V L C p q payload =
     dispatch_target V L C p (str ''docker_restart'') (parse_docker_restart_target payload) dk_canonical
       (restart_docker_container V) q"

definition wg_params :: "wg_peer_action \<Rightarrow> rstring \<Rightarrow> constraint list" where
  "wg_params action name =
     [constraint_string (str ''action'') (wg_as_str action), constraint_string (str ''target'') name]"

definition protected_match_text :: "node_env \<Rightarrow> protected_match \<Rightarrow> rstring" where
  "protected_match_text V m =
     str ''parameter '' @ quoted (pm_parameter_key m) @ str '' (value '' @ fmt_debug_str (ne_fmt V) (pm_matched_value m)
     @ str '') references protected resource '' @ unwrap_or (pm_resource_name m) (str ''<unnamed>'')
     @ str '' (mac '' @ pm_resource_mac m
     @ (case pm_resource_ip m of None \<Rightarrow> [] | Some ip \<Rightarrow> str '', ip '' @ ip) @ str '')''"

definition propose_error_text :: "node_env \<Rightarrow> propose_error \<Rightarrow> rstring" where
  "propose_error_text V e =
     str ''proposal rejected: '' @
     (case e of
        ProtectedResourceSectionMissing \<Rightarrow>
          str ''this policy has no [[protected_resource]] section at all - failing closed until one exists (even an empty one)''
      | TargetsProtectedResource m \<Rightarrow> protected_match_text V m
      | ArgumentConstraintViolation reason \<Rightarrow> reason)"

definition wg_proposed_text :: "node_env \<Rightarrow> intent_id \<Rightarrow> wg_peer_manage_target \<Rightarrow> rstring" where
  "wg_proposed_text V iid target =
     str ''wg_peer_manage: Tier 2 approval requested (intent '' @ ne_hex V (intent_id_bytes iid)
     @ str '') for action='' @ quoted (wg_as_str (wt_action target)) @ str '' target='' @ quoted (wt_name target)
     @ str ''. A Telegram approval request has been sent to the configured chat; this request expires ''
     @ dec_string (DEFAULT_EXPIRY div nanos_per_sec div 60)
     @ str '' minutes from now if not answered. Check wg_peers_list (or the audit log) afterward for the actual outcome - this reply only confirms the request was proposed, not that it was approved or executed.''"

text \<open>The peer is looked up unless it is to be created.\<close>

definition wg_resolve :: "node_env \<Rightarrow> uai_config \<Rightarrow> wg_peer_manage_target \<Rightarrow> (rstring option \<times> bool) uai" where
  "wg_resolve V uai target =
     (if wt_action target = WgCreate then uai_return (None, False)
      else uai_bind (resolve_wg_peer_by_name V uai (wt_name target)) (\<lambda>found.
        case found of
          Some (i, enabled, _) \<Rightarrow> uai_return (Some i, enabled)
        | None \<Rightarrow> uai_fail (str ''wg_peer_manage: no WireGuard peer named '' @ quoted (wt_name target)
                    @ str '' exists - nothing to '' @ wg_as_str (wt_action target))))"

definition dispatch_wg_peer_manage ::
    "node_env \<Rightarrow> 's policy_libs \<Rightarrow> dispatch_context \<Rightarrow> 's capability_policy \<Rightarrow> intent_id \<Rightarrow> nat
       \<Rightarrow> reply_to \<Rightarrow> u8 list \<Rightarrow> node_id \<Rightarrow> node_io \<Rightarrow> u8 list \<times> node_io" where
  "dispatch_wg_peer_manage V L C p new_id now q payload sender io =
     (case parse_wg_peer_manage_target payload of
        Err e \<Rightarrow> (error_reply V C q e, io)
      | Panic \<Rightarrow> ([], io)
      | Ok target \<Rightarrow>
          (case check_denied_param_substrings L p (str ''wg_peer_manage'') (wg_params (wt_action target) (wt_name target)) of
             Some reason \<Rightarrow> (error_reply V C q reason, io)
           | None \<Rightarrow>
               (case dc_uai_config C of
                  None \<Rightarrow> (error_reply V C q (str ''wg_peer_manage not configured on this node (no UAI backend)''), io)
                | Some uai \<Rightarrow>
                    if \<not> dc_tier2 C
                    then (error_reply V C q (str ''wg_peer_manage not configured on this node (no Tier 2 approval channel - see telegram_bot_token/telegram_chat_id in config.toml)''), io)
                    else
                      (let (resolved, calls) = wg_resolve V uai target (io_calls io); io = io\<lparr>io_calls := calls\<rparr> in
                       case resolved of
                         Err e \<Rightarrow> (error_reply V C q e, io)
                       | Panic \<Rightarrow> ([], io)
                       | Ok (resolved_id, prior_enabled) \<Rightarrow>
                           (let cap = \<lparr>wc_uai = uai, wc_action = wt_action target, wc_name = wt_name target,
                                       wc_resolved_id = resolved_id, wc_prior_enabled = prior_enabled\<rparr>;
                                (fl, proposed) = propose L (ne_blake3 V) p new_id now sender (wg_tier2 V cap calls)
                                   (wg_params (wt_action target) (wt_name target)) (io_flow io);
                                io = io\<lparr>io_flow := fl\<rparr>
                            in case proposed of
                                 Err e \<Rightarrow> (error_reply V C q (propose_error_text V e), io)
                               | Panic \<Rightarrow> ([], io)
                               | Ok iid \<Rightarrow>
                                   (fulfill_reply V C q (as_bytes (wg_proposed_text V iid target)),
                                    io\<lparr>io_tasks := io_tasks io @ [(iid, cap)]\<rparr>))))))"

text \<open>
  The task spawned for a proposal: decide, execute if approved, and log the record that results. A
  failed write to the audit log is only warned about.
\<close>

definition wg_background_task ::
    "node_env \<Rightarrow> audit_libs \<Rightarrow> (approval_request \<Rightarrow> (approval_decision, approval_channel_error) result)
       \<Rightarrow> nat \<Rightarrow> nat \<Rightarrow> nat \<Rightarrow> write_outcome \<Rightarrow> u64 \<Rightarrow> nat \<Rightarrow> intent_id \<Rightarrow> wg_peer_manage_capability \<Rightarrow> http_request list
       \<Rightarrow> approval_flow \<times> audit_log option \<Rightarrow> approval_flow \<times> audit_log option" where
  "wg_background_task V A channel t1 t2 t3 w now_ms log_now iid cap calls s =
     (let (fl, _, _) = decide_and_execute (ne_blake3 V) channel t1 t2 t3 iid (wg_tier2 V cap calls) (fst s) in
      (fl, case flow_record fl iid of
             None \<Rightarrow> snd s
           | Some r \<Rightarrow> map_option (\<lambda>lg. fst (log_tier2_linked_record A w now_ms log_now r lg)) (snd s)))"

section \<open>Dispatch\<close>

definition collect_sysinfo :: "node_env \<Rightarrow> u8 list" where
  "collect_sysinfo V =
     (let hostname = (case ne_hostname V of Some s \<Rightarrow> trim s | None \<Rightarrow> str ''unknown'');
          first_word = (\<lambda>s. let w = takeWhile (\<lambda>c. \<not> is_whitespace c) (dropWhile is_whitespace s)
                            in if w = [] then None else Some w);
          uptime_secs = Option.bind (Option.bind (ne_uptime V) first_word) (ne_parse_secs V)
      in as_bytes (str ''hostname='' @ hostname @ str '' uptime_secs='' @
           (case uptime_secs of Some secs \<Rightarrow> dec_string (unat secs) | None \<Rightarrow> str ''unknown'')))"

definition find_capability :: "node_env \<Rightarrow> dispatch_context \<Rightarrow> intent_hash \<Rightarrow> rstring option" where
  "find_capability V C ih =
     List.find (\<lambda>name. ai_hash (ai_intent_from_str (ne_blake3 V) name) = ih) (dc_local_capabilities C)"

text \<open>Up to the permit: the refusal to answer with, or the name of the capability admitted.\<close>

definition dispatch_admit ::
    "node_env \<Rightarrow> 's policy_libs \<Rightarrow> dispatch_context \<Rightarrow> u64 \<Rightarrow> nat \<Rightarrow> intent_hash \<Rightarrow> node_id
       \<Rightarrow> 's capability_policy \<Rightarrow> 's capability_policy \<times> (rstring, rstring) result" where
  "dispatch_admit V L C now_secs now ih sender p =
     (case find_capability V C ih of
        None \<Rightarrow> (p, Err (str ''unknown capability''))
      | Some name \<Rightarrow>
          if name = str ''network_clients''
          then (p, Err (str ''network_clients disabled pending a properly-scoped UAI credential''))
          else
            (let (p', outcome) = check_and_acquire L now_secs now name sender p in
             (p', case outcome of
                NotAuthorized \<Rightarrow> Err (str ''not authorized for this capability'')
              | RateLimited \<Rightarrow> Err (str ''rate limited, try again later'')
              | AtConcurrencyLimit \<Rightarrow> Err (str ''too many concurrent requests for this capability, try again shortly'')
              | Suspended \<Rightarrow> Err (str ''suspended by kill switch'')
              | Frozen \<Rightarrow> Err (str ''tier1+ execution frozen by kill switch'')
              | Allowed \<Rightarrow> Ok name)))"

text \<open>The handlers that only make requests, and all of them.\<close>

definition dispatch_plain ::
    "node_env \<Rightarrow> 's policy_libs \<Rightarrow> dispatch_context \<Rightarrow> 's capability_policy \<Rightarrow> reply_to \<Rightarrow> u8 list
       \<Rightarrow> rstring \<Rightarrow> http_request list \<Rightarrow> u8 list \<times> http_request list" where
  "dispatch_plain V L C p q payload name calls =
     (if name = str ''echo'' then (fulfill_reply V C q payload, calls)
      else if name = str ''sysinfo'' then (fulfill_reply V C q (collect_sysinfo V), calls)
      else if name = str ''network_clients'' then dispatch_network_clients V C q calls
      else if name = str ''notify_send'' then dispatch_notify_send V C q payload calls
      else if name = str ''proxmox_restart'' then dispatch_proxmox_restart V L C p q payload calls
      else if name = str ''home_assistant_toggle'' then dispatch_home_assistant_toggle V L C p q payload calls
      else if name = str ''docker_restart'' then dispatch_docker_restart V L C p q payload calls
      else if name = str ''wg_peers_list'' then dispatch_wg_peers_list V C q calls
      else (error_reply V C q (str ''capability recognized but has no handler''), calls))"

definition dispatch_handle ::
    "node_env \<Rightarrow> 's policy_libs \<Rightarrow> dispatch_context \<Rightarrow> 's capability_policy \<Rightarrow> intent_id \<Rightarrow> nat
       \<Rightarrow> reply_to \<Rightarrow> u8 list \<Rightarrow> node_id \<Rightarrow> rstring \<Rightarrow> node_io \<Rightarrow> u8 list \<times> node_io" where
  "dispatch_handle V L C p new_id now q payload sender name io =
     (if name = str ''wg_peer_manage'' then dispatch_wg_peer_manage V L C p new_id now q payload sender io
      else (let (reply, calls) = dispatch_plain V L C p q payload name (io_calls io)
            in (reply, io\<lparr>io_calls := calls\<rparr>)))"

text \<open>Admission happens at \<open>now\<close>, a proposal of the handler \<open>later\<close>.\<close>

definition dispatch_intent ::
    "node_env \<Rightarrow> 's policy_libs \<Rightarrow> dispatch_context \<Rightarrow> u64 \<Rightarrow> nat \<Rightarrow> nat \<Rightarrow> intent_id \<Rightarrow> reply_to \<Rightarrow> u8 list
       \<Rightarrow> node_id \<Rightarrow> 's capability_policy \<times> node_io \<Rightarrow> u8 list \<times> 's capability_policy \<times> node_io" where
  "dispatch_intent V L C now_secs now later new_id q payload sender s =
     (case dispatch_admit V L C now_secs now (rt_intent_hash q) sender (fst s) of
        (p, Ok name) \<Rightarrow>
          (let (reply, io) = dispatch_handle V L C p new_id later q payload sender name (snd s)
           in (reply, drop_permit L name p, io))
      | (p, Err e) \<Rightarrow> (error_reply V C q e, p, snd s)
      | (p, Panic) \<Rightarrow> ([], p, snd s))"

section \<open>Which requests a handler makes\<close>

lemma str_eq_iff: "str a = str b \<longleftrightarrow> a = b"
  by (simp add: str_def inj_map_eq_map inj_def)

definition asks :: "'a uai \<Rightarrow> http_request set \<Rightarrow> bool" where
  "asks m R \<longleftrightarrow> (\<forall>calls. \<exists>new. snd (m calls) = calls @ new \<and> length new \<le> 1 \<and> set new \<subseteq> R)"

lemma asks_dispatch: "asks (uai_dispatch V uai t a) {uai_request uai t a}"
  by (simp add: asks_def uai_dispatch_def Let_def)

lemma client_calls: "snd (http_client V calls) = calls"
  by (simp add: http_client_def split: option.split)

lemma asks_quiet_first:
  assumes "\<And>calls. snd (m calls) = calls" "\<And>x. asks (f x) R"
  shows "asks (uai_bind m f) R"
  unfolding asks_def
proof
  fix calls
  show "\<exists>new. snd (uai_bind m f calls) = calls @ new \<and> length new \<le> 1 \<and> set new \<subseteq> R"
    using assms(1) [of calls] assms(2) unfolding asks_def uai_bind_def
    by (cases "m calls"; cases "fst (m calls)") (auto split: result.splits)
qed

lemma asks_quiet_then:
  assumes "asks m R" "\<And>x calls. snd (f x calls) = calls"
  shows "asks (uai_bind m f) R"
  unfolding asks_def
proof
  fix calls
  obtain new where "snd (m calls) = calls @ new" "length new \<le> 1" "set new \<subseteq> R"
    using assms(1) unfolding asks_def by blast
  then show "\<exists>new. snd (uai_bind m f calls) = calls @ new \<and> length new \<le> 1 \<and> set new \<subseteq> R"
    using assms(2) unfolding uai_bind_def by (cases "m calls"; cases "fst (m calls)") auto
qed

lemma asks_tool: "asks (uai_tool V uai t a) {uai_request uai t a}"
  unfolding uai_tool_def by (rule asks_quiet_first) (simp_all add: client_calls asks_dispatch)

lemma quiet_simps [simp]: "snd (uai_return x calls) = calls" "snd (uai_fail e calls) = calls"
  by (simp_all add: uai_return_def uai_fail_def)

lemma asks_quiet: "(\<And>calls. snd (m calls) = calls) \<Longrightarrow> asks m R"
  by (simp add: asks_def)

lemma asks_mono: "asks m R \<Longrightarrow> R \<subseteq> S \<Longrightarrow> asks m S"
  by (fastforce simp: asks_def)

lemma asks_proxmox:
  "asks (restart_proxmox_resource V uai t) {uai_request uai (prk_uai_tool_name (px_kind t))
     (JObject [(str ''vmid'', JNumber (dec_string (unat (px_vmid t))))])}"
  unfolding restart_proxmox_resource_def by (rule asks_quiet_then [OF asks_tool]) simp

lemma asks_ha:
  "asks (call_ha_action V uai t) {uai_request uai (ha_uai_tool_name (ha_action_of t))
     (JObject [(str ''entity_id'', JString (ha_entity_id t))])}"
  unfolding call_ha_action_def by (rule asks_quiet_then [OF asks_tool]) simp

lemma asks_docker:
  "asks (restart_docker_container V uai t) {uai_request uai (str ''docker_restart'')
     (JObject [(str ''name'', JString (dk_canonical t))])}"
  unfolding restart_docker_container_def by (rule asks_quiet_then [OF asks_tool]) simp

lemma asks_wg_list: "asks (fetch_wg_peers_list V uai) {uai_request uai (str ''wg_clients'') (JObject [])}"
  unfolding fetch_wg_peers_list_def by (rule asks_quiet_then [OF asks_tool]) simp

lemma asks_notify:
  "asks (send_notification V uai topic payload)
     {r. \<exists>m. prepare_notify_message payload = Ok m \<and>
        r = uai_request uai (str ''ntfy_send'') (JObject [(str ''message'', JString m), (str ''topic'', JString topic)])}"
  (is "asks _ ?R")
proof (cases "prepare_notify_message payload")
  case (Ok m)
  have "asks (uai_bind (uai_tool V uai (str ''ntfy_send'')
      (JObject [(str ''message'', JString m), (str ''topic'', JString topic)]))
      (\<lambda>resp. uai_return (unwrap_or (get_str resp ''id'') (str ''sent'')))) ?R"
    by (rule asks_mono [OF asks_quiet_then [OF asks_tool]]) (simp_all add: Ok)
  then show ?thesis by (simp add: asks_def send_notification_def uai_bind_def Ok)
qed (simp_all add: asks_def send_notification_def uai_bind_def)

lemma asks_wg_resolve: "asks (wg_resolve V uai t) {uai_request uai (str ''wg_clients'') (JObject [])}"
proof -
  have "asks (resolve_wg_peer_by_name V uai n) {uai_request uai (str ''wg_clients'') (JObject [])}" for n
    unfolding resolve_wg_peer_by_name_def by (rule asks_quiet_then [OF asks_tool]) simp
  then have "asks (uai_bind (resolve_wg_peer_by_name V uai (wt_name t)) f) {uai_request uai (str ''wg_clients'') (JObject [])}"
    if "\<And>x calls. snd (f x calls) = calls" for f :: "(rstring \<times> bool \<times> bool) option \<Rightarrow> (rstring option \<times> bool) uai"
    using that by (rule asks_quiet_then)
  then show ?thesis
    by (auto simp: wg_resolve_def asks_quiet split: option.split)
qed

text \<open>The one request that the execution of a WireGuard change can make.\<close>

definition wg_call :: "wg_peer_manage_capability \<Rightarrow> http_request option" where
  "wg_call c =
     (let on_id = (\<lambda>tool. map_option (\<lambda>i. uai_request (wc_uai c) (str tool) (JObject [(str ''client_id'', JString i)]))
                    (wc_resolved_id c))
      in case wc_action c of
           WgCreate \<Rightarrow> Some (uai_request (wc_uai c) (str ''wg_create_client'') (JObject [(str ''name'', JString (wc_name c))]))
         | WgDelete \<Rightarrow> on_id ''wg_delete_client''
         | WgEnable \<Rightarrow> on_id ''wg_enable_client''
         | WgDisable \<Rightarrow> on_id ''wg_disable_client'')"

lemma asks_perform: "asks (wg_perform V c) (set_option (wg_call c))"
proof -
  have "asks (wg_change V c) (set_option (wg_call c))"
    by (cases "wc_action c"; cases "wc_resolved_id c")
      (simp_all add: wg_change_def wg_call_def asks_quiet asks_quiet_then [OF asks_dispatch])
  then show ?thesis unfolding wg_perform_def by (intro asks_quiet_first client_calls)
qed

text \<open>
  What a request made for a capability may be. Each case names the tool, its arguments, and what is
  known of them: the broker is the configured one, targets are on the lists of the code and not on
  the deny list of the policy, and message text is clean.
\<close>

definition not_denied :: "'s policy_libs \<Rightarrow> 's capability_policy \<Rightarrow> rstring \<Rightarrow> rstring \<Rightarrow> bool" where
  "not_denied L p name target \<longleftrightarrow>
     check_denied_param_substrings L p name [constraint_string (str ''target'') target] = None"

definition safe_message :: "rstring \<Rightarrow> bool" where
  "safe_message m \<longleftrightarrow>
     (\<exists>body. clean body \<and> length body \<le> MAX_UNTRUSTED_STRING_CHARS \<and> (m = body \<or> m = body @ str '' [truncated]''))"

definition safe_call ::
    "'s policy_libs \<Rightarrow> 's capability_policy \<Rightarrow> dispatch_context \<Rightarrow> rstring \<Rightarrow> http_request \<Rightarrow> bool" where
  "safe_call L p C name r \<longleftrightarrow>
     (\<exists>uai. dc_uai_config C = Some uai \<and>
       (name = str ''proxmox_restart'' \<and>
          (\<exists>t. px_vmid t \<noteq> 0 \<and> not_denied L p name (px_canonical t) \<and>
             r = uai_request uai (prk_uai_tool_name (px_kind t))
                   (JObject [(str ''vmid'', JNumber (dec_string (unat (px_vmid t))))])) \<or>
        name = str ''home_assistant_toggle'' \<and>
          (\<exists>t. ha_entity_permitted (ha_action_of t) (ha_entity_id t) \<and> not_denied L p name (ha_canonical t) \<and>
             r = uai_request uai (ha_uai_tool_name (ha_action_of t))
                   (JObject [(str ''entity_id'', JString (ha_entity_id t))])) \<or>
        name = str ''docker_restart'' \<and>
          (\<exists>n. n \<in> set ALLOWED_DOCKER_CONTAINERS \<and> not_denied L p name n \<and>
             r = uai_request uai (str ''docker_restart'') (JObject [(str ''name'', JString n)])) \<or>
        name = str ''notify_send'' \<and>
          (\<exists>m topic. dc_notify_topic C = Some topic \<and> safe_message m \<and>
             r = uai_request uai (str ''ntfy_send'') (JObject [(str ''message'', JString m), (str ''topic'', JString topic)])) \<or>
        name \<in> {str ''wg_peers_list'', str ''wg_peer_manage''} \<and> r = uai_request uai (str ''wg_clients'') (JObject [])))"

lemma uai_reply_calls:
  assumes "asks m R"
  obtains new where "snd (uai_reply V C q m calls) = calls @ new" "set new \<subseteq> R" "length new \<le> 1"
  using assms by (auto simp: asks_def uai_reply_def)

lemma dispatch_target_calls:
  assumes "\<And>uai t. parsed = Ok t \<Longrightarrow> asks (act uai t) {request uai t}"
    and "\<And>uai t. parsed = Ok t \<Longrightarrow> not_denied L p name (canonical t) \<Longrightarrow> dc_uai_config C = Some uai \<Longrightarrow>
      safe_call L p C name (request uai t)"
  shows "\<exists>new. snd (dispatch_target V L C p name parsed canonical act q calls) = calls @ new \<and>
     (\<forall>r \<in> set new. safe_call L p C name r)"
proof (cases parsed)
  case (Ok t)
  show ?thesis
  proof (cases "not_denied L p name (canonical t) \<and> dc_uai_config C \<noteq> None")
    case True
    then obtain uai where u: "dc_uai_config C = Some uai" by blast
    obtain new where "snd (uai_reply V C q (act uai t) calls) = calls @ new" "set new \<subseteq> {request uai t}"
      using uai_reply_calls [OF assms(1) [OF Ok]] by metis
    moreover have "safe_call L p C name (request uai t)" by (rule assms(2) [OF Ok _ u]) (use True in simp)
    moreover have "dispatch_target V L C p name parsed canonical act q calls = uai_reply V C q (act uai t) calls"
      using True u by (simp add: dispatch_target_def Ok not_denied_def)
    ultimately show ?thesis by auto
  next
    case False
    then show ?thesis by (auto simp: dispatch_target_def Ok not_denied_def split: option.split)
  qed
qed (simp_all add: dispatch_target_def)

lemma proxmox_calls:
  "\<exists>new. snd (dispatch_proxmox_restart V L C p q payload calls) = calls @ new \<and>
     (\<forall>r \<in> set new. safe_call L p C (str ''proxmox_restart'') r)"
  unfolding dispatch_proxmox_restart_def
  by (rule dispatch_target_calls [OF asks_proxmox]) (auto simp: safe_call_def dest: proxmox_vmid_nonzero)

lemma ha_calls:
  "\<exists>new. snd (dispatch_home_assistant_toggle V L C p q payload calls) = calls @ new \<and>
     (\<forall>r \<in> set new. safe_call L p C (str ''home_assistant_toggle'') r)"
  unfolding dispatch_home_assistant_toggle_def
  by (rule dispatch_target_calls [OF asks_ha]) (auto simp: safe_call_def dest: ha_target_permitted)

lemma docker_calls:
  "\<exists>new. snd (dispatch_docker_restart V L C p q payload calls) = calls @ new \<and>
     (\<forall>r \<in> set new. safe_call L p C (str ''docker_restart'') r)"
  unfolding dispatch_docker_restart_def
  by (rule dispatch_target_calls [OF asks_docker]) (auto simp: safe_call_def dk_canonical_def docker_target_iff)

lemma notify_calls:
  "\<exists>new. snd (dispatch_notify_send V C q payload calls) = calls @ new \<and>
     (\<forall>r \<in> set new. safe_call L p C (str ''notify_send'') r)"
proof (cases "dc_uai_config C = None \<or> dc_notify_topic C = None")
  case True
  then show ?thesis by (auto simp: dispatch_notify_send_def split: option.split)
next
  case False
  then obtain uai topic where u: "dc_uai_config C = Some uai" "dc_notify_topic C = Some topic"
    by (cases "dc_uai_config C"; cases "dc_notify_topic C") simp_all
  obtain new where "snd (uai_reply V C q (send_notification V uai topic payload) calls) = calls @ new"
      "set new \<subseteq> {r. \<exists>m. prepare_notify_message payload = Ok m \<and>
        r = uai_request uai (str ''ntfy_send'') (JObject [(str ''message'', JString m), (str ''topic'', JString topic)])}"
    by (rule uai_reply_calls [OF asks_notify])
  moreover have "safe_call L p C (str ''notify_send'')
      (uai_request uai (str ''ntfy_send'') (JObject [(str ''message'', JString m), (str ''topic'', JString topic)]))"
    if "prepare_notify_message payload = Ok m" for m
  proof -
    have "safe_message m" using notify_message_safe [OF that] by (simp add: safe_message_def)
    then show ?thesis unfolding safe_call_def using u by blast
  qed
  ultimately show ?thesis using u by (auto simp: dispatch_notify_send_def)
qed

lemma wg_list_calls:
  "\<exists>new. snd (dispatch_wg_peers_list V C q calls) = calls @ new \<and>
     (\<forall>r \<in> set new. safe_call L p C (str ''wg_peers_list'') r)"
proof (cases "dc_uai_config C")
  case (Some uai)
  obtain new where "snd (uai_reply V C q (fetch_wg_peers_list V uai) calls) = calls @ new"
      "set new \<subseteq> {uai_request uai (str ''wg_clients'') (JObject [])}"
    by (rule uai_reply_calls [OF asks_wg_list])
  then show ?thesis using Some by (auto simp: dispatch_wg_peers_list_def safe_call_def)
qed (simp add: dispatch_wg_peers_list_def)

text \<open>A proposal is for a target that passed the parser, with the parameters that name it.\<close>

definition wg_ok :: "wg_peer_manage_capability \<Rightarrow> bool" where
  "wg_ok c \<longleftrightarrow> check_wg_name (wc_action c) (wc_name c) = Ok \<lparr>wt_action = wc_action c, wt_name = wc_name c\<rparr>"

lemma wg_manage_effect:
  assumes "dispatch_wg_peer_manage V L C p new_id now q payload sender io = (reply, io')"
  obtains (quiet) new where "io_calls io' = io_calls io @ new"
      "\<forall>r \<in> set new. safe_call L p C (str ''wg_peer_manage'') r" "io_flow io' = io_flow io" "io_tasks io' = io_tasks io"
  | (proposed) new cap out where "io_calls io' = io_calls io @ new"
      "\<forall>r \<in> set new. safe_call L p C (str ''wg_peer_manage'') r" "wg_ok cap"
      "propose L (ne_blake3 V) p new_id now sender (wg_tier2 V cap (io_calls io')) (wg_params (wc_action cap) (wc_name cap))
         (io_flow io) = (io_flow io', out)"
      "io_tasks io' = (case out of Ok iid \<Rightarrow> io_tasks io @ [(iid, cap)] | _ \<Rightarrow> io_tasks io)"
proof (cases "\<exists>t uai. parse_wg_peer_manage_target payload = Ok t \<and> dc_uai_config C = Some uai \<and> dc_tier2 C \<and>
    check_denied_param_substrings L p (str ''wg_peer_manage'') (wg_params (wt_action t) (wt_name t)) = None")
  case False
  then have "io' = io"
    using assms unfolding dispatch_wg_peer_manage_def
    by (cases "parse_wg_peer_manage_target payload") (auto split: option.splits if_splits)
  then show thesis using quiet [of "[]"] by simp
next
  case True
  then obtain t uai where t: "parse_wg_peer_manage_target payload = Ok t" "dc_uai_config C = Some uai" "dc_tier2 C"
      "check_denied_param_substrings L p (str ''wg_peer_manage'') (wg_params (wt_action t) (wt_name t)) = None" by blast
  obtain res calls where res: "wg_resolve V uai t (io_calls io) = (res, calls)" by (cases "wg_resolve V uai t (io_calls io)")
  obtain new where new: "calls = io_calls io @ new" "set new \<subseteq> {uai_request uai (str ''wg_clients'') (JObject [])}"
    using asks_wg_resolve [of V uai t] res unfolding asks_def by (metis snd_conv)
  have safe: "\<forall>r \<in> set new. safe_call L p C (str ''wg_peer_manage'') r"
    using new(2) t(2) by (auto simp: safe_call_def)
  show thesis
  proof (cases res)
    case (Ok x)
    obtain i pe where x: "x = (i, pe)" by (cases x)
    let ?cap = "\<lparr>wc_uai = uai, wc_action = wt_action t, wc_name = wt_name t, wc_resolved_id = i, wc_prior_enabled = pe\<rparr>"
    obtain fl out where pr: "propose L (ne_blake3 V) p new_id now sender (wg_tier2 V ?cap calls)
        (wg_params (wt_action t) (wt_name t)) (io_flow io) = (fl, out)" by fastforce
    have ok: "wg_ok ?cap" using wg_target_checked [OF t(1)] by (simp add: wg_ok_def)
    have "snd (dispatch_wg_peer_manage V L C p new_id now q payload sender io) =
        (case out of Ok iid \<Rightarrow> io\<lparr>io_calls := calls, io_flow := fl, io_tasks := io_tasks io @ [(iid, ?cap)]\<rparr>
         | _ \<Rightarrow> io\<lparr>io_calls := calls, io_flow := fl\<rparr>)"
      by (simp add: dispatch_wg_peer_manage_def Let_def t res Ok x pr split: result.split)
    then have io': "io_calls io' = calls" "io_flow io' = fl"
        "io_tasks io' = (case out of Ok iid \<Rightarrow> io_tasks io @ [(iid, ?cap)] | _ \<Rightarrow> io_tasks io)"
      unfolding assms by (simp_all split: result.split)
    show thesis
    proof (rule proposed)
      show "io_calls io' = io_calls io @ new" by (simp add: io' new(1))
      show "\<forall>r \<in> set new. safe_call L p C (str ''wg_peer_manage'') r" by (rule safe)
      show "wg_ok ?cap" by (rule ok)
      show "propose L (ne_blake3 V) p new_id now sender (wg_tier2 V ?cap (io_calls io'))
          (wg_params (wc_action ?cap) (wc_name ?cap)) (io_flow io) = (io_flow io', out)"
        using pr by (simp add: io')
      show "io_tasks io' = (case out of Ok iid \<Rightarrow> io_tasks io @ [(iid, ?cap)] | _ \<Rightarrow> io_tasks io)" by (simp add: io')
    qed
  next
    case (Err e)
    then have "io' = io\<lparr>io_calls := calls\<rparr>" using assms by (simp add: dispatch_wg_peer_manage_def t res)
    then show thesis using quiet [of new] new(1) safe by simp
  next
    case Panic
    then have "io' = io\<lparr>io_calls := calls\<rparr>" using assms by (simp add: dispatch_wg_peer_manage_def t res)
    then show thesis using quiet [of new] new(1) safe by simp
  qed
qed

lemma plain_calls:
  assumes "name \<noteq> str ''network_clients''"
  shows "\<exists>new. snd (dispatch_plain V L C p q payload name calls) = calls @ new \<and> (\<forall>r \<in> set new. safe_call L p C name r)"
proof -
  note l = dispatch_plain_def str_eq_iff
  have "snd (dispatch_plain V L C p q payload name calls) = calls"
    if "name \<noteq> str ''notify_send''" "name \<noteq> str ''proxmox_restart''" "name \<noteq> str ''home_assistant_toggle''"
      "name \<noteq> str ''docker_restart''" "name \<noteq> str ''wg_peers_list''"
    using assms that by (simp add: dispatch_plain_def)
  then consider "name = str ''notify_send''" | "name = str ''proxmox_restart''" | "name = str ''home_assistant_toggle''"
    | "name = str ''docker_restart''" | "name = str ''wg_peers_list''"
    | "snd (dispatch_plain V L C p q payload name calls) = calls"
    by blast
  then show ?thesis
  proof cases
    case 1 then show ?thesis using notify_calls by (simp add: l)
  next
    case 2 then show ?thesis using proxmox_calls by (simp add: l)
  next
    case 3 then show ?thesis using ha_calls by (simp add: l)
  next
    case 4 then show ?thesis using docker_calls by (simp add: l)
  next
    case 5 then show ?thesis using wg_list_calls by (simp add: l)
  qed simp
qed

lemma handle_effect:
  assumes "dispatch_handle V L C p new_id now q payload sender name io = (reply, io')" "name \<noteq> str ''network_clients''"
  obtains (quiet) new where "io_calls io' = io_calls io @ new" "\<forall>r \<in> set new. safe_call L p C name r"
      "io_flow io' = io_flow io" "io_tasks io' = io_tasks io"
  | (proposed) new cap out where "name = str ''wg_peer_manage''" "io_calls io' = io_calls io @ new"
      "\<forall>r \<in> set new. safe_call L p C name r" "wg_ok cap"
      "propose L (ne_blake3 V) p new_id now sender (wg_tier2 V cap (io_calls io')) (wg_params (wc_action cap) (wc_name cap))
         (io_flow io) = (io_flow io', out)"
      "io_tasks io' = (case out of Ok iid \<Rightarrow> io_tasks io @ [(iid, cap)] | _ \<Rightarrow> io_tasks io)"
proof (cases "name = str ''wg_peer_manage''")
  case True
  then have "dispatch_wg_peer_manage V L C p new_id now q payload sender io = (reply, io')"
    using assms(1) by (simp add: dispatch_handle_def)
  then show thesis
    by (cases rule: wg_manage_effect) (use True quiet proposed in blast)+
next
  case False
  have "io' = io\<lparr>io_calls := snd (dispatch_plain V L C p q payload name (io_calls io))\<rparr>"
    using assms(1) False by (simp add: dispatch_handle_def case_prod_unfold Let_def)
  then show thesis using plain_calls [OF assms(2)] quiet by fastforce
qed

section \<open>Replies\<close>

definition verified_reply :: "node_env \<Rightarrow> dispatch_context \<Rightarrow> reply_to \<Rightarrow> u8 list \<Rightarrow> bool" where
  "verified_reply V C q reply \<longleftrightarrow>
     reply = [] \<or>
     (\<exists>f. decode_verified_frame (ne_ed V) reply = Some f \<and>
          fh_sender_id (fr_header f) = keypair_node_id (ne_ed V) (dc_identity C) \<and>
          fh_frame_type (fr_header f) \<in> {FtFulfill, FtError} \<and>
          fh_intent_hash (fr_header f) = rt_intent_hash q \<and> fr_trace_id f = Some (rt_trace_id q) \<and>
          fr_routing f = rt_routing q)"

definition wf_reply_to :: "reply_to \<Rightarrow> bool" where
  "wf_reply_to q \<longleftrightarrow> wf_intent_hash (rt_intent_hash q) \<and> wf_trace_id (rt_trace_id q) \<and> wf_routing_opt (rt_routing q)"

lemma simple_frame_typed:
  assumes "wf_keypair k" "ed25519_correct E" "wf_frame_type ft" "wf_trace_id tid" "wf_intent_hash ih" "wf_routing_opt routing"
  shows "typed_frame (simple_frame E k ft tid ih payload routing)"
proof -
  have "typed_frame (simple_frame E k ft tid ih [] routing)"
    by (rule wf_frame_typed, rule wf_simple_frame) (use assms in \<open>simp_all add: MAX_PAYLOAD_SIZE_def\<close>)
  then show ?thesis by (simp add: typed_frame_def simple_frame_def Let_def frame_new_def)
qed

lemma build_too_long:
  assumes "ed25519_correct E" "wf_keypair k" "wf_frame_type ft" "wf_trace_id tid" "wf_intent_hash ih" "wf_routing_opt routing"
    and "\<not> length payload \<le> MAX_PAYLOAD_SIZE"
  shows "build_simple_frame E k ft tid ih payload routing = []"
proof -
  let ?f = "simple_frame E k ft tid ih payload routing"
  have "typed_frame (?f\<lparr>fr_auth := AuthSignature (keypair_sign E k (signature_data ?f))\<rparr>)"
    using simple_frame_typed [OF assms(2,1,3-6), of payload] wf_keypair_sign [OF assms(1,2)]
    by (simp add: typed_frame_def)
  then have "encode_vec (?f\<lparr>fr_auth := AuthSignature (keypair_sign E k (signature_data ?f))\<rparr>) = None"
    using assms(7) by (simp add: encode_vec_cases)
  then show ?thesis
    by (simp add: build_simple_frame_def sign_and_encode_frame_def frame_sign_def simple_frame_header)
qed

lemma reply_verified:
  assumes "ed25519_correct (ne_ed V)" "wf_keypair (dc_identity C)" "wf_reply_to q" "ft \<in> {FtFulfill, FtError}"
  shows "verified_reply V C q (build_simple_frame (ne_ed V) (dc_identity C) ft (rt_trace_id q) (rt_intent_hash q) payload (rt_routing q))"
proof (cases "length payload \<le> MAX_PAYLOAD_SIZE")
  case True
  have "wf_frame_type ft" using assms(4) by (auto simp: wf_frame_type_def)
  then show ?thesis
    using build_simple_frame_accepted [OF assms(1,2) _ _ _ True] assms(3,4)
    unfolding verified_reply_def wf_reply_to_def by metis
next
  case False
  have "wf_frame_type ft" using assms(4) by (auto simp: wf_frame_type_def)
  then show ?thesis
    using build_too_long [OF assms(1,2) _ _ _ _ False] assms(3) by (simp add: verified_reply_def wf_reply_to_def)
qed

lemma replies_verified:
  assumes "ed25519_correct (ne_ed V)" "wf_keypair (dc_identity C)" "wf_reply_to q"
  shows "verified_reply V C q (error_reply V C q e)" "verified_reply V C q (fulfill_reply V C q b)"
    and "verified_reply V C q (outcome_reply V C q r)" "verified_reply V C q (fst (uai_reply V C q m calls))"
proof -
  show *: "verified_reply V C q (error_reply V C q e)" "verified_reply V C q (fulfill_reply V C q b)" for e b
    unfolding error_reply_def fulfill_reply_def build_error_frame_def build_fulfill_frame_def
    by (rule reply_verified [OF assms], simp)+
  show **: "verified_reply V C q (outcome_reply V C q r)" for r
    using * by (simp add: outcome_reply_def verified_reply_def split: result.split)
  show "verified_reply V C q (fst (uai_reply V C q m calls))"
    by (simp add: uai_reply_def **)
qed

lemma verified_nothing: "verified_reply V C q []"
  by (simp add: verified_reply_def)

lemma target_reply_verified:
  assumes "ed25519_correct (ne_ed V)" "wf_keypair (dc_identity C)" "wf_reply_to q"
  shows "verified_reply V C q (fst (dispatch_target V L C p name parsed canonical act q calls))"
  using replies_verified [OF assms]
  by (simp add: dispatch_target_def verified_nothing split: result.split option.split)

lemma plain_reply_verified:
  assumes "ed25519_correct (ne_ed V)" "wf_keypair (dc_identity C)" "wf_reply_to q"
  shows "verified_reply V C q (fst (dispatch_plain V L C p q payload name calls))"
proof -
  note v = replies_verified [OF assms] target_reply_verified [OF assms]
  have "verified_reply V C q (fst (dispatch_network_clients V C q calls))"
    "verified_reply V C q (fst (dispatch_notify_send V C q payload calls))"
    "verified_reply V C q (fst (dispatch_wg_peers_list V C q calls))"
    using v by (simp_all add: dispatch_network_clients_def dispatch_notify_send_def dispatch_wg_peers_list_def
        split: option.split)
  then show ?thesis
    by (simp add: dispatch_plain_def dispatch_proxmox_restart_def dispatch_home_assistant_toggle_def
      dispatch_docker_restart_def v str_eq_iff)
qed

lemma manage_reply_verified:
  assumes "ed25519_correct (ne_ed V)" "wf_keypair (dc_identity C)" "wf_reply_to q"
  shows "verified_reply V C q (fst (dispatch_wg_peer_manage V L C p new_id now q payload sender io))"
  using replies_verified [OF assms]
  by (simp add: dispatch_wg_peer_manage_def Let_def verified_nothing case_prod_unfold split: result.split option.split)

lemma handle_reply_verified:
  assumes "ed25519_correct (ne_ed V)" "wf_keypair (dc_identity C)" "wf_reply_to q"
  shows "verified_reply V C q (fst (dispatch_handle V L C p new_id now q payload sender name io))"
  by (simp add: dispatch_handle_def Let_def case_prod_unfold manage_reply_verified [OF assms]
      plain_reply_verified [OF assms])

end
