(* ===== verification/Service.thy ===== *)
theory Service
  imports Dispatch
begin

text \<open>
  A node that serves many intents at once. Admissions, handlers, kill-switch actions, the background
  tasks of \<open>wg_peer_manage\<close> with the human's decisions, and their writes interleave freely; the state
  keeps every request made to the broker together with what it was made for. The machine runs the
  admission gate of \<open>Policy\<close> and the approval flow of \<open>Approval\<close> unchanged: each of its runs projects
  to a run of theirs, so what is proved there holds here.
\<close>

section \<open>The machine\<close>

record request =
  rq_name :: rstring
  rq_sender :: node_id
  rq_head :: reply_to
  rq_payload :: "u8 list"

datatype cause = FromRequest request | FromTask intent_id

record 's service =
  sv_gate :: "'s gate"
  sv_world :: approval_world
  sv_active :: "request list"
  sv_tasks :: "(intent_id \<times> wg_peer_manage_capability) list"
  sv_log :: "(cause \<times> http_request) list"

definition sv_calls :: "'s service \<Rightarrow> http_request list" where
  "sv_calls s = map snd (sv_log s)"

definition sv_io :: "'s service \<Rightarrow> node_io" where
  "sv_io s = \<lparr>io_calls = sv_calls s, io_flow = aw_flow (sv_world s), io_tasks = sv_tasks s\<rparr>"

text \<open>The requests a computation has added, with their cause.\<close>

definition added :: "cause \<Rightarrow> 's service \<Rightarrow> http_request list \<Rightarrow> (cause \<times> http_request) list" where
  "added c s calls = map (Pair c) (drop (length (sv_log s)) calls)"

definition service_start :: "'s policy_libs \<Rightarrow> rstring option \<Rightarrow> 's service \<Rightarrow> bool" where
  "service_start L contents s \<longleftrightarrow>
     (\<exists>now. s = \<lparr>sv_gate = \<lparr>g_policy = load L contents, g_in_flight = [], g_granted = [], g_clock = now\<rparr>,
                sv_world = \<lparr>aw_flow = flow_new, aw_waiting = [], aw_shown = [], aw_decisions = [], aw_executed = []\<rparr>,
                sv_active = [], sv_tasks = [], sv_log = []\<rparr>)"

definition switched :: "'s capability_policy \<Rightarrow> 's capability_policy \<Rightarrow> bool" where
  "switched p p' \<longleftrightarrow>
     p' = freeze p \<or> p' = unfreeze p \<or> (\<exists>q. p' = suspend_peer q p) \<or> (\<exists>q. p' = fst (unsuspend_peer q p))"

inductive service_step ::
    "node_env \<Rightarrow> 's policy_libs \<Rightarrow> dispatch_context \<Rightarrow> 's service \<Rightarrow> 's service \<Rightarrow> bool"
  for V :: node_env and L :: "'s policy_libs" and C :: dispatch_context where
  sv_admit:
    "g_clock (sv_gate s) \<le> now \<Longrightarrow>
     dispatch_admit V L C now_secs now (rt_intent_hash (rq_head q)) (rq_sender q) (g_policy (sv_gate s)) = (p', Ok (rq_name q)) \<Longrightarrow>
     service_step V L C s (s\<lparr>sv_active := q # sv_active s,
       sv_gate := (sv_gate s)\<lparr>g_policy := p', g_in_flight := rq_name q # g_in_flight (sv_gate s),
         g_granted := (rq_name q, rq_sender q, now) # g_granted (sv_gate s), g_clock := now\<rparr>\<rparr>)"
| sv_refuse:
    "g_clock (sv_gate s) \<le> now \<Longrightarrow>
     dispatch_admit V L C now_secs now ih sender (g_policy (sv_gate s)) = (p', Err e) \<Longrightarrow>
     service_step V L C s (s\<lparr>sv_gate := (sv_gate s)\<lparr>g_policy := p', g_clock := now\<rparr>\<rparr>)"
| sv_handle:
    "q \<in> set (sv_active s) \<Longrightarrow> new_id \<notin> hm_keys (fl_records (aw_flow (sv_world s))) \<Longrightarrow>
     dispatch_handle V L C (g_policy (sv_gate s)) new_id now (rq_head q) (rq_payload q) (rq_sender q) (rq_name q) (sv_io s)
       = (reply, io) \<Longrightarrow>
     service_step V L C s (s\<lparr>sv_active := remove1 q (sv_active s),
       sv_gate := (sv_gate s)\<lparr>g_policy := drop_permit L (rq_name q) (g_policy (sv_gate s)),
         g_in_flight := remove1 (rq_name q) (g_in_flight (sv_gate s))\<rparr>,
       sv_world := (sv_world s)\<lparr>aw_flow := io_flow io\<rparr>, sv_tasks := io_tasks io,
       sv_log := sv_log s @ added (FromRequest q) s (io_calls io)\<rparr>)"
| sv_claim:
    "(iid, cap) \<in> set (sv_tasks s) \<Longrightarrow>
     decide_claim (ne_blake3 V) now iid (aw_flow (sv_world s)) = (fl', Claimed req) \<Longrightarrow>
     service_step V L C s (s\<lparr>sv_world := (sv_world s)\<lparr>aw_flow := fl',
       aw_waiting := iid # aw_waiting (sv_world s), aw_shown := req # aw_shown (sv_world s)\<rparr>\<rparr>)"
| sv_return:
    "(iid, cap) \<in> set (sv_tasks s) \<Longrightarrow>
     decide_claim (ne_blake3 V) now iid (aw_flow (sv_world s)) = (fl', Returned out) \<Longrightarrow>
     service_step V L C s (s\<lparr>sv_world := (sv_world s)\<lparr>aw_flow := fl'\<rparr>\<rparr>)"
| sv_channel_error:
    "iid \<in> set (aw_waiting (sv_world s)) \<Longrightarrow>
     service_step V L C s (s\<lparr>sv_world := (sv_world s)\<lparr>aw_waiting := remove1 iid (aw_waiting (sv_world s))\<rparr>\<rparr>)"
| sv_finish:
    "(iid, cap) \<in> set (sv_tasks s) \<Longrightarrow> iid \<in> set (aw_waiting (sv_world s)) \<Longrightarrow> ad_intent_id decision = iid \<Longrightarrow>
     decide_finish (ne_blake3 V) now exec_now iid (wg_tier2 V cap (sv_calls s)) decision (aw_flow (sv_world s))
       = (fl', out, ex) \<Longrightarrow>
     service_step V L C s (s\<lparr>sv_world := (sv_world s)\<lparr>aw_flow := fl',
         aw_waiting := remove1 iid (aw_waiting (sv_world s)), aw_decisions := decision # aw_decisions (sv_world s),
         aw_executed := executed_entry iid now ex @ aw_executed (sv_world s)\<rparr>,
       sv_log := sv_log s @ (if ex = None then [] else added (FromTask iid) s (snd (wg_perform V cap (sv_calls s))))\<rparr>)"
| sv_switch:
    "switched (g_policy (sv_gate s)) p' \<Longrightarrow>
     service_step V L C s (s\<lparr>sv_gate := (sv_gate s)\<lparr>g_policy := p'\<rparr>\<rparr>)"

inductive_cases service_stepE: "service_step V L C s s'"

section \<open>What the steps keep\<close>

definition same_config :: "'s capability_policy \<Rightarrow> 's capability_policy \<Rightarrow> bool" where
  "same_config p p' \<longleftrightarrow> policy_config p = policy_config p' \<and> cp_protected_resources p = cp_protected_resources p'"

lemma same_config_refl: "same_config p p"
  by (simp add: same_config_def)

lemma check_denied_config:
  assumes "same_config p p'"
  shows "check_denied_param_substrings L p = check_denied_param_substrings L p'"
proof (intro ext)
  fix c ps
  have "policy_config p c = policy_config p' c" using assms by (simp add: same_config_def)
  then show "check_denied_param_substrings L p c ps = check_denied_param_substrings L p' c ps"
    by (cases "hm_get (cp_entries p) c"; cases "hm_get (cp_entries p') c")
      (simp_all add: check_denied_param_substrings_def policy_config_def ce_config_def)
qed

lemma propose_config:
  assumes "same_config p p'"
  shows "propose_with_expiry L blake3 p = propose_with_expiry L blake3 p'"
proof (intro ext)
  have "cp_protected_resources p = cp_protected_resources p'" using assms by (simp add: same_config_def)
  then show "propose_with_expiry L blake3 p n t k c ps e fl = propose_with_expiry L blake3 p' n t k c ps e fl" for n t k c ps e fl
    unfolding propose_with_expiry_def check_denied_config [OF assms] protected_resources_configured_def
      find_protected_match_def protected_resources_def by (simp only:)
qed

lemma safe_call_config: "same_config p p' \<Longrightarrow> safe_call L p C name r \<longleftrightarrow> safe_call L p' C name r"
  by (simp add: safe_call_def not_denied_def check_denied_config [of p p'])

lemma drop_protected: "cp_protected_resources (drop_permit L c p) = cp_protected_resources p"
  by (simp add: drop_permit_def split: option.split)

lemma switched_config: "switched p p' \<Longrightarrow> policy_config p' = policy_config p \<and> cp_protected_resources p' = cp_protected_resources p"
  by (auto simp: switched_def) (simp_all add: freeze_def unfreeze_def suspend_peer_def unsuspend_peer_def)

lemma admit_cases:
  assumes "dispatch_admit V L C now_secs now ih sender p = (p', out)"
  obtains (refused) e where "p' = p" "out = Err e"
  | (checked) name res where "name \<noteq> str ''network_clients''" "check_and_acquire L now_secs now name sender p = (p', res)"
      "res = Allowed \<longleftrightarrow> out = Ok name" "res \<noteq> Allowed \<Longrightarrow> \<exists>e. out = Err e"
proof (cases "\<exists>name. find_capability V C ih = Some name \<and> name \<noteq> str ''network_clients''")
  case False
  then have "p' = p \<and> (\<exists>e. out = Err e)"
    using assms by (cases "find_capability V C ih") (auto simp: dispatch_admit_def)
  then show thesis using refused by blast
next
  case True
  then obtain name where n: "find_capability V C ih = Some name" "name \<noteq> str ''network_clients''" by blast
  obtain p1 res where c: "check_and_acquire L now_secs now name sender p = (p1, res)" by fastforce
  have "p1 = p' \<and> (res = Allowed \<longleftrightarrow> out = Ok name) \<and> (res \<noteq> Allowed \<longrightarrow> (\<exists>e. out = Err e))"
    using assms by (cases res) (auto simp: dispatch_admit_def n c)
  then have p: "p1 = p'" and out: "res = Allowed \<longleftrightarrow> out = Ok name" "res \<noteq> Allowed \<Longrightarrow> \<exists>e. out = Err e"
    by blast+
  show thesis by (rule checked [OF n(2) c [unfolded p] out])
qed

lemma world_keeps_intent:
  assumes "world_step L blake3 p w w'" "flow_record (aw_flow w) iid = Some r"
  shows "\<exists>r'. flow_record (aw_flow w') iid = Some r' \<and> lr_intent r' = lr_intent r"
  using assms(1)
proof (cases rule: world_step.cases)
  case (world_propose new_id now proposer cap params expiry fl' out)
  have "iid \<noteq> new_id" using world_propose(2) assms(2) fresh_record by fastforce
  with world_propose(3) show ?thesis
    by (cases rule: propose_cases) (use assms(2) world_propose(1) in auto)
next
  case (world_claim now iid fl' req)
  from world_claim(2) show ?thesis by (cases rule: claim_cases) (use assms(2) world_claim(1) in auto)
next
  case (world_return now iid fl' out)
  from world_return(2) show ?thesis by (cases rule: claim_cases) (use assms(2) world_return(1) in auto)
next
  case (world_finish j decision now exec_now cap fl' out ex)
  show ?thesis
  proof (cases "flow_record (aw_flow w) j")
    case None
    then have "fl' = aw_flow w" using world_finish(4) by (simp add: decide_finish_def flow_record_def)
    then show ?thesis using assms(2) world_finish(1) by simp
  next
    case (Some rj)
    from world_finish(4) Some show ?thesis
      by (cases rule: finish_cases) (use assms(2) world_finish(1) Some in auto)
  qed
qed (use assms(2) in auto)

lemma world_keeps_executed:
  "world_step L blake3 p w w' \<Longrightarrow> set (aw_executed w) \<subseteq> set (aw_executed w')"
  by (cases rule: world_step.cases) auto

section \<open>The invariant\<close>

text \<open>The request of a granted call: its sender is on the allow list of the capability.\<close>

definition granted :: "'s capability_policy \<Rightarrow> request \<Rightarrow> bool" where
  "granted p q \<longleftrightarrow>
     rq_name q \<noteq> str ''network_clients'' \<and>
     (\<exists>peers rest. policy_config p (rq_name q) = Some (peers, rest) \<and> hm_get peers (rq_sender q) \<noteq> None)"

definition gate_ok :: "'s policy_libs \<Rightarrow> rstring option \<Rightarrow> 's service \<Rightarrow> bool" where
  "gate_ok L contents s \<longleftrightarrow>
     reaches (gate_start L) (gate_step L) (sv_gate s) \<and> same_config (g_policy (sv_gate s)) (load L contents) \<and>
     mset (map rq_name (sv_active s)) = mset (g_in_flight (sv_gate s)) \<and>
     list_all (granted (load L contents)) (sv_active s)"

definition task_recorded :: "approval_world \<Rightarrow> intent_id \<times> wg_peer_manage_capability \<Rightarrow> bool" where
  "task_recorded w t \<longleftrightarrow>
     (case t of (iid, cap) \<Rightarrow>
        wg_ok cap \<and>
        (\<exists>r. flow_record (aw_flow w) iid = Some r \<and> in_capability (lr_intent r) = str ''wg_peer_manage'' \<and>
             in_parameters (lr_intent r) = wg_params (wc_action cap) (wc_name cap) \<and>
             in_dry_run_diff (lr_intent r) = Some (wg_dry_run cap)))"

fun task_of :: "cause \<times> http_request \<Rightarrow> intent_id list" where
  "task_of (FromTask iid, _) = [iid]"
| "task_of (FromRequest _, _) = []"

definition task_ids :: "(cause \<times> http_request) list \<Rightarrow> intent_id list" where
  "task_ids log = concat (map task_of log)"

definition world_ok :: "node_env \<Rightarrow> 's policy_libs \<Rightarrow> rstring option \<Rightarrow> 's service \<Rightarrow> bool" where
  "world_ok V L contents s \<longleftrightarrow>
     reaches world_start (world_step L (ne_blake3 V) (load L contents)) (sv_world s) \<and>
     list_all (task_recorded (sv_world s)) (sv_tasks s) \<and>
     distinct (task_ids (sv_log s)) \<and> set (task_ids (sv_log s)) \<subseteq> fst ` set (aw_executed (sv_world s)) \<and>
     (\<forall>iid r. (FromTask iid, r) \<in> set (sv_log s) \<longrightarrow> (\<exists>cap. (iid, cap) \<in> set (sv_tasks s) \<and> wg_call cap = Some r))"

definition requests_ok :: "'s policy_libs \<Rightarrow> dispatch_context \<Rightarrow> rstring option \<Rightarrow> 's service \<Rightarrow> bool" where
  "requests_ok L C contents s \<longleftrightarrow>
     (\<forall>q r. (FromRequest q, r) \<in> set (sv_log s) \<longrightarrow>
        granted (load L contents) q \<and> safe_call L (load L contents) C (rq_name q) r)"

definition service_inv :: "node_env \<Rightarrow> 's policy_libs \<Rightarrow> dispatch_context \<Rightarrow> rstring option \<Rightarrow> 's service \<Rightarrow> bool" where
  "service_inv V L C contents s \<longleftrightarrow> gate_ok L contents s \<and> world_ok V L contents s \<and> requests_ok L C contents s"

lemma task_ids_append [simp]: "task_ids (xs @ ys) = task_ids xs @ task_ids ys"
  by (simp add: task_ids_def)

lemma task_ids_request [simp]: "task_ids (added (FromRequest q) s calls) = []"
  by (simp add: task_ids_def added_def)

lemma task_ids_requests [simp]: "task_ids (map (Pair (FromRequest q)) rs) = []"
  by (simp add: task_ids_def)

lemma added_new: "added c s (sv_calls s @ new) = map (Pair c) new"
  by (simp add: added_def sv_calls_def)

lemma gate_ok_policy:
  assumes "gate_ok L contents s" "gate_step L (sv_gate s) g'" "g_in_flight g' = g_in_flight (sv_gate s)"
    and "same_config (g_policy g') (g_policy (sv_gate s))" "sv_gate s' = g'" "sv_active s' = sv_active s"
  shows "gate_ok L contents s'"
  using assms reaches_step [of "gate_start L" "gate_step L" "sv_gate s" g'] by (simp add: gate_ok_def same_config_def)

lemma unknown_capability: "\<exists>c. hm_get (cp_entries p) c = None"
proof -
  have "\<exists>c :: rstring. c \<notin> hm_keys (cp_entries p)"
    by (rule ex_new_if_finite) (simp_all add: infinite_UNIV_listI)
  then show ?thesis by (auto simp: hm_get_None_iff)
qed

lemma gate_tick:
  assumes "g_clock g \<le> now"
  shows "gate_step L g (g\<lparr>g_policy := g_policy g, g_clock := now\<rparr>)"
proof -
  obtain c where "hm_get (cp_entries (g_policy g)) c = None" using unknown_capability by blast
  then have "check_and_acquire L 0 now c (NodeId []) (g_policy g) = (g_policy g, NotAuthorized)"
    by (simp add: check_and_acquire_def)
  from gate_refused [OF assms this] show ?thesis by simp
qed

lemma gate_ok_refuse:
  assumes "gate_ok L contents s" "g_clock (sv_gate s) \<le> now"
    and "dispatch_admit V L C now_secs now ih sender (g_policy (sv_gate s)) = (p', Err e)"
  shows "gate_ok L contents (s\<lparr>sv_gate := (sv_gate s)\<lparr>g_policy := p', g_clock := now\<rparr>\<rparr>)"
proof (rule gate_ok_policy [OF assms(1)])
  show "gate_step L (sv_gate s) ((sv_gate s)\<lparr>g_policy := p', g_clock := now\<rparr>)"
    using assms(3)
  proof (cases rule: admit_cases)
    case (refused e')
    then show ?thesis using gate_tick [OF assms(2)] by simp
  next
    case (checked name res)
    then show ?thesis using gate_refused [OF assms(2)] by simp
  qed
  from assms(3) show "same_config (g_policy ((sv_gate s)\<lparr>g_policy := p', g_clock := now\<rparr>)) (g_policy (sv_gate s))"
    by (cases rule: admit_cases) (auto simp: same_config_def dest: check_config)
qed simp_all

lemma gate_ok_admit:
  assumes ok: "gate_ok L contents s" and clock: "g_clock (sv_gate s) \<le> now"
    and admit: "dispatch_admit V L C now_secs now ih (rq_sender q) (g_policy (sv_gate s)) = (p', Ok (rq_name q))"
  shows "gate_ok L contents (s\<lparr>sv_active := q # sv_active s,
       sv_gate := (sv_gate s)\<lparr>g_policy := p', g_in_flight := rq_name q # g_in_flight (sv_gate s),
         g_granted := (rq_name q, rq_sender q, now) # g_granted (sv_gate s), g_clock := now\<rparr>\<rparr>)"
proof -
  have c: "rq_name q \<noteq> str ''network_clients''"
      "check_and_acquire L now_secs now (rq_name q) (rq_sender q) (g_policy (sv_gate s)) = (p', Allowed)"
    using admit by (cases rule: admit_cases; auto)+
  have cfg: "same_config (g_policy (sv_gate s)) (load L contents)" using ok by (simp add: gate_ok_def)
  obtain e where e: "hm_get (cp_entries (g_policy (sv_gate s))) (rq_name q) = Some e"
      "peer_currently_allowed now_secs (ce_allowed_peers e) (rq_sender q)"
    using check_Allowed [OF c(2)] by blast
  have "policy_config (load L contents) (rq_name q) = Some (ce_config e)"
    using cfg e(1) by (metis option.map(2) policy_config_def same_config_def)
  moreover have "hm_get (ce_allowed_peers e) (rq_sender q) \<noteq> None"
    using e(2) by (cases "hm_get (ce_allowed_peers e) (rq_sender q)") (simp_all add: peer_currently_allowed_def)
  ultimately have "granted (load L contents) q" using c(1) by (auto simp: granted_def ce_config_def)
  moreover have "same_config p' (load L contents)"
    using cfg check_config [OF c(2)] by (simp add: same_config_def)
  moreover have "reaches (gate_start L) (gate_step L) ((sv_gate s)\<lparr>g_policy := p', g_in_flight := rq_name q # g_in_flight (sv_gate s),
         g_granted := (rq_name q, rq_sender q, now) # g_granted (sv_gate s), g_clock := now\<rparr>)"
    using ok gate_allowed [OF clock c(2)] reaches_step unfolding gate_ok_def by metis
  ultimately show ?thesis using ok by (simp add: gate_ok_def)
qed

lemma mset_remove1: "q \<in> set qs \<Longrightarrow> mset (map f (remove1 q qs)) = mset (remove1 (f q) (map f qs))"
  using image_mset_Diff [of "{#q#}" "mset qs" f] by simp

lemma gate_ok_handle:
  assumes ok: "gate_ok L contents s" and q: "q \<in> set (sv_active s)"
    and s': "sv_active s' = remove1 q (sv_active s)"
      "sv_gate s' = (sv_gate s)\<lparr>g_policy := drop_permit L (rq_name q) (g_policy (sv_gate s)),
         g_in_flight := remove1 (rq_name q) (g_in_flight (sv_gate s))\<rparr>"
  shows "gate_ok L contents s'"
proof -
  have m: "mset (map rq_name (sv_active s)) = mset (g_in_flight (sv_gate s))" using ok by (simp add: gate_ok_def)
  then have "rq_name q \<in> set (g_in_flight (sv_gate s))" using q mset_eq_setD by fastforce
  then have "gate_step L (sv_gate s) (sv_gate s')" unfolding s'(2) by (rule gate_drop)
  then have "reaches (gate_start L) (gate_step L) (sv_gate s')"
    using ok reaches_step unfolding gate_ok_def by metis
  moreover have "mset (map rq_name (sv_active s')) = mset (g_in_flight (sv_gate s'))"
    using mset_remove1 [OF q, of rq_name] m by (simp add: s')
  moreover have "list_all (granted (load L contents)) (sv_active s')"
    using ok set_remove1_subset [of q "sv_active s"] by (auto simp: gate_ok_def list_all_iff s'(1))
  ultimately show ?thesis
    using ok by (simp add: gate_ok_def s'(2) same_config_def drop_config drop_protected)
qed

lemma task_recorded_step:
  assumes "task_recorded w t" "world_step L blake3 p w w'"
  shows "task_recorded w' t"
proof -
  obtain iid cap where t: "t = (iid, cap)" by (cases t)
  then obtain r where r: "flow_record (aw_flow w) iid = Some r" "wg_ok cap"
      "in_capability (lr_intent r) = str ''wg_peer_manage''"
      "in_parameters (lr_intent r) = wg_params (wc_action cap) (wc_name cap)"
      "in_dry_run_diff (lr_intent r) = Some (wg_dry_run cap)"
    using assms(1) by (auto simp: task_recorded_def)
  obtain r' where "flow_record (aw_flow w') iid = Some r'" "lr_intent r' = lr_intent r"
    using world_keeps_intent [OF assms(2) r(1)] by blast
  then show ?thesis using r by (simp add: task_recorded_def t)
qed

lemma world_ok_step:
  assumes ok: "world_ok V L contents s"
    and step: "world_step L (ne_blake3 V) (load L contents) (sv_world s) (sv_world s')"
    and tasks: "sv_tasks s' = sv_tasks s @ ts" "list_all (task_recorded (sv_world s')) ts"
    and log: "sv_log s' = sv_log s @ new" "distinct (task_ids new)" "set (task_ids new) \<inter> set (task_ids (sv_log s)) = {}"
      "set (task_ids new) \<subseteq> fst ` set (aw_executed (sv_world s'))"
    and calls: "\<And>iid r. (FromTask iid, r) \<in> set new \<Longrightarrow> \<exists>cap. (iid, cap) \<in> set (sv_tasks s) \<and> wg_call cap = Some r"
  shows "world_ok V L contents s'"
proof -
  have old: "reaches world_start (world_step L (ne_blake3 V) (load L contents)) (sv_world s)"
      "list_all (task_recorded (sv_world s)) (sv_tasks s)" "distinct (task_ids (sv_log s))"
      "set (task_ids (sv_log s)) \<subseteq> fst ` set (aw_executed (sv_world s))"
      "\<And>iid r. (FromTask iid, r) \<in> set (sv_log s) \<Longrightarrow> \<exists>cap. (iid, cap) \<in> set (sv_tasks s) \<and> wg_call cap = Some r"
    using ok unfolding world_ok_def by blast+
  have "set (task_ids (sv_log s)) \<subseteq> fst ` set (aw_executed (sv_world s'))"
    using old(4) world_keeps_executed [OF step] by blast
  moreover have "list_all (task_recorded (sv_world s')) (sv_tasks s)"
    using old(2) task_recorded_step [OF _ step] by (simp add: list_all_iff)
  moreover have "\<exists>cap. (iid, cap) \<in> set (sv_tasks s @ ts) \<and> wg_call cap = Some r"
    if "(FromTask iid, r) \<in> set (sv_log s @ new)" for iid r
    using that old(5) [of iid r] calls [of iid r] by auto
  ultimately show ?thesis
    unfolding world_ok_def tasks(1) log(1)
    using reaches_step [OF old(1) step] old(3) tasks(2) log(2,3,4) by auto
qed

lemma world_ok_same:
  assumes "world_ok V L contents s" "sv_world s' = sv_world s" "sv_tasks s' = sv_tasks s"
    and "sv_log s' = sv_log s @ map (Pair (FromRequest q)) new"
  shows "world_ok V L contents s'"
  using assms by (auto simp: world_ok_def)

lemma world_ok_quiet:
  assumes "world_ok V L contents s" "world_step L (ne_blake3 V) (load L contents) (sv_world s) w'"
  shows "world_ok V L contents (s\<lparr>sv_world := w'\<rparr>)"
  by (rule world_ok_step [OF assms(1), of _ "[]" "[]"]) (use assms(2) in \<open>simp_all add: task_ids_def\<close>)

lemma proposed_recorded:
  assumes "propose L blake3 p new_id now sender (wg_tier2 V cap calls) (wg_params (wc_action cap) (wc_name cap)) fl = (fl', Ok iid)"
    and "wg_ok cap" "aw_flow w = fl'"
  shows "task_recorded w (iid, cap)"
  using assms(1) unfolding propose_def
proof (cases rule: propose_cases)
  case (registered i)
  then show ?thesis
    using assms(2,3) by (simp add: task_recorded_def intent_propose_def wg_tier2_def)
qed simp

lemma world_ok_handle:
  assumes ok: "world_ok V L contents s" and cfg: "same_config (g_policy (sv_gate s)) (load L contents)"
    and fresh: "new_id \<notin> hm_keys (fl_records (aw_flow (sv_world s)))" and name: "rq_name q \<noteq> str ''network_clients''"
    and run: "dispatch_handle V L C (g_policy (sv_gate s)) new_id now (rq_head q) (rq_payload q) (rq_sender q) (rq_name q)
      (sv_io s) = (reply, io)"
    and s': "sv_world s' = (sv_world s)\<lparr>aw_flow := io_flow io\<rparr>" "sv_tasks s' = io_tasks io"
      "sv_log s' = sv_log s @ added (FromRequest q) s (io_calls io)"
  shows "world_ok V L contents s' \<and>
    (\<exists>new. sv_log s' = sv_log s @ map (Pair (FromRequest q)) new \<and> (\<forall>r \<in> set new. safe_call L (load L contents) C (rq_name q) r))"
  using run name
proof (cases rule: handle_effect)
  case (quiet new)
  have log: "sv_log s' = sv_log s @ map (Pair (FromRequest q)) new"
    using s'(3) quiet(1) added_new by (simp add: sv_io_def)
  have "sv_world s' = sv_world s" "sv_tasks s' = sv_tasks s" using s'(1,2) quiet(3,4) by (simp_all add: sv_io_def)
  then show ?thesis
    using world_ok_same [OF ok _ _ log] log quiet(2) by (auto simp: safe_call_config [OF cfg])
next
  case (proposed new cap out)
  have log: "sv_log s' = sv_log s @ map (Pair (FromRequest q)) new"
    using s'(3) proposed(2) added_new by (simp add: sv_io_def)
  have step: "world_step L (ne_blake3 V) (load L contents) (sv_world s) (sv_world s')"
    unfolding s'(1)
    by (rule world_propose [OF fresh, where out = out])
      (use proposed(5) in \<open>simp add: propose_def propose_config [OF cfg] sv_io_def\<close>)
  have rec: "task_recorded (sv_world s') (iid, cap)" if "out = Ok iid" for iid
    by (rule proposed_recorded) (use proposed(4,5) that s'(1) in simp_all)
  have "world_ok V L contents s'"
    by (rule world_ok_step [OF ok step, of "case out of Ok iid \<Rightarrow> [(iid, cap)] | _ \<Rightarrow> []" "map (Pair (FromRequest q)) new"])
      (use s'(2) proposed(6) log rec in \<open>cases out; auto simp: sv_io_def\<close>)+
  then show ?thesis using log proposed(3) by (auto simp: safe_call_config [OF cfg])
qed

lemma finish_fresh:
  assumes ok: "world_ok V L contents s" and w: "iid \<in> set (aw_waiting (sv_world s))"
  shows "iid \<notin> set (task_ids (sv_log s))"
proof
  assume "iid \<in> set (task_ids (sv_log s))"
  then have "iid \<in> fst ` set (aw_executed (sv_world s))" using ok by (auto simp: world_ok_def)
  moreover have inv: "world_inv L (ne_blake3 V) (load L contents) (sv_world s)"
    using ok appr.inv_reaches by (auto simp: world_ok_def)
  ultimately obtain r where "flow_record (aw_flow (sv_world s)) iid = Some r" "executed_status (lr_status r)"
    using executed_inv_record [of "sv_world s"] by (fastforce simp: world_inv_def)
  moreover have "\<exists>r. flow_record (aw_flow (sv_world s)) iid = Some r \<and> lr_status r = IsInProgress"
    using inv waiting_status [OF _ w] by (simp add: world_inv_def)
  ultimately show False by (auto simp: executed_status_def)
qed

lemma world_ok_finish:
  assumes ok: "world_ok V L contents s" and task: "(iid, cap) \<in> set (sv_tasks s)"
    and w: "iid \<in> set (aw_waiting (sv_world s))" "ad_intent_id decision = iid"
    and fin: "decide_finish (ne_blake3 V) now exec_now iid (wg_tier2 V cap (sv_calls s)) decision (aw_flow (sv_world s)) = (fl', out, ex)"
    and s': "sv_world s' = (sv_world s)\<lparr>aw_flow := fl',
         aw_waiting := remove1 iid (aw_waiting (sv_world s)), aw_decisions := decision # aw_decisions (sv_world s),
         aw_executed := executed_entry iid now ex @ aw_executed (sv_world s)\<rparr>"
      "sv_log s' = sv_log s @ (if ex = None then [] else added (FromTask iid) s (snd (wg_perform V cap (sv_calls s))))"
      "sv_tasks s' = sv_tasks s"
  shows "world_ok V L contents s' \<and> (\<exists>rs. sv_log s' = sv_log s @ map (Pair (FromTask iid)) rs)"
proof -
  have step: "world_step L (ne_blake3 V) (load L contents) (sv_world s) (sv_world s')"
    unfolding s'(1) by (rule world_finish [OF w fin])
  obtain rs where rs: "snd (wg_perform V cap (sv_calls s)) = sv_calls s @ rs" "length rs \<le> 1" "set rs \<subseteq> set_option (wg_call cap)"
    using asks_perform [of V cap] unfolding asks_def by blast
  define new where "new = (if ex = None then [] else rs)"
  have log: "sv_log s' = sv_log s @ map (Pair (FromTask iid)) new"
    by (simp add: s'(2) rs(1) added_new new_def)
  have "length new \<le> 1" using rs(2) by (simp add: new_def)
  then have one: "new = [] \<or> (\<exists>r. new = [r])" by (cases new) auto
  have ids: "set (task_ids (map (Pair (FromTask iid)) new)) \<subseteq> {iid}" "distinct (task_ids (map (Pair (FromTask iid)) new))"
    using one by (auto simp: task_ids_def)
  have "set (task_ids (map (Pair (FromTask iid)) new)) \<subseteq> fst ` set (aw_executed (sv_world s'))"
  proof (cases ex)
    case None
    then show ?thesis by (simp add: new_def task_ids_def)
  next
    case (Some ps)
    then have "iid \<in> fst ` set (aw_executed (sv_world s'))" by (simp add: s'(1) executed_entry_def)
    then show ?thesis using ids(1) by blast
  qed
  moreover have "wg_call cap = Some r" if "r \<in> set new" for r
    using that rs(3) by (auto simp: new_def split: if_splits)
  ultimately have "world_ok V L contents s'"
    using finish_fresh [OF ok w(1)] ids task
    by (intro world_ok_step [OF ok step, of "[]" "map (Pair (FromTask iid)) new"]) (auto simp: s'(3) log)
  then show ?thesis using log by blast
qed

lemma requests_ok_log:
  assumes "requests_ok L C contents s" "sv_log s' = sv_log s @ new"
    and "\<And>q r. (FromRequest q, r) \<in> set new \<Longrightarrow> granted (load L contents) q \<and> safe_call L (load L contents) C (rq_name q) r"
  shows "requests_ok L C contents s'"
  using assms by (auto simp: requests_ok_def)

lemma gate_ok_same: "gate_ok L contents s \<Longrightarrow> sv_gate s' = sv_gate s \<Longrightarrow> sv_active s' = sv_active s \<Longrightarrow> gate_ok L contents s'"
  by (simp add: gate_ok_def)

lemma gate_ok_switch:
  assumes "gate_ok L contents s" "switched (g_policy (sv_gate s)) p'"
  shows "gate_ok L contents (s\<lparr>sv_gate := (sv_gate s)\<lparr>g_policy := p'\<rparr>\<rparr>)"
proof (rule gate_ok_policy [OF assms(1)])
  show "gate_step L (sv_gate s) ((sv_gate s)\<lparr>g_policy := p'\<rparr>)"
    using assms(2) gate_freeze gate_unfreeze gate_suspend gate_unsuspend unfolding switched_def by metis
qed (use switched_config [OF assms(2)] in \<open>simp_all add: same_config_def\<close>)

lemma service_inv_start: "service_start L contents s \<Longrightarrow> service_inv V L C contents s"
proof -
  assume "service_start L contents s"
  then obtain now where s: "s = \<lparr>sv_gate = \<lparr>g_policy = load L contents, g_in_flight = [], g_granted = [], g_clock = now\<rparr>,
      sv_world = \<lparr>aw_flow = flow_new, aw_waiting = [], aw_shown = [], aw_decisions = [], aw_executed = []\<rparr>,
      sv_active = [], sv_tasks = [], sv_log = []\<rparr>"
    by (auto simp: service_start_def)
  have "reaches (gate_start L) (gate_step L) (sv_gate s)"
    by (rule reaches_start) (auto simp: gate_start_def s)
  moreover have "reaches world_start (world_step L (ne_blake3 V) (load L contents)) (sv_world s)"
    by (rule reaches_start) (auto simp: world_start_def s flow_new_def)
  ultimately show ?thesis
    by (simp add: service_inv_def gate_ok_def world_ok_def requests_ok_def s same_config_refl task_ids_def)
qed

lemma service_inv_handle:
  assumes inv: "service_inv V L C contents s" and q: "q \<in> set (sv_active s)"
    and fresh: "new_id \<notin> hm_keys (fl_records (aw_flow (sv_world s)))"
    and run: "dispatch_handle V L C (g_policy (sv_gate s)) new_id now (rq_head q) (rq_payload q) (rq_sender q) (rq_name q)
      (sv_io s) = (reply, io)"
  shows "service_inv V L C contents (s\<lparr>sv_active := remove1 q (sv_active s),
       sv_gate := (sv_gate s)\<lparr>g_policy := drop_permit L (rq_name q) (g_policy (sv_gate s)),
         g_in_flight := remove1 (rq_name q) (g_in_flight (sv_gate s))\<rparr>,
       sv_world := (sv_world s)\<lparr>aw_flow := io_flow io\<rparr>, sv_tasks := io_tasks io,
       sv_log := sv_log s @ added (FromRequest q) s (io_calls io)\<rparr>)" (is "service_inv V L C contents ?s")
proof -
  have g: "gate_ok L contents s" "world_ok V L contents s" "requests_ok L C contents s"
    using inv by (simp_all add: service_inv_def)
  have cfg: "same_config (g_policy (sv_gate s)) (load L contents)" and gr: "granted (load L contents) q"
    using g(1) q by (simp_all add: gate_ok_def list_all_iff)
  have name: "rq_name q \<noteq> str ''network_clients''" using gr by (simp add: granted_def)
  have "gate_ok L contents ?s" by (rule gate_ok_handle [OF g(1) q]) simp_all
  moreover obtain new where new: "world_ok V L contents ?s" "sv_log ?s = sv_log s @ map (Pair (FromRequest q)) new"
      "\<forall>r \<in> set new. safe_call L (load L contents) C (rq_name q) r"
    using world_ok_handle [OF g(2) cfg fresh name run, of ?s] by auto
  moreover have "requests_ok L C contents ?s"
    by (rule requests_ok_log [OF g(3) new(2)]) (use new(3) gr in auto)
  ultimately show ?thesis by (simp add: service_inv_def)
qed

lemma service_inv_world:
  assumes "service_inv V L C contents s" "world_step L (ne_blake3 V) (load L contents) (sv_world s) w'"
  shows "service_inv V L C contents (s\<lparr>sv_world := w'\<rparr>)"
  using assms world_ok_quiet [of V L contents s w'] by (simp add: service_inv_def gate_ok_def requests_ok_def)

lemma service_inv_gate:
  assumes "service_inv V L C contents s" "gate_ok L contents (s\<lparr>sv_active := qs, sv_gate := g\<rparr>)"
  shows "service_inv V L C contents (s\<lparr>sv_active := qs, sv_gate := g\<rparr>)"
  using assms by (simp add: service_inv_def world_ok_def requests_ok_def)

lemma service_inv_step:
  assumes inv: "service_inv V L C contents s" and step: "service_step V L C s s'"
  shows "service_inv V L C contents s'"
  using step
proof (cases rule: service_step.cases)
  case (sv_admit now now_secs q p')
  then show ?thesis
    using service_inv_gate [OF inv] gate_ok_admit [of L contents s now V C] inv by (simp add: service_inv_def)
next
  case (sv_refuse now now_secs ih sender p' e)
  then show ?thesis
    using service_inv_gate [OF inv, where qs = "sv_active s"] gate_ok_refuse [of L contents s now V C] inv
    by (simp add: service_inv_def)
next
  case (sv_handle q new_id now reply io)
  then show ?thesis using service_inv_handle [OF inv] by blast
next
  case (sv_claim iid cap now fl' req)
  then show ?thesis using service_inv_world [OF inv] world_claim by blast
next
  case (sv_return iid cap now fl' out)
  then show ?thesis using service_inv_world [OF inv] world_return by blast
next
  case (sv_channel_error iid)
  then show ?thesis using service_inv_world [OF inv] world_channel_error by blast
next
  case (sv_finish iid cap decision now exec_now fl' out ex)
  have g: "gate_ok L contents s" "world_ok V L contents s" "requests_ok L C contents s"
    using inv by (simp_all add: service_inv_def)
  obtain rs where "world_ok V L contents s'" and log: "sv_log s' = sv_log s @ map (Pair (FromTask iid)) rs"
    using world_ok_finish [OF g(2) sv_finish(2-5), of s'] by (auto simp: sv_finish(1))
  moreover have "gate_ok L contents s'" by (rule gate_ok_same [OF g(1)]) (simp_all add: sv_finish(1))
  moreover have "requests_ok L C contents s'" by (rule requests_ok_log [OF g(3) log]) auto
  ultimately show ?thesis by (simp add: service_inv_def)
next
  case (sv_switch p')
  then show ?thesis
    using service_inv_gate [OF inv, where qs = "sv_active s"] gate_ok_switch [of L contents s p'] inv by (simp add: service_inv_def)
qed

interpretation serv: state_machine "service_start L contents" "service_step V L C" "service_inv V L C contents"
  for V :: node_env and L :: "'s policy_libs" and C contents
  by unfold_locales (blast intro: service_inv_start service_inv_step)+

section \<open>A run\<close>

text \<open>
  One peer asks to delete the WireGuard peer \<open>guest\<close>: the request is admitted, the peer is looked up at the
  broker, the change is proposed, shown, approved and made.
\<close>

definition run_entry :: raw_capability_entry where
  "run_entry = example_entry\<lparr>rce_tier := Some (str ''tier2'')\<rparr>"

definition run_libs :: "nat policy_libs" where
  "run_libs = counter_libs (Some (example_file\<lparr>rpf_capability := [(str ''wg_peer_manage'', run_entry)]\<rparr>))"

definition run_uai :: uai_config where
  "run_uai = \<lparr>uai_base_url = str ''http://uai'', uai_token = str ''secret''\<rparr>"

definition run_reply :: json where
  "run_reply = JObject [(str ''ok'', JBool True),
     (str ''clients'', JArray [JObject [(str ''name'', JString (str ''guest'')), (str ''id'', JString (str ''c7''))]])]"

definition run_env :: node_env where
  "run_env =
     \<lparr>ne_ed = plain_ed, ne_blake3 = (\<lambda>b. b), ne_hex = hex_encode, ne_client_error = (\<lambda>_. None),
      ne_post = (\<lambda>_ _. Reply run_reply), ne_json = (\<lambda>_. []), ne_hostname = None, ne_uptime = None,
      ne_parse_secs = (\<lambda>_. None),
      ne_fmt = \<lparr>fmt_debug_str = (\<lambda>s. s), fmt_debug_strs = (\<lambda>_. []), fmt_f64 = (\<lambda>_. [])\<rparr>\<rparr>"

definition run_context :: dispatch_context where
  "run_context =
     \<lparr>dc_identity = Keypair (replicate 32 7), dc_local_capabilities = [str ''echo'', str ''wg_peer_manage''],
      dc_uai_config = Some run_uai, dc_notify_topic = None, dc_tier2 = True\<rparr>"

definition run_request :: request where
  "run_request =
     \<lparr>rq_name = str ''wg_peer_manage'', rq_sender = example_peer,
      rq_head = \<lparr>rt_intent_hash = IntentHash (as_bytes (str ''wg_peer_manage'')), rt_trace_id = TraceId (replicate 8 1),
                 rt_routing = None\<rparr>,
      rq_payload = as_bytes (str ''delete:guest'')\<rparr>"

definition run_policy :: "nat \<Rightarrow> (rstring \<times> node_id, nat) hmap \<Rightarrow> nat capability_policy" where
  "run_policy sem used =
     \<lparr>cp_entries = [(str ''wg_peer_manage'',
         \<lparr>ce_allowed_peers = [(example_peer, Some 2000)], ce_rate_limit = 5000000000,
          ce_semaphore = sem, ce_concurrency = 1, ce_tier = Tier2, ce_denied = []\<rparr>)],
      cp_rate_limit_state = used, cp_protected_resources = Some [], cp_frozen = False, cp_suspended = []\<rparr>"

lemma run_load: "load run_libs (Some []) = run_policy 1 []"
  by (simp add: load_def try_load_def run_libs_def counter_libs_def example_file_def run_entry_def run_policy_def
      POLICY_SCHEMA_VERSION_def load_entries_def load_entry_def example_entry_def
      tier_from_toml_str_def str_def load_peers_def load_protected_def hm_insert_def
      nanos_per_sec_def example_peer_def)

lemma run_admitted:
  "dispatch_admit run_env run_libs run_context 1000 7 (rt_intent_hash (rq_head run_request)) example_peer (run_policy 1 [])
     = (run_policy 0 [((str ''wg_peer_manage'', example_peer), 7)], Ok (str ''wg_peer_manage''))"
  by (simp add: dispatch_admit_def find_capability_def run_context_def run_request_def run_env_def ai_intent_from_str_def
      as_bytes_def str_def utf8_char_def check_and_acquire_def run_policy_def hm_get_def hm_insert_def
      peer_currently_allowed_def run_libs_def counter_libs_def)

definition run_cap :: wg_peer_manage_capability where
  "run_cap = \<lparr>wc_uai = run_uai, wc_action = WgDelete, wc_name = str ''guest'', wc_resolved_id = Some (str ''c7''),
     wc_prior_enabled = True\<rparr>"

definition run_lookup :: http_request where
  "run_lookup = uai_request run_uai (str ''wg_clients'') (JObject [])"

definition run_change :: http_request where
  "run_change = uai_request run_uai (str ''wg_delete_client'') (JObject [(str ''client_id'', JString (str ''c7''))])"

definition run_params :: "constraint list" where
  "run_params = wg_params WgDelete (str ''guest'')"

definition run_intent :: intent where
  "run_intent = intent_propose (\<lambda>b. b) (IntentId [7]) 8 example_peer (str ''wg_peer_manage'') run_params
     (Some (wg_dry_run run_cap)) DEFAULT_EXPIRY"

definition run_record :: linked_record where
  "run_record = \<lparr>lr_intent = run_intent, lr_decision = None, lr_execution = None, lr_status = IsPending\<rparr>"

lemma run_parsed:
  "parse_wg_peer_manage_target (rq_payload run_request) = Ok \<lparr>wt_action = WgDelete, wt_name = str ''guest''\<rparr>"
proof -
  have "from_utf8_lossy (rq_payload run_request) = str ''delete:guest''"
    unfolding run_request_def request.simps by (rule from_utf8_lossy_as_bytes) (simp add: str_def is_scalar_def)
  then show ?thesis
    by (simp add: parse_wg_peer_manage_target_def str_def trim_def is_whitespace_def to_ascii_lowercase_def ascii_lower_def
        parse_wg_action_def check_wg_name_def as_bytes_def utf8_char_def MAX_WG_PEER_NAME_LEN_def name_chars_ok_def
        is_ascii_alphanumeric_def wg_hard_denied_def HARD_DENIED_WG_PEER_TARGETS_def eq_ignore_ascii_case_def)
qed

lemma run_open:
  "check_denied_param_substrings L (run_policy sem used) (str ''wg_peer_manage'') ps = None"
  "find_protected_match (run_policy sem used) ps = None" "protected_resources_configured (run_policy sem used)"
  by (simp_all add: check_denied_param_substrings_def run_policy_def hm_get_def find_protected_match_def
      protected_resources_def protected_resources_configured_def)

lemma run_resolved:
  "wg_resolve run_env run_uai \<lparr>wt_action = WgDelete, wt_name = str ''guest''\<rparr> [] = (Ok (Some (str ''c7''), True), [run_lookup])"
  by (simp add: wg_resolve_def resolve_wg_peer_by_name_def uai_tool_def uai_bind_def http_client_def uai_dispatch_def run_env_def
      run_reply_def get_bool_def get_str_def find_wg_peer_def uai_return_def unwrap_or_def run_lookup_def str_eq_iff)

lemma run_handled:
  "snd (dispatch_handle run_env run_libs run_context (run_policy 0 used) (IntentId [7]) 8 (rq_head run_request)
      (rq_payload run_request) example_peer (str ''wg_peer_manage'') \<lparr>io_calls = [], io_flow = flow_new, io_tasks = []\<rparr>)
   = \<lparr>io_calls = [run_lookup], io_flow = put_record (IntentId [7]) run_record flow_new, io_tasks = [(IntentId [7], run_cap)]\<rparr>"
  by (simp add: dispatch_handle_def dispatch_wg_peer_manage_def run_parsed run_open run_context_def run_resolved propose_def
      propose_with_expiry_def wg_tier2_def put_record_def run_record_def run_intent_def run_params_def run_cap_def intent_propose_def
      Let_def flow_new_def flow_with_expiry_def) (simp add: run_env_def)

definition run_0 :: "nat service" where
  "run_0 =
     \<lparr>sv_gate = \<lparr>g_policy = run_policy 1 [], g_in_flight = [], g_granted = [], g_clock = 0\<rparr>,
      sv_world = \<lparr>aw_flow = flow_new, aw_waiting = [], aw_shown = [], aw_decisions = [], aw_executed = []\<rparr>,
      sv_active = [], sv_tasks = [], sv_log = []\<rparr>"

definition run_1 :: "nat service" where
  "run_1 = run_0\<lparr>sv_active := [run_request],
     sv_gate := \<lparr>g_policy = run_policy 0 [((str ''wg_peer_manage'', example_peer), 7)], g_in_flight = [str ''wg_peer_manage''],
       g_granted = [(str ''wg_peer_manage'', example_peer, 7)], g_clock = 7\<rparr>\<rparr>"

definition run_2 :: "nat service" where
  "run_2 = run_1\<lparr>sv_active := [],
     sv_gate := (sv_gate run_1)\<lparr>g_policy := drop_permit run_libs (str ''wg_peer_manage'') (g_policy (sv_gate run_1)), g_in_flight := []\<rparr>,
     sv_world := (sv_world run_0)\<lparr>aw_flow := put_record (IntentId [7]) run_record flow_new\<rparr>,
     sv_tasks := [(IntentId [7], run_cap)], sv_log := [(FromRequest run_request, run_lookup)]\<rparr>"

definition run_3 :: "nat service" where
  "run_3 = run_2\<lparr>sv_world := (sv_world run_2)\<lparr>
     aw_flow := put_record (IntentId [7]) (run_record\<lparr>lr_status := IsInProgress\<rparr>) (aw_flow (sv_world run_2)),
     aw_waiting := [IntentId [7]], aw_shown := [as_approval_request 9 run_intent]\<rparr>\<rparr>"

definition run_4 :: "nat service" where
  "run_4 = run_3\<lparr>
     sv_world := (sv_world run_3)\<lparr>
       aw_flow := fst (decide_finish (\<lambda>b. b) 10 10 (IntentId [7]) (wg_tier2 run_env run_cap [run_lookup]) (example_decision True)
         (aw_flow (sv_world run_3))),
       aw_waiting := [], aw_decisions := [example_decision True], aw_executed := [(IntentId [7], run_params, 10)]\<rparr>,
     sv_log := [(FromRequest run_request, run_lookup), (FromTask (IntentId [7]), run_change)]\<rparr>"

abbreviation run_reaches where
  "run_reaches \<equiv> reaches (service_start run_libs (Some [])) (service_step run_env run_libs run_context)"

lemma run_1_reached: "run_reaches run_1"
proof (rule reaches_step)
  show "run_reaches run_0" by (rule reaches_start) (simp add: service_start_def run_0_def run_load)
  have "dispatch_admit run_env run_libs run_context 1000 7 (rt_intent_hash (rq_head run_request)) (rq_sender run_request)
      (g_policy (sv_gate run_0)) = (run_policy 0 [((str ''wg_peer_manage'', example_peer), 7)], Ok (rq_name run_request))"
    using run_admitted by (simp add: run_0_def) (simp add: run_request_def)
  from sv_admit [OF _ this] show "service_step run_env run_libs run_context run_0 run_1"
    by (simp add: run_0_def run_1_def) (simp add: run_request_def)
qed

lemma run_2_reached: "run_reaches run_2"
proof (rule reaches_step [OF run_1_reached])
  have io: "sv_io run_1 = \<lparr>io_calls = [], io_flow = flow_new, io_tasks = []\<rparr>"
    by (simp add: sv_io_def run_1_def run_0_def sv_calls_def)
  obtain reply where h: "dispatch_handle run_env run_libs run_context (g_policy (sv_gate run_1)) (IntentId [7]) 8 (rq_head run_request)
      (rq_payload run_request) (rq_sender run_request) (rq_name run_request) (sv_io run_1)
      = (reply, \<lparr>io_calls = [run_lookup], io_flow = put_record (IntentId [7]) run_record flow_new, io_tasks = [(IntentId [7], run_cap)]\<rparr>)"
  proof -
    have "g_policy (sv_gate run_1) = run_policy 0 [((str ''wg_peer_manage'', example_peer), 7)]" "rq_sender run_request = example_peer"
        "rq_name run_request = str ''wg_peer_manage''"
      by (simp_all add: run_1_def run_request_def)
    then show thesis using that run_handled [of "[((str ''wg_peer_manage'', example_peer), 7)]"] io by (metis prod.collapse)
  qed
  have "service_step run_env run_libs run_context run_1 (run_1\<lparr>sv_active := remove1 run_request (sv_active run_1),
       sv_gate := (sv_gate run_1)\<lparr>g_policy := drop_permit run_libs (rq_name run_request) (g_policy (sv_gate run_1)),
         g_in_flight := remove1 (rq_name run_request) (g_in_flight (sv_gate run_1))\<rparr>,
       sv_world := (sv_world run_1)\<lparr>aw_flow := put_record (IntentId [7]) run_record flow_new\<rparr>, sv_tasks := [(IntentId [7], run_cap)],
       sv_log := sv_log run_1 @ added (FromRequest run_request) run_1 [run_lookup]\<rparr>)"
    using sv_handle [OF _ _ h] by (simp add: run_1_def run_0_def flow_new_def flow_with_expiry_def)
  then show "service_step run_env run_libs run_context run_1 run_2"
    by (simp add: run_2_def) (simp add: run_1_def run_0_def added_def run_request_def)
qed

lemma run_3_reached: "run_reaches run_3"
proof (rule reaches_step [OF run_2_reached])
  have "decide_claim (ne_blake3 run_env) 9 (IntentId [7]) (aw_flow (sv_world run_2)) =
      (put_record (IntentId [7]) (run_record\<lparr>lr_status := IsInProgress\<rparr>) (aw_flow (sv_world run_2)),
       Claimed (as_approval_request 9 run_intent))"
    by (simp add: decide_claim_def run_2_def put_record_def run_record_def is_expired_def run_env_def run_intent_def
        intent_propose_def verify_parameter_hash_def DEFAULT_EXPIRY_def nanos_per_sec_def)
  from sv_claim [OF _ this, of run_cap] show "service_step run_env run_libs run_context run_2 run_3"
    by (simp add: run_3_def) (simp add: run_2_def run_1_def run_0_def)
qed

lemma run_4_reached: "run_reaches run_4"
proof (rule reaches_step [OF run_3_reached])
  have calls: "sv_calls run_3 = [run_lookup]" by (simp add: run_3_def run_2_def sv_calls_def)
  have env: "ne_blake3 run_env = (\<lambda>b. b)" by (simp add: run_env_def)
  obtain fl out where f: "decide_finish (ne_blake3 run_env) 10 10 (IntentId [7]) (wg_tier2 run_env run_cap (sv_calls run_3))
      (example_decision True) (aw_flow (sv_world run_3)) = (fl, out, Some run_params)"
    by (simp add: decide_finish_def run_3_def run_2_def put_record_def run_record_def example_decision_def is_expired_def Let_def
        run_intent_def intent_propose_def verify_parameter_hash_def env DEFAULT_EXPIRY_def nanos_per_sec_def)
  have p: "snd (wg_perform run_env run_cap (sv_calls run_3)) = [run_lookup, run_change]"
    by (simp add: calls wg_perform_def wg_change_def run_cap_def uai_bind_def http_client_def uai_dispatch_def run_env_def
        run_reply_def get_bool_def uai_return_def run_change_def str_eq_iff)
  have "service_step run_env run_libs run_context run_3 (run_3\<lparr>sv_world := (sv_world run_3)\<lparr>aw_flow := fl,
         aw_waiting := remove1 (IntentId [7]) (aw_waiting (sv_world run_3)),
         aw_decisions := example_decision True # aw_decisions (sv_world run_3),
         aw_executed := executed_entry (IntentId [7]) 10 (Some run_params) @ aw_executed (sv_world run_3)\<rparr>,
       sv_log := sv_log run_3 @ added (FromTask (IntentId [7])) run_3 [run_lookup, run_change]\<rparr>)"
    using sv_finish [OF _ _ _ f, of run_libs run_context] unfolding p
    by (simp add: run_3_def run_2_def example_decision_def)
  moreover have "fl = fst (decide_finish (\<lambda>b. b) 10 10 (IntentId [7]) (wg_tier2 run_env run_cap [run_lookup]) (example_decision True)
         (aw_flow (sv_world run_3)))"
    using f by (simp add: env calls)
  ultimately show "service_step run_env run_libs run_context run_3 run_4"
    by (simp add: run_4_def executed_entry_def) (simp add: run_3_def run_2_def run_1_def run_0_def added_def)
qed

section \<open>Properties\<close>



text \<open>
  C8: a WireGuard change is made only with a human's consent. Every request by which a background task changes a peer is the
  one that belongs to a proposed change; a human was shown that change with its action, peer name and preview, approved that
  very intent, and the intent makes no second request. Deleting or disabling a peer is never done to one that the code protects.
\<close>

theorem peer_change_approved:
  assumes "reaches (service_start L contents) (service_step V L C) s" "(FromTask iid, r) \<in> set (sv_log s)"
  shows "\<exists>cap q d. (iid, cap) \<in> set (sv_tasks s) \<and> wg_call cap = Some r \<and>
     q \<in> set (aw_shown (sv_world s)) \<and> ar_intent_id q = iid \<and> ar_parameters q = wg_params (wc_action cap) (wc_name cap) \<and>
     ar_dry_run_diff q = Some (wg_dry_run cap) \<and>
     d \<in> set (aw_decisions (sv_world s)) \<and> ad_intent_id d = iid \<and> ad_approved d \<and>
     \<not> (reduces_access (wc_action cap) \<and> wg_hard_denied (wc_name cap)) \<and> distinct (task_ids (sv_log s))"
proof -
  have inv: "world_ok V L contents s" using serv.inv_reaches [OF assms(1)] by (auto simp: service_inv_def)
  then obtain cap where cap: "(iid, cap) \<in> set (sv_tasks s)" "wg_call cap = Some r" using assms(2) unfolding world_ok_def by blast
  then have t: "task_recorded (sv_world s) (iid, cap)" using inv by (auto simp: world_ok_def list_all_iff)
  have "iid \<in> set (task_ids (sv_log s))" using assms(2) by (force simp: task_ids_def)
  then obtain ps t where "(iid, ps, t) \<in> set (aw_executed (sv_world s))" using inv unfolding world_ok_def by fastforce
  moreover have "executed_inv (sv_world s)" using inv appr.inv_reaches by (auto simp: world_ok_def world_inv_def)
  ultimately have "execution_justified (sv_world s) (iid, ps, t)" by (simp add: executed_inv_def)
  then obtain r' where r': "flow_record (aw_flow (sv_world s)) iid = Some r'" "was_shown (sv_world s) (lr_intent r')"
      "was_approved (sv_world s) iid"
    by (auto simp: execution_justified_def)
  have "in_id (lr_intent r') = iid"
    using inv appr.inv_reaches r'(1) by (fastforce simp: world_ok_def world_inv_def records_inv_def intent_ok_def)
  moreover have "\<not> (reduces_access (wc_action cap) \<and> wg_hard_denied (wc_name cap))"
    using t check_wg_name_Ok by (auto simp: task_recorded_def wg_ok_def)
  ultimately show ?thesis
    using cap t r' inv
    by (fastforce simp: task_recorded_def was_shown_def was_approved_def request_matches_def world_ok_def)
qed

theorem peer_change_approved_witness:
  "\<exists>cap. wg_call cap = Some run_change \<and> \<not> (reduces_access (wc_action cap) \<and> wg_hard_denied (wc_name cap))"
  using peer_change_approved [OF run_4_reached, of "IntentId [7]" run_change] by (auto simp: run_4_def)

text \<open>
  C24: concurrency limits hold for the node as a whole. With a counting semaphore, the requests of one capability that are being
  served at a time never exceed the concurrency its policy entry gives, also while the kill switch acts and approvals are pending.
\<close>

theorem active_requests_bounded:
  assumes "counting_semaphore L avail" "reaches (service_start L contents) (service_step V L C) s"
    and "hm_get (cp_entries (g_policy (sv_gate s))) c = Some e"
  shows "count_list (map rq_name (sv_active s)) c \<le> ce_concurrency e"
proof -
  have ok: "gate_ok L contents s" using serv.inv_reaches [OF assms(2)] by (auto simp: service_inv_def)
  then have "count (mset (map rq_name (sv_active s))) c = count (mset (g_in_flight (sv_gate s))) c"
    by (simp add: gate_ok_def)
  then have "count_list (map rq_name (sv_active s)) c = count_list (g_in_flight (sv_gate s)) c"
    by (simp only: count_mset)
  moreover have "permits_inv avail (sv_gate s)"
    using ok gate.inv_reaches [of L "sv_gate s" avail] assms(1) by (simp add: gate_ok_def gate_inv_def)
  ultimately show ?thesis using assms(3) by (auto simp: permits_inv_def dest: spec [of _ c])
qed

theorem active_requests_bounded_witness:
  "count_list (map rq_name (sv_active run_1)) (str ''wg_peer_manage'') \<le> 1 \<and> sv_active run_1 \<noteq> []"
proof -
  have "hm_get (cp_entries (g_policy (sv_gate run_1))) (str ''wg_peer_manage'') = Some
      \<lparr>ce_allowed_peers = [(example_peer, Some 2000)], ce_rate_limit = 5000000000, ce_semaphore = 0, ce_concurrency = 1,
       ce_tier = Tier2, ce_denied = []\<rparr>"
    by (simp add: run_1_def run_policy_def hm_get_def)
  from active_requests_bounded [OF _ run_1_reached this, of "\<lambda>s. s"] show ?thesis
    using counter_libs_counting by (simp add: run_libs_def) (simp add: run_1_def)
qed

text \<open>
  Every answer verifies at the requester. Whatever the request, the policy, the broker's answers and the approval flow, the bytes
  that \<open>dispatch_intent\<close> returns are, unless empty (a reply over the payload limit), a frame that any node accepts as
  signed by this node, a fulfilment or an error, for the request's intent hash, with its trace identifier and the given routing.
\<close>

lemma dispatch_reply_verified:
  assumes "ed25519_correct (ne_ed V)" "wf_keypair (dc_identity C)" "wf_reply_to q"
  shows "verified_reply V C q (fst (dispatch_intent V L C now_secs now later new_id q payload sender s))"
proof -
  have "verified_reply V C q (fst (dispatch_handle V L C p new_id later q payload sender name (snd s)))" for p name
    by (rule handle_reply_verified [OF assms])
  then show ?thesis
    using replies_verified(1) [OF assms]
    by (simp add: dispatch_intent_def verified_nothing case_prod_unfold Let_def split: result.split)
qed

text \<open>Serving one request without interference is an admission followed by its handling.\<close>

lemma dispatch_is_two_steps:
  assumes "dispatch_admit V L C now_secs now (rt_intent_hash (rq_head q)) (rq_sender q) (g_policy (sv_gate s)) = (p, Ok (rq_name q))"
    and "g_clock (sv_gate s) \<le> now" "new_id \<notin> hm_keys (fl_records (aw_flow (sv_world s)))"
    and "dispatch_intent V L C now_secs now later new_id (rq_head q) (rq_payload q) (rq_sender q)
      (g_policy (sv_gate s), sv_io s) = (reply, p', io)"
  shows "\<exists>s1 s2. service_step V L C s s1 \<and> service_step V L C s1 s2 \<and> g_policy (sv_gate s2) = p' \<and>
     aw_flow (sv_world s2) = io_flow io \<and> sv_tasks s2 = io_tasks io \<and>
     sv_log s2 = sv_log s @ added (FromRequest q) s (io_calls io)"
proof -
  let ?s1 = "s\<lparr>sv_active := q # sv_active s,
       sv_gate := (sv_gate s)\<lparr>g_policy := p, g_in_flight := rq_name q # g_in_flight (sv_gate s),
         g_granted := (rq_name q, rq_sender q, now) # g_granted (sv_gate s), g_clock := now\<rparr>\<rparr>"
  have 1: "service_step V L C s ?s1" by (rule sv_admit [OF assms(2,1)])
  have io: "sv_io ?s1 = sv_io s" by (simp add: sv_io_def sv_calls_def)
  have "dispatch_handle V L C p new_id later (rq_head q) (rq_payload q) (rq_sender q) (rq_name q) (sv_io s) = (reply, io)"
    and p': "p' = drop_permit L (rq_name q) p"
    using assms(4) by (simp_all add: dispatch_intent_def assms(1) Let_def case_prod_unfold prod_eq_iff)
  then have h: "dispatch_handle V L C (g_policy (sv_gate ?s1)) new_id later (rq_head q) (rq_payload q) (rq_sender q)
      (rq_name q) (sv_io ?s1) = (reply, io)"
    by (simp add: io)
  have "q \<in> set (sv_active ?s1)" "new_id \<notin> hm_keys (fl_records (aw_flow (sv_world ?s1)))" using assms(3) by simp_all
  from sv_handle [OF this h] show ?thesis
    using 1 p' by (intro exI [of _ ?s1] exI conjI) (auto simp: added_def)
qed

text \<open>The background task of a pending proposal leaves a record that says what the decision was, and logs exactly that.\<close>

lemma background_task_logged:
  assumes "flow_record fl iid = Some r" "lr_status r = IsPending" "in_id (lr_intent r) = iid"
    and "\<not> is_expired t1 (lr_intent r)" "\<not> is_expired t2 (lr_intent r)" "verify_parameter_hash (ne_blake3 V) (lr_intent r)"
    and "channel (as_approval_request t1 (lr_intent r)) = Ok d" "ad_intent_id d = iid"
    and "wg_background_task V A channel t1 t2 t3 w now_ms log_now iid cap calls (fl, Some lg) = (fl', lg')"
  shows "\<exists>r'. flow_record fl' iid = Some r' \<and> lr_decision r' = Some d \<and> (executed_status (lr_status r') \<longleftrightarrow> ad_approved d) \<and>
     lg' = Some (fst (log_tier2_linked_record A w now_ms log_now r' lg))"
  using assms
  by (auto simp: wg_background_task_def decide_and_execute_def decide_claim_def decide_finish_def flow_record_def put_record_def
      Let_def executed_status_def as_approval_request_def split: if_splits sum.splits)

end
