(* ===== verification/NodeRun.thy ===== *)
theory NodeRun
  imports Node
begin

text \<open>
  Runs of a node. The first sections say when the tables of the network manager are well formed and
  show that every handler keeps them so; then which registrations are justified, and that every
  handler leaves only justified ones; last the machine whose steps are the handlers, with both as its
  invariant.
\<close>

section \<open>Well-formed tables\<close>

definition cache_ok :: "forwarded_frame_cache \<Rightarrow> bool" where
  "cache_ok c \<longleftrightarrow>
     distinct (fc_seen c) \<and> distinct (fc_order c) \<and> set (fc_seen c) = set (fc_order c) \<and>
     length (fc_order c) \<le> FORWARD_DEDUP_CAPACITY"

definition peers_ok :: "(node_id, peer_connection) hmap \<Rightarrow> node_id list \<Rightarrow> (node_id, socket_addr) hmap \<Rightarrow> bool" where
  "peers_ok peers known addrs \<longleftrightarrow>
     hm_wf peers \<and> hm_wf addrs \<and> distinct known \<and> set known = hm_keys peers \<and>
     (\<forall>n. hm_get addrs n = map_option pc_addr (hm_get peers n)) \<and>
     (\<forall>n p. hm_get peers n = Some p \<longrightarrow> pc_node_id p = n \<and> wf_node_id n)"

definition via_ok :: "node_id list \<Rightarrow> (node_id, node_id \<times> nat) hmap \<Rightarrow> bool" where
  "via_ok known via \<longleftrightarrow>
     hm_wf via \<and>
     (\<forall>origin relay t. hm_get via origin = Some (relay, t) \<longrightarrow> relay \<in> set known \<and> relay \<noteq> origin \<and> wf_node_id origin)"

definition reverse_ok :: "(trace_id, socket_addr \<times> nat) hmap \<Rightarrow> bool" where
  "reverse_ok routes \<longleftrightarrow> hm_wf routes \<and> length routes \<le> REVERSE_ROUTES_CAPACITY"

definition admission_ok :: "node_id list \<Rightarrow> (node_id, nat \<times> node_id list) hmap \<Rightarrow> bool" where
  "admission_ok known a \<longleftrightarrow>
     hm_wf a \<and> hm_keys a \<subseteq> set known \<and>
     (\<forall>n start origins. hm_get a n = Some (start, origins) \<longrightarrow>
        distinct origins \<and> length origins \<le> MAX_DISTINCT_ORIGINS_PER_SENDER_PER_WINDOW)"

definition node_ok :: "'r network_manager \<Rightarrow> bool" where
  "node_ok m \<longleftrightarrow>
     peers_ok (nm_peers m) (nm_known_peers m) (nm_peer_addrs m) \<and>
     via_ok (nm_known_peers m) (nm_reachable_via m) \<and> reverse_ok (nm_reverse_routes m) \<and>
     admission_ok (nm_known_peers m) (nm_origin_admission m) \<and> hm_wf (nm_last_announce_from m) \<and>
     am_identity (nm_announcement_mgr m) = nm_identity m \<and>
     hm_wf (nm_pending_connects m) \<and> hm_wf (nm_pending_pings m) \<and> hm_wf (nm_pending_intents m) \<and>
     cache_ok (nm_forwarded_frames m) \<and> router_inv (nm_semantic_router m)"

lemma fc_insert_ok:
  assumes "cache_ok c"
  shows "cache_ok (fc_insert key c)"
proof (cases "key \<in> set (fc_seen c)")
  case False
  obtain x xs where order: "fc_order c @ [key] = x # xs" by (cases "fc_order c @ [key]") simp_all
  have len: "length (x # xs) = Suc (length (fc_order c))" "length (fc_order c) \<le> FORWARD_DEDUP_CAPACITY"
    using assms arg_cong [OF order, of length] by (simp_all add: cache_ok_def)
  have "distinct (fc_order c @ [key])" "set (fc_seen c @ [key]) = set (fc_order c @ [key])" "distinct (fc_seen c)"
    using assms False by (simp_all add: cache_ok_def)
  then have "distinct (x # xs)" "set (fc_seen c @ [key]) = set (x # xs)" "distinct (fc_seen c)"
    unfolding order by simp_all
  then have "set (removeAll x (fc_seen c @ [key])) = set xs" "distinct (removeAll x (fc_seen c @ [key]))"
      "distinct (fc_seen c @ [key])" "distinct xs"
    using False by (auto simp: distinct_removeAll)
  then show ?thesis
    using False len \<open>distinct (x # xs)\<close> \<open>set (fc_seen c @ [key]) = set (x # xs)\<close>
    unfolding fc_insert_def Let_def order cache_ok_def by (cases "length (x # xs) > FORWARD_DEDUP_CAPACITY") simp_all
qed (use assms in \<open>simp add: fc_insert_def\<close>)

lemma leave_breadcrumb_ok: "reverse_ok r \<Longrightarrow> reverse_ok (leave_breadcrumb now tid addr r)"
  by (auto simp: reverse_ok_def leave_breadcrumb_def length_hm_insert)

lemma admit_origin_ok:
  assumes "admit_origin now sender origin a = (b, a')" "admission_ok known a" "sender \<in> set known"
  shows "admission_ok known a'"
proof -
  obtain start os where e: "(if now - fst (case hm_get a sender of Some e \<Rightarrow> e | None \<Rightarrow> (now, [])) \<ge> ORIGIN_ADMISSION_WINDOW
      then (now, []) else (case hm_get a sender of Some e \<Rightarrow> e | None \<Rightarrow> (now, []))) = (start, os)"
    by (metis surj_pair)
  have os: "distinct os \<and> length os \<le> MAX_DISTINCT_ORIGINS_PER_SENDER_PER_WINDOW"
    using e assms(2) by (fastforce simp: admission_ok_def split: option.splits if_splits)
  obtain os' where "a' = hm_insert sender (start, os') a"
      "distinct os' \<and> length os' \<le> MAX_DISTINCT_ORIGINS_PER_SENDER_PER_WINDOW"
    using assms(1) os by (auto simp: admit_origin_def Let_def e split: if_splits)
  then show ?thesis
    using assms(2,3) by (auto simp: admission_ok_def)
qed

lemma announce_rate_wf: "announce_rate_ok now key l = (b, l') \<Longrightarrow> hm_wf l \<Longrightarrow> hm_wf l'"
  by (auto simp: announce_rate_ok_def split: option.splits if_splits)

section \<open>What each handler touches\<close>

definition forwarded :: "nat \<Rightarrow> frame \<Rightarrow> socket_addr \<Rightarrow> routing_ext \<Rightarrow> trace_id \<Rightarrow> socket_addr \<Rightarrow> 'r network_manager
    \<Rightarrow> 'r network_manager \<times> node_effect list \<Rightarrow> bool" where
  "forwarded now f addr routing tid hop m res \<longleftrightarrow>
     fr_routing f = Some routing \<and> fr_trace_id f = Some tid \<and> from_known_peer addr m \<and> re_ttl routing > 0 \<and>
     \<not> fc_contains (tid, fh_frame_type (fr_header f)) (nm_forwarded_frames m) \<and>
     next_hop (fh_frame_type (fr_header f)) tid (re_destination routing) m = Some hop \<and> hop \<noteq> addr \<and>
     fst res = m\<lparr>nm_forwarded_frames := fc_insert (tid, fh_frame_type (fr_header f)) (nm_forwarded_frames m),
         nm_reverse_routes := (if fh_frame_type (fr_header f) = FtIntent
           then leave_breadcrumb now tid addr (nm_reverse_routes m) else nm_reverse_routes m)\<rparr> \<and>
     snd res = (case encode_vec (f\<lparr>fr_routing := Some (routing\<lparr>re_ttl := re_ttl routing - 1\<rparr>)\<rparr>) of
         Some bytes \<Rightarrow> [send_via (nm_discovery m) hop bytes] | None \<Rightarrow> [])"

lemma next_hop_cache [simp]: "next_hop ft tid dest (m\<lparr>nm_forwarded_frames := c\<rparr>) = next_hop ft tid dest m"
  by (simp add: next_hop_def split: option.split)

lemma forward_here:
  "fr_routing f = None \<Longrightarrow> try_forward_routed_frame now f addr local_id m = (False, m, [])"
  "fr_routing f = Some routing \<Longrightarrow> re_destination routing = local_id \<Longrightarrow>
     try_forward_routed_frame now f addr local_id m = (False, m, [])"
  by (simp_all add: try_forward_routed_frame_def)

lemma forward_refused:
  assumes "fr_routing f = Some routing" "re_destination routing \<noteq> local_id"
  shows "\<not> from_known_peer addr m \<Longrightarrow> try_forward_routed_frame now f addr local_id m = (True, m, [])"
    and "fr_trace_id f = None \<Longrightarrow> try_forward_routed_frame now f addr local_id m = (True, m, [])"
    and "fr_trace_id f = Some tid \<Longrightarrow> fc_contains (tid, fh_frame_type (fr_header f)) (nm_forwarded_frames m) \<Longrightarrow>
      try_forward_routed_frame now f addr local_id m = (True, m, [])"
  using assms by (simp_all add: try_forward_routed_frame_def)

lemma forward_rest:
  fixes m :: "'r network_manager"
  assumes "fr_routing f = Some routing" "re_destination routing \<noteq> local_id" "from_known_peer addr m"
    and "fr_trace_id f = Some tid" "\<not> fc_contains (tid, fh_frame_type (fr_header f)) (nm_forwarded_frames m)"
  defines "m1 \<equiv> m\<lparr>nm_forwarded_frames := fc_insert (tid, fh_frame_type (fr_header f)) (nm_forwarded_frames m)\<rparr>"
  shows "re_ttl routing = 0 \<Longrightarrow> try_forward_routed_frame now f addr local_id m = (True, m1, [])"
    and "next_hop (fh_frame_type (fr_header f)) tid (re_destination routing) m = None \<Longrightarrow>
      try_forward_routed_frame now f addr local_id m = (True, m1, [])"
    and "next_hop (fh_frame_type (fr_header f)) tid (re_destination routing) m = Some addr \<Longrightarrow>
      try_forward_routed_frame now f addr local_id m = (True, m1, [])"
    and "re_ttl routing \<noteq> 0 \<Longrightarrow> hop \<noteq> addr \<Longrightarrow>
      next_hop (fh_frame_type (fr_header f)) tid (re_destination routing) m = Some hop \<Longrightarrow>
      \<exists>m2 es. try_forward_routed_frame now f addr local_id m = (True, m2, es) \<and>
        forwarded now f addr routing tid hop m (m2, es)"
proof -
  show "re_ttl routing = 0 \<Longrightarrow> try_forward_routed_frame now f addr local_id m = (True, m1, [])"
    using assms(1-5) by (simp add: try_forward_routed_frame_def m1_def Let_def)
  show "next_hop (fh_frame_type (fr_header f)) tid (re_destination routing) m = None \<Longrightarrow>
      try_forward_routed_frame now f addr local_id m = (True, m1, [])"
    using assms(1-5) by (simp add: try_forward_routed_frame_def m1_def Let_def)
  show "next_hop (fh_frame_type (fr_header f)) tid (re_destination routing) m = Some addr \<Longrightarrow>
      try_forward_routed_frame now f addr local_id m = (True, m1, [])"
    using assms(1-5) by (simp add: try_forward_routed_frame_def m1_def Let_def)
  show "\<exists>m2 es. try_forward_routed_frame now f addr local_id m = (True, m2, es) \<and>
        forwarded now f addr routing tid hop m (m2, es)"
    if "re_ttl routing \<noteq> 0" "hop \<noteq> addr"
      "next_hop (fh_frame_type (fr_header f)) tid (re_destination routing) m = Some hop"
    using assms(1-5) that
    by (cases "encode_vec (f\<lparr>fr_routing := Some (routing\<lparr>re_ttl := re_ttl routing - 1\<rparr>)\<rparr>)";
        cases "fh_frame_type (fr_header f) = FtIntent")
      (simp_all add: try_forward_routed_frame_def forwarded_def Let_def word_neq_0_conv)
qed

lemma forward_cases:
  assumes fwd: "try_forward_routed_frame now f addr local_id m = (b, m', es)"
  obtains (untouched) "m' = m" "es = []"
  | (dropped) key where b "m' = m\<lparr>nm_forwarded_frames := fc_insert key (nm_forwarded_frames m)\<rparr>" "es = []"
  | (relayed) routing tid hop where b "re_destination routing \<noteq> local_id" "forwarded now f addr routing tid hop m (m', es)"
proof (cases "fr_routing f")
  case None
  with fwd show thesis using untouched by (simp add: forward_here)
next
  case (Some routing)
  note r = Some
  show thesis
  proof (cases "re_destination routing = local_id \<or> \<not> from_known_peer addr m \<or> fr_trace_id f = None \<or>
      fc_contains (the (fr_trace_id f), fh_frame_type (fr_header f)) (nm_forwarded_frames m)")
    case True
    have "(b, m', es) = (False, m, []) \<or> (b, m', es) = (True, m, [])"
    proof (cases "re_destination routing = local_id")
      case True
      then show ?thesis using forward_here(2) [OF r True, where addr = addr and m = m and now = now] fwd by simp
    next
      case False
      note refused = forward_refused [OF r False, where addr = addr and m = m and now = now]
      from True False consider "\<not> from_known_peer addr m" | "fr_trace_id f = None"
        | tid where "fr_trace_id f = Some tid" "fc_contains (tid, fh_frame_type (fr_header f)) (nm_forwarded_frames m)"
        by (cases "fr_trace_id f") auto
      then show ?thesis
        using fwd refused by cases simp_all
    qed
    then show thesis using untouched by auto
  next
    case False
    then obtain tid where t: "re_destination routing \<noteq> local_id" "from_known_peer addr m" "fr_trace_id f = Some tid"
      "\<not> fc_contains (tid, fh_frame_type (fr_header f)) (nm_forwarded_frames m)" by auto
    note rest = forward_rest [OF r t, where now = now]
    show thesis
    proof (cases "re_ttl routing = 0 \<or> next_hop (fh_frame_type (fr_header f)) tid (re_destination routing) m = None \<or>
        next_hop (fh_frame_type (fr_header f)) tid (re_destination routing) m = Some addr")
      case True
      then have "(b, m', es) =
          (True, m\<lparr>nm_forwarded_frames := fc_insert (tid, fh_frame_type (fr_header f)) (nm_forwarded_frames m)\<rparr>, [])"
        using rest(1-3) fwd by (elim disjE) simp_all
      then show thesis using dropped by simp
    next
      case False
      then obtain hop where h: "re_ttl routing \<noteq> 0" "hop \<noteq> addr"
        "next_hop (fh_frame_type (fr_header f)) tid (re_destination routing) m = Some hop" by auto
      from rest(4) [OF h] fwd have "b \<and> forwarded now f addr routing tid hop m (m', es)" by simp
      then show thesis using t(1) relayed by blast
    qed
  qed
qed

text \<open>What an accepted announcement amounts to, and all the ways in which one is dropped.\<close>

definition announce_accepted ::
    "node_env \<Rightarrow> u64 \<Rightarrow> nat \<Rightarrow> frame \<Rightarrow> 'r network_manager \<Rightarrow> node_id \<Rightarrow> announced_capability list \<Rightarrow> 'r network_manager \<Rightarrow> bool" where
  "announce_accepted V secs now f m origin caps m' \<longleftrightarrow>
     (let sender = fh_sender_id (fr_header f) in
      \<exists>p clock sig admission last mgr fwd.
        sender \<in> set (nm_known_peers m) \<and> payload_decode (fr_payload f) = Some p \<and>
        ap_origin p = Some origin \<and> ap_origin_clock p = Some clock \<and> ap_origin_signature p = Some sig \<and>
        node_id_verify (ne_ed V) origin (origin_signing_bytes_for origin clock (ap_capabilities p)) sig \<and>
        admit_origin now sender origin (nm_origin_admission m) = (True, admission) \<and>
        announce_rate_ok now (sender, origin) (nm_last_announce_from m) = (True, last) \<and>
        process_announcement (ne_ed V) secs now f (nm_announcement_mgr m) = (mgr, Some (caps, fwd)) \<and>
        m' = m\<lparr>nm_origin_admission := admission, nm_last_announce_from := last, nm_announcement_mgr := mgr,
          nm_reachable_via := (if origin \<in> set (nm_known_peers m) then nm_reachable_via m
                               else hm_insert origin (sender, now) (nm_reachable_via m)),
          nm_semantic_router := replace_registrations (ne_blake3 V) origin caps (nm_semantic_router m)\<rparr>)"

definition announce_dropped :: "node_env \<Rightarrow> u64 \<Rightarrow> nat \<Rightarrow> frame \<Rightarrow> 'r network_manager \<Rightarrow> 'r network_manager \<Rightarrow> bool" where
  "announce_dropped V secs now f m m' \<longleftrightarrow>
     (\<exists>admission last mgr.
        (admission = nm_origin_admission m \<or>
         fh_sender_id (fr_header f) \<in> set (nm_known_peers m) \<and>
         (\<exists>origin b. admit_origin now (fh_sender_id (fr_header f)) origin (nm_origin_admission m) = (b, admission))) \<and>
        (last = nm_last_announce_from m \<or> (\<exists>key b. announce_rate_ok now key (nm_last_announce_from m) = (b, last))) \<and>
        (mgr = nm_announcement_mgr m \<or>
         (\<exists>r. process_announcement (ne_ed V) secs now f (nm_announcement_mgr m) = (mgr, r))) \<and>
        m' = m\<lparr>nm_origin_admission := admission, nm_last_announce_from := last, nm_announcement_mgr := mgr\<rparr>)"

lemma announce_dropped_refl: "announce_dropped V secs now f m m"
proof -
  have "m = m\<lparr>nm_origin_admission := nm_origin_admission m, nm_last_announce_from := nm_last_announce_from m,
      nm_announcement_mgr := nm_announcement_mgr m\<rparr>" by simp
  then show ?thesis unfolding announce_dropped_def by blast
qed

lemma announce_cases:
  assumes h: "handle_announce V secs now f m = (m', es)"
  shows "announce_dropped V secs now f m m' \<or> (\<exists>origin caps. announce_accepted V secs now f m origin caps m')"
proof -
  let ?s = "fh_sender_id (fr_header f)"
  show ?thesis
  proof (cases "m' = m")
    case False
    have known: "?s \<in> set (nm_known_peers m)" 
      by (rule ccontr) (use h False in \<open>simp add: handle_announce_def\<close>)
    obtain p where p: "payload_decode (fr_payload f) = Some p"
      using h False known by (cases "payload_decode (fr_payload f)") (simp_all add: handle_announce_def)
    obtain origin clock sig where o: "ap_origin p = Some origin" "ap_origin_clock p = Some clock" "ap_origin_signature p = Some sig"
      using h False known p
      by (cases "ap_origin p"; cases "ap_origin_clock p"; cases "ap_origin_signature p") (simp_all add: handle_announce_def)
    have v1: "node_id_verify (ne_ed V) origin (origin_signing_bytes_for origin clock (ap_capabilities p)) sig"
      by (rule ccontr) (use h False known p o in \<open>simp add: handle_announce_def\<close>)
    have v2: "origin_clock_is_fresh (physical clock) secs"
      by (rule ccontr) (use h False known p o v1 in \<open>simp add: handle_announce_def\<close>)
    obtain b a where a: "admit_origin now ?s origin (nm_origin_admission m) = (b, a)" by force
    obtain c l where l: "announce_rate_ok now (?s, origin) (nm_last_announce_from m) = (c, l)" by force
    obtain mgr r where pr: "process_announcement (ne_ed V) secs now f (nm_announcement_mgr m) = (mgr, r)" by force
    note eqs = known p o v1 v2 a l pr
    show ?thesis
    proof (cases "b \<and> c \<and> r \<noteq> None")
      case True
      then obtain caps fwd where r: "r = Some (caps, fwd)" by auto
      have "m' = m\<lparr>nm_origin_admission := a, nm_last_announce_from := l, nm_announcement_mgr := mgr,
          nm_reachable_via := (if origin \<in> set (nm_known_peers m) then nm_reachable_via m
                               else hm_insert origin (?s, now) (nm_reachable_via m)),
          nm_semantic_router := replace_registrations (ne_blake3 V) origin caps (nm_semantic_router m)\<rparr>"
        using h eqs True r by (cases "origin \<in> set (nm_known_peers m)") (simp_all add: handle_announce_def Let_def)
      then have "announce_accepted V secs now f m origin caps m'"
        using eqs True r by (simp add: announce_accepted_def Let_def)
      then show ?thesis by blast
    next
      case False
      let ?drop = "\<lambda>l' g'. m\<lparr>nm_origin_admission := a, nm_last_announce_from := l', nm_announcement_mgr := g'\<rparr>"
      from False consider "\<not> b" | "b" "\<not> c" | "b" "c" "r = None" by blast
      then have "m' = ?drop (nm_last_announce_from m) (nm_announcement_mgr m) \<or>
          m' = ?drop l (nm_announcement_mgr m) \<or> m' = ?drop l mgr"
        by cases (use h eqs in \<open>auto simp: handle_announce_def Let_def\<close>)
      then obtain l' g' where "m' = ?drop l' g'" "l' = nm_last_announce_from m \<or> l' = l"
          "g' = nm_announcement_mgr m \<or> g' = mgr" by blast
      then have "announce_dropped V secs now f m m'"
        using eqs unfolding announce_dropped_def by blast
      then show ?thesis ..
    qed
  qed (simp add: announce_dropped_refl)
qed

section \<open>Every handler keeps the tables well formed\<close>

lemma process_identity:
  assumes "process_announcement E secs now f mgr = (mgr', r)"
  shows "am_identity mgr' = am_identity mgr"
proof -
  have "am_identity (fst (forward_announcement E secs g f ttl caps origin clock sig)) = am_identity g"
    for g ttl caps origin clock sig
    by (simp add: forward_announcement_def Let_def case_prod_unfold)
  then show ?thesis
    using arg_cong [OF assms, of fst]
    by (auto simp: process_announcement_def Let_def case_prod_unfold split: option.splits if_splits)
qed

lemma create_identity: "am_identity (fst (create_announcement E secs ttl mgr)) = am_identity mgr"
  by (simp add: create_announcement_def Let_def case_prod_unfold)

lemma fold_unregister_inv:
  "router_inv r \<Longrightarrow> router_inv (fold (\<lambda>n r. if P n then r else unregister_node n r) ns r)"
  by (induction ns arbitrary: r) (simp_all add: router_inv_unregister)

lemma fold_register_inv:
  "router_inv r \<Longrightarrow> router_inv (fold (\<lambda>x r. if P x then register n (c x) r else r) xs r)"
  by (induction xs arbitrary: r) (simp_all add: router_inv_register)

lemma replace_registrations_inv: "router_inv r \<Longrightarrow> router_inv (replace_registrations B origin caps r)"
proof -
  have "router_inv r \<Longrightarrow> router_inv (fold (\<lambda>cap. fold (\<lambda>name r.
             if ai_hash (ai_intent_from_str B name) = ac_intent_hash cap
             then register origin (semantic_new B name) r else r) KNOWN_CAPABILITY_NAMES) caps r)" for r :: "'a semantic_router"
    by (induction caps arbitrary: r) (simp_all add: fold_register_inv)
  then show "router_inv r \<Longrightarrow> ?thesis"
    by (simp add: replace_registrations_def router_inv_unregister)
qed

lemma decoded_origin_wf: "payload_decode data = Some p \<Longrightarrow> ap_origin p = Some origin \<Longrightarrow> wf_node_id origin"
  using payload_decode_wf [of data p] by (auto simp: wf_payload_def wf_trailer_def split: option.splits)

lemma node_ok_forward:
  assumes "node_ok m" "try_forward_routed_frame now f addr local_id m = (b, m', es)"
  shows "node_ok m'"
  using assms(2)
proof (cases rule: forward_cases)
  case untouched
  then show ?thesis using assms(1) by simp
next
  case (dropped key)
  then show ?thesis using assms(1) fc_insert_ok by (simp add: node_ok_def)
next
  case (relayed routing tid hop)
  then show ?thesis
    using assms(1) fc_insert_ok leave_breadcrumb_ok by (simp add: forwarded_def node_ok_def)
qed

lemma node_ok_announce:
  assumes ok: "node_ok m" and h: "handle_announce V secs now f m = (m', es)"
  shows "node_ok m'"
  using announce_cases [OF h]
proof
  assume "announce_dropped V secs now f m m'"
  then obtain a l mgr where *: "a = nm_origin_admission m \<or> fh_sender_id (fr_header f) \<in> set (nm_known_peers m) \<and>
         (\<exists>origin b. admit_origin now (fh_sender_id (fr_header f)) origin (nm_origin_admission m) = (b, a))"
      "l = nm_last_announce_from m \<or> (\<exists>key b. announce_rate_ok now key (nm_last_announce_from m) = (b, l))"
      "mgr = nm_announcement_mgr m \<or> (\<exists>r. process_announcement (ne_ed V) secs now f (nm_announcement_mgr m) = (mgr, r))"
      "m' = m\<lparr>nm_origin_admission := a, nm_last_announce_from := l, nm_announcement_mgr := mgr\<rparr>"
    unfolding announce_dropped_def by blast
  have "admission_ok (nm_known_peers m) a" using *(1) ok admit_origin_ok by (auto simp: node_ok_def)
  moreover have "hm_wf l" using *(2) ok announce_rate_wf by (auto simp: node_ok_def)
  moreover have "am_identity mgr = nm_identity m" using *(3) ok process_identity by (auto simp: node_ok_def)
  ultimately show ?thesis using ok *(4) by (simp add: node_ok_def)
next
  assume "\<exists>origin caps. announce_accepted V secs now f m origin caps m'"
  then obtain origin caps where "announce_accepted V secs now f m origin caps m'" by blast
  then obtain p clock sig a l mgr fwd where *: "fh_sender_id (fr_header f) \<in> set (nm_known_peers m)"
      "payload_decode (fr_payload f) = Some p" "ap_origin p = Some origin"
      "admit_origin now (fh_sender_id (fr_header f)) origin (nm_origin_admission m) = (True, a)"
      "announce_rate_ok now (fh_sender_id (fr_header f), origin) (nm_last_announce_from m) = (True, l)"
      "process_announcement (ne_ed V) secs now f (nm_announcement_mgr m) = (mgr, Some (caps, fwd))"
      "m' = m\<lparr>nm_origin_admission := a, nm_last_announce_from := l, nm_announcement_mgr := mgr,
          nm_reachable_via := (if origin \<in> set (nm_known_peers m) then nm_reachable_via m
                               else hm_insert origin (fh_sender_id (fr_header f), now) (nm_reachable_via m)),
          nm_semantic_router := replace_registrations (ne_blake3 V) origin caps (nm_semantic_router m)\<rparr>"
    unfolding announce_accepted_def Let_def by blast
  have "admission_ok (nm_known_peers m) a" using admit_origin_ok [OF *(4)] *(1) ok by (simp add: node_ok_def)
  moreover have "hm_wf l" using announce_rate_wf [OF *(5)] ok by (simp add: node_ok_def)
  moreover have "am_identity mgr = nm_identity m" using process_identity [OF *(6)] ok by (simp add: node_ok_def)
  moreover have "via_ok (nm_known_peers m) (if origin \<in> set (nm_known_peers m) then nm_reachable_via m
      else hm_insert origin (fh_sender_id (fr_header f), now) (nm_reachable_via m))"
    using ok *(1) decoded_origin_wf [OF *(2,3)] by (auto simp: node_ok_def via_ok_def)
  moreover have "router_inv (replace_registrations (ne_blake3 V) origin caps (nm_semantic_router m))"
    using ok by (simp add: node_ok_def replace_registrations_inv)
  ultimately show ?thesis
    using ok unfolding *(7) node_ok_def by simp
qed

lemma take_pending_wf: "take_pending tid sender pending = (tx, pending') \<Longrightarrow> hm_wf pending \<Longrightarrow> hm_wf pending'"
  by (auto simp: take_pending_def split: option.splits)

lemma node_ok_frame:
  assumes "node_ok m" "handle_axiom_frame V secs now f addr m = (m', es)"
  shows "node_ok m'"
proof -
  obtain b m1 sent where fwd: "try_forward_routed_frame now f addr (keypair_node_id (ne_ed V) (nm_identity m)) m = (b, m1, sent)"
    by (metis surj_pair)
  have ok: "node_ok m1" by (rule node_ok_forward [OF assms(1) fwd])
  show ?thesis
  proof (cases b)
    case True
    then show ?thesis using assms(2) ok fwd by (simp add: handle_axiom_frame_def)
  next
    case False
    obtain tx pending where t: "take_pending (fr_trace_id f) (fh_sender_id (fr_header f)) (nm_pending_pings m1) = (tx, pending)"
      by force
    obtain tx' pending' where t': "take_pending (fr_trace_id f) (fh_sender_id (fr_header f)) (nm_pending_intents m1) = (tx', pending')"
      by force
    have "node_ok (m1\<lparr>nm_pending_pings := pending\<rparr>)" "node_ok (m1\<lparr>nm_pending_intents := pending'\<rparr>)"
      using ok take_pending_wf [OF t] take_pending_wf [OF t'] by (simp_all add: node_ok_def)
    then show ?thesis
      using assms(2) ok fwd False t t' node_ok_announce [OF ok]
      by (auto simp: handle_axiom_frame_def Let_def split: frame_type.splits if_splits option.splits)
  qed
qed

lemma extracted_wf: "extract_sender_with_timestamp E data = Some (n, ts) \<Longrightarrow> wf_node_id n"
  by (auto simp: extract_sender_with_timestamp_def Let_def wf_id_defs size_defs split: if_splits)

lemma node_ok_datagram:
  assumes "node_ok m" "receive_datagram V secs now data addr m = (m', es)"
  shows "node_ok m'"
proof (cases "extract_sender_with_timestamp (ne_ed V) data")
  case None
  then show ?thesis
    using assms node_ok_frame [OF assms(1)]
    by (cases "decode_verified_frame (ne_ed V) data") (simp_all add: receive_datagram_def)
next
  case (Some h)
  then obtain n ts where h: "extract_sender_with_timestamp (ne_ed V) data = Some (n, ts)" by (cases h) simp
  have "m' = m \<or> m' = m\<lparr>nm_pending_connects := hm_remove addr (nm_pending_connects m)\<rparr>"
    using assms(2) h by (auto simp: receive_datagram_def Let_def split: if_splits option.splits)
  then show ?thesis using assms(1) by (auto simp: node_ok_def)
qed

lemma node_ok_discovery:
  assumes "node_ok m" "discovery_receive V secs now data from (rf, m) = ((rf', m'), es)"
  shows "node_ok m'"
proof (cases "m' = m")
  case False
  then obtain f where "handle_axiom_frame V secs now f from m = (m', es)"
    using assms(2)
    by (auto simp: discovery_receive_def Let_def case_prod_unfold split: if_splits option.splits intro: prod_eqI)
  then show ?thesis by (rule node_ok_frame [OF assms(1)])
qed (use assms(1) in simp)

lemma peers_ok_insert:
  assumes "peers_ok peers known addrs" "pc_node_id conn = n" "wf_node_id n"
  shows "peers_ok (hm_insert n conn peers) (List.insert n known) (hm_insert n (pc_addr conn) addrs)"
  using assms by (auto simp: peers_ok_def)

lemma peers_ok_update:
  assumes "peers_ok peers known addrs" "hm_get peers n = Some old" "pc_node_id conn = n"
  shows "peers_ok (hm_insert n conn peers) known (hm_insert n (pc_addr conn) addrs)"
proof -
  have "n \<in> hm_keys peers" using assms(2) hm_get_None_iff [of peers n] by simp
  moreover have "wf_node_id n" using assms(1,2) by (auto simp: peers_ok_def)
  ultimately show ?thesis using assms(1,3) by (auto simp: peers_ok_def)
qed

lemma peers_ok_remove:
  "peers_ok peers known addrs \<Longrightarrow> peers_ok (hm_remove n peers) (removeAll n known) (hm_remove n addrs)"
  by (auto simp: peers_ok_def distinct_removeAll)

lemma via_ok_mono: "via_ok known via \<Longrightarrow> set known \<subseteq> set known' \<Longrightarrow> via_ok known' via"
  by (fastforce simp: via_ok_def)

lemma admission_ok_mono: "admission_ok known a \<Longrightarrow> set known \<subseteq> set known' \<Longrightarrow> admission_ok known' a"
  by (auto simp: admission_ok_def)

lemma node_ok_add_peer:
  assumes "node_ok m" "pc_node_id conn = n" "wf_node_id n"
  shows "node_ok (add_peer n conn m)"
proof -
  have "set (nm_known_peers m) \<subseteq> set (List.insert n (nm_known_peers m))" by auto
  then have "via_ok (List.insert n (nm_known_peers m)) (nm_reachable_via m)"
      "admission_ok (List.insert n (nm_known_peers m)) (nm_origin_admission m)"
    using assms(1) via_ok_mono admission_ok_mono unfolding node_ok_def by blast+
  then show ?thesis
    using assms peers_ok_insert by (simp add: node_ok_def add_peer_def)
qed

lemma fold_remove_get: "hm_get (fold hm_remove ks m) k = (if k \<in> set ks then None else hm_get m k)"
  by (induction ks arbitrary: m) auto

lemma fold_remove_wf: "hm_wf m \<Longrightarrow> hm_wf (fold hm_remove ks m)"
  by (induction ks arbitrary: m) auto

lemma fold_remove_keys: "hm_keys (fold hm_remove ks m) = hm_keys m - set ks"
  by (induction ks arbitrary: m) auto

lemma orphaned_iff:
  assumes "hm_wf via"
  shows "origin \<in> set (map fst (filter (\<lambda>(_, relay, _). relay = gone) via)) \<longleftrightarrow> (\<exists>t. hm_get via origin = Some (gone, t))"
  using assms by (force simp: hm_get_def hm_wf_def dest: map_of_SomeD)

lemma via_ok_evict:
  assumes "via_ok known via"
  shows "via_ok (removeAll gone known) (fold hm_remove (map fst (filter (\<lambda>(_, relay, _). relay = gone) via)) via)"
proof -
  have wf: "hm_wf via" using assms by (simp add: via_ok_def)
  then show ?thesis
    using assms orphaned_iff [OF wf] unfolding via_ok_def by (auto simp: fold_remove_get fold_remove_wf)
qed

lemma node_ok_evict:
  assumes "node_ok m"
  shows "node_ok (fst (evict gone m))"
proof -
  have "admission_ok (removeAll gone (nm_known_peers m)) (hm_remove gone (nm_origin_admission m))"
    using assms by (auto simp: node_ok_def admission_ok_def)
  then show ?thesis
    using assms peers_ok_remove via_ok_evict by (simp add: node_ok_def evict_def Let_def)
qed

abbreviation discovered_peer :: "nat \<Rightarrow> node_id \<Rightarrow> socket_addr \<Rightarrow> u64 \<Rightarrow> peer_connection" where
  "discovered_peer now n addr ts \<equiv>
     \<lparr>pc_node_id = n, pc_addr = addr, pc_established_at = now, pc_bytes_sent = 0, pc_bytes_received = 0,
      pc_discovered = True, pc_last_hello_ts = ts, pc_last_seen = now\<rparr>"

abbreviation refreshed_peer :: "nat \<Rightarrow> socket_addr \<Rightarrow> u64 \<Rightarrow> peer_connection \<Rightarrow> peer_connection" where
  "refreshed_peer now addr ts old \<equiv> old\<lparr>pc_addr := addr, pc_last_hello_ts := ts, pc_last_seen := now\<rparr>"

lemma register_peer_cases:
  assumes reg: "register_peer now n addr ts m = (m', es)"
  obtains (ignored) "m' = m" "es = []"
  | (refreshed) old where "hm_get (nm_peers m) n = Some old" "pc_last_hello_ts old < ts" "es = []"
      "m' = m\<lparr>nm_peers := hm_insert n (refreshed_peer now addr ts old) (nm_peers m),
              nm_peer_addrs := hm_insert n addr (nm_peer_addrs m)\<rparr>"
  | (added) "hm_get (nm_peers m) n = None" "length (nm_peers m) < nm_max_peers m" "es = []"
      "m' = add_peer n (discovered_peer now n addr ts) m"
  | (evicted) gone where "hm_get (nm_peers m) n = None" "nm_max_peers m \<le> length (nm_peers m)"
      "lru_discovered (nm_peers m) = Some gone" "es = snd (evict gone m)"
      "m' = add_peer n (discovered_peer now n addr ts) (fst (evict gone m))"
proof (cases "hm_get (nm_peers m) n")
  case None
  show thesis
  proof (cases "nm_max_peers m \<le> length (nm_peers m)")
    case True
    show thesis
    proof (cases "lru_discovered (nm_peers m)")
      case (Some gone)
      have "m' = add_peer n (discovered_peer now n addr ts) (fst (evict gone m))" "es = snd (evict gone m)"
        using reg None True Some by (simp_all add: register_peer_def case_prod_unfold Let_def)
      then show thesis by (intro evicted [OF None True Some])
    qed (use reg None True ignored in \<open>simp add: register_peer_def\<close>)
  next
    case False
    then have "m' = add_peer n (discovered_peer now n addr ts) m" "es = []"
      using reg None by (simp_all add: register_peer_def)
    then show thesis using False by (intro added [OF None]) simp_all
  qed
next
  case (Some old)
  show thesis
  proof (cases "ts \<le> pc_last_hello_ts old")
    case False
    then have "m' = m\<lparr>nm_peers := hm_insert n (refreshed_peer now addr ts old) (nm_peers m),
              nm_peer_addrs := hm_insert n addr (nm_peer_addrs m)\<rparr>" "es = []"
      using reg Some by (simp_all add: register_peer_def)
    then show thesis using False by (intro refreshed [OF Some]) simp_all
  qed (use reg Some ignored in \<open>simp add: register_peer_def\<close>)
qed

lemma node_ok_register_peer:
  assumes "node_ok m" "wf_node_id n" "register_peer now n addr ts m = (m', es)"
  shows "node_ok m'"
  using assms(3)
proof (cases rule: register_peer_cases)
  case (refreshed old)
  have "pc_node_id old = n" using refreshed(1) assms(1) by (simp add: node_ok_def peers_ok_def)
  then have "peers_ok (hm_insert n (refreshed_peer now addr ts old) (nm_peers m))
      (nm_known_peers m) (hm_insert n addr (nm_peer_addrs m))"
    using peers_ok_update [where conn = "refreshed_peer now addr ts old"] refreshed(1) assms(1)
    by (simp add: node_ok_def)
  then show ?thesis using assms(1) refreshed(4) by (simp add: node_ok_def)
qed (use assms(1,2) in \<open>simp_all add: node_ok_add_peer node_ok_evict\<close>)

lemma node_ok_connect:
  assumes "node_ok m"
  shows "node_ok (fst (connect_start V secs sent addr tx m))"
    and "(\<And>n ts. reply = Some (n, ts) \<Longrightarrow> wf_node_id n) \<Longrightarrow> node_ok (connect_finish now addr len reply m)"
proof -
  show "node_ok (fst (connect_start V secs sent addr tx m))"
    using assms by (simp add: connect_start_def Let_def node_ok_def)
  show "(\<And>n ts. reply = Some (n, ts) \<Longrightarrow> wf_node_id n) \<Longrightarrow> node_ok (connect_finish now addr len reply m)"
    using assms by (simp add: connect_finish_def node_ok_add_peer split: option.split) (simp add: node_ok_def)
qed

lemma node_ok_send_request: "node_ok m \<Longrightarrow> node_ok (fst (send_request V sent capability payload tid tx provider addr routing m))"
  by (simp add: send_request_def Let_def node_ok_def)

lemma node_ok_request_via: "node_ok m \<Longrightarrow> node_ok (fst (request_intent_via V sent relay dest capability payload tid tx m))"
  by (simp add: request_intent_via_def node_ok_send_request split: option.split)

lemma node_ok_request: "node_ok m \<Longrightarrow> node_ok (fst (request_intent V R sent capability payload tid tx m))"
  by (simp add: request_intent_def Let_def case_prod_unfold node_ok_send_request node_ok_request_via
      split: option.split list.split)

lemma node_ok_finish: "node_ok m \<Longrightarrow> node_ok (fst (finish_request R tid provider ms outcome m))"
  by (simp add: finish_request_def Let_def node_ok_def router_inv_reputation split: wait_result.split result.split)

lemma node_ok_ping: "node_ok m \<Longrightarrow> node_ok (fst (spawn_ping V sent tid tx n addr m))"
  by (simp add: spawn_ping_def Let_def node_ok_def)

lemma node_ok_spawn_announce: "node_ok m \<Longrightarrow> node_ok (fst (spawn_announce V secs addr m))"
  by (simp add: spawn_announce_def Let_def case_prod_unfold node_ok_def create_identity)

lemma node_ok_discovered:
  assumes "node_ok m" "wf_node_id n"
  shows "node_ok (fst (on_peer_discovered V secs now sent tid tx n addr ts m))"
proof -
  obtain m1 es where reg: "register_peer now n addr ts m = (m1, es)" by force
  show ?thesis
    using node_ok_register_peer [OF assms reg]
    by (simp add: on_peer_discovered_def Let_def case_prod_unfold reg node_ok_ping node_ok_spawn_announce)
qed

lemma node_ok_purge: "node_ok m \<Longrightarrow> node_ok (purge_evicted gone orphaned m)"
  by (simp add: purge_evicted_def node_ok_def fold_unregister_inv router_inv_unregister)

lemma via_ok_fold_remove: "via_ok known via \<Longrightarrow> via_ok known (fold hm_remove ks via)"
  by (auto simp: via_ok_def fold_remove_get fold_remove_wf split: if_splits)

lemma retain_keys: "hm_keys (hm_retain P m) \<subseteq> hm_keys m"
  by (auto simp: hm_keys_def hm_retain_def)

lemma node_ok_collect: 
  assumes "node_ok m"
  shows "node_ok (fst (maintenance_collect now m))"
proof -
  have "admission_ok known (hm_retain P a)" if "admission_ok known a" for known P a
    using that retain_keys [of P a] by (auto simp: admission_ok_def hm_get_retain split: option.splits if_splits)
  then show ?thesis
    using assms by (simp add: maintenance_collect_def Let_def node_ok_def via_ok_fold_remove cleanup_stale_def)
qed

lemma fold_unregister_known_inv:
  "router_inv r \<Longrightarrow> router_inv (fold (\<lambda>n r. if P n then r else if Q n then r else unregister_node n r) ns r)"
  by (induction ns arbitrary: r) (simp_all add: router_inv_unregister)

lemma node_ok_maintenance_purge: "node_ok m \<Longrightarrow> node_ok (maintenance_purge now stale m)"
  using length_hm_retain_le [of "\<lambda>_ (_, touched). now - touched < REVERSE_ROUTE_TTL" "nm_reverse_routes m"]
  by (simp add: maintenance_purge_def node_ok_def fold_unregister_known_inv reverse_ok_def)

lemma node_ok_new: "node_ok (network_manager_new V identity discovery max_peers capabilities secs)"
proof -
  have "am_identity (fold (\<lambda>cap. register_capability (c cap)) caps mgr) = am_identity mgr" for c :: "rstring \<Rightarrow> announced_capability" and caps mgr
    by (induction caps arbitrary: mgr) (simp_all add: register_capability_def)
  then show ?thesis
    by (simp add: network_manager_new_def node_ok_def peers_ok_def via_ok_def reverse_ok_def admission_ok_def
        cache_ok_def router_inv_new manager_new_def)
qed

section \<open>Who is registered\<close>

definition frame_announces :: "node_env \<Rightarrow> frame \<Rightarrow> node_id \<Rightarrow> semantic_capability \<Rightarrow> bool" where
  "frame_announces V f n c \<longleftrightarrow>
     (\<exists>clock caps sig name. origin_claim f = Some (n, clock, caps, sig) \<and>
        node_id_verify (ne_ed V) n (origin_signing_bytes_for n clock caps) sig \<and>
        name \<in> set KNOWN_CAPABILITY_NAMES \<and> c = semantic_new (ne_blake3 V) name \<and>
        sc_intent_hash c \<in> ac_intent_hash ` set caps)"

definition announces :: "node_env \<Rightarrow> u8 list \<Rightarrow> node_id \<Rightarrow> semantic_capability \<Rightarrow> bool" where
  "announces V data n c \<longleftrightarrow> (\<exists>f. decode_verified_frame (ne_ed V) data = Some f \<and> frame_announces V f n c)"

text \<open>
  A registration is justified by a datagram heard, and its node is a peer, reachable through one, or
  about to be removed.
\<close>

definition reachable_node :: "'r network_manager \<Rightarrow> node_id set" where
  "reachable_node m = set (nm_known_peers m) \<union> hm_keys (nm_reachable_via m)"

definition registry_ok :: "(node_id \<Rightarrow> semantic_capability \<Rightarrow> bool) \<Rightarrow> node_id set \<Rightarrow> 'r network_manager \<Rightarrow> bool" where
  "registry_ok said doomed m \<longleftrightarrow>
     (\<forall>(n, c) \<in> provides (nm_semantic_router m). n \<in> reachable_node m \<union> doomed \<and> said n c)"

lemma registry_okI:
  assumes "registry_ok said doomed m"
    and "provides (nm_semantic_router m') \<subseteq> provides (nm_semantic_router m)"
    and "\<And>n c. said n c \<Longrightarrow> said' n c"
    and "\<And>n c. n \<in> reachable_node m \<union> doomed \<Longrightarrow> (n, c) \<in> provides (nm_semantic_router m') \<Longrightarrow> n \<in> reachable_node m' \<union> doomed'"
  shows "registry_ok said' doomed' m'"
  using assms unfolding registry_ok_def by blast

lemma registry_ok_same:
  assumes "registry_ok said doomed m" "\<And>n c. said n c \<Longrightarrow> said' n c" "doomed \<subseteq> doomed'"
    and "nm_semantic_router m' = nm_semantic_router m" "nm_known_peers m' = nm_known_peers m"
      "nm_reachable_via m' = nm_reachable_via m"
  shows "registry_ok said' doomed' m'"
  using assms(3-) by (intro registry_okI [OF assms(1) _ assms(2)]) (auto simp: reachable_node_def)

lemma fold_register_provides:
  assumes "router_inv r"
  shows "provides (fold (\<lambda>name r. if P name then register origin (semantic_new B name) r else r) names r)
     \<subseteq> provides r \<union> {(origin, semantic_new B name) |name. name \<in> set names \<and> P name}"
  using assms
proof (induction names arbitrary: r)
  case (Cons name names)
  have "provides (if P name then register origin (semantic_new B name) r else r)
      \<subseteq> provides r \<union> {(origin, semantic_new B name) |n. P name}"
    using Cons.prems by (auto simp: provides_register)
  then show ?case using Cons.IH [of "if P name then register origin (semantic_new B name) r else r"] Cons.prems
    by (auto simp: router_inv_register split: if_splits)
qed simp

lemma provides_replace:
  assumes "router_inv r"
  shows "provides (replace_registrations B origin caps r) \<subseteq>
     {(n, c) \<in> provides r. n \<noteq> origin} \<union>
     {(origin, semantic_new B name) |name. name \<in> set KNOWN_CAPABILITY_NAMES \<and>
        ai_hash (ai_intent_from_str B name) \<in> ac_intent_hash ` set caps}"
proof -
  let ?reg = "\<lambda>cap. fold (\<lambda>name r. if ai_hash (ai_intent_from_str B name) = ac_intent_hash cap
             then register origin (semantic_new B name) r else r) KNOWN_CAPABILITY_NAMES"
  have "provides (fold ?reg caps r) \<subseteq> provides r \<union>
     {(origin, semantic_new B name) |name. name \<in> set KNOWN_CAPABILITY_NAMES \<and>
        ai_hash (ai_intent_from_str B name) \<in> ac_intent_hash ` set caps}" if "router_inv r" for r :: "'a semantic_router"
    using that
  proof (induction caps arbitrary: r)
    case (Cons cap caps)
    have "router_inv (?reg cap r)" using Cons.prems by (rule fold_register_inv)
    note rest = Cons.IH [OF this]
    have "provides (?reg cap r) \<subseteq> provides r \<union> {(origin, semantic_new B name) |name.
        name \<in> set KNOWN_CAPABILITY_NAMES \<and> ai_hash (ai_intent_from_str B name) = ac_intent_hash cap}"
      using Cons.prems by (rule fold_register_provides)
    also have "\<dots> \<subseteq> provides r \<union> {(origin, semantic_new B name) |name.
        name \<in> set KNOWN_CAPABILITY_NAMES \<and> ai_hash (ai_intent_from_str B name) \<in> ac_intent_hash ` set (cap # caps)}"
      by auto
    finally show ?case using rest by (simp del: fold_simps add: fold_Cons) blast
  qed simp
  from this [OF router_inv_unregister [OF assms], of origin] show ?thesis
    by (simp add: replace_registrations_def provides_unregister [OF assms])
qed

lemma fold_unregister_provides:
  assumes "router_inv r"
  shows "provides (fold (\<lambda>n r. if P n then r else unregister_node n r) ns r) = {(n, c) \<in> provides r. n \<in> set ns \<longrightarrow> P n}"
  using assms by (induction ns arbitrary: r) (auto simp: router_inv_unregister provides_unregister)

lemma registry_ok_announce:
  assumes ok: "node_ok m" and reg: "registry_ok said doomed m" and h: "handle_announce V secs now f m = (m', es)"
  shows "registry_ok (\<lambda>n c. said n c \<or> frame_announces V f n c) doomed m'"
  using announce_cases [OF h]
proof
  assume "announce_dropped V secs now f m m'"
  then show ?thesis by (intro registry_ok_same [OF reg]) (auto simp: announce_dropped_def)
next
  assume "\<exists>origin caps. announce_accepted V secs now f m origin caps m'"
  then obtain origin caps p clock sig a l mgr fwd where *:
      "payload_decode (fr_payload f) = Some p" "ap_origin p = Some origin"
      "process_announcement (ne_ed V) secs now f (nm_announcement_mgr m) = (mgr, Some (caps, fwd))"
      "m' = m\<lparr>nm_origin_admission := a, nm_last_announce_from := l, nm_announcement_mgr := mgr,
          nm_reachable_via := (if origin \<in> set (nm_known_peers m) then nm_reachable_via m
                               else hm_insert origin (fh_sender_id (fr_header f), now) (nm_reachable_via m)),
          nm_semantic_router := replace_registrations (ne_blake3 V) origin caps (nm_semantic_router m)\<rparr>"
    unfolding announce_accepted_def Let_def by blast
  obtain clock sig where cl: "origin_claim f = Some (origin, clock, caps, sig)"
      "node_id_verify (ne_ed V) origin (origin_signing_bytes_for origin clock caps) sig"
  proof (rule process_accepts [OF *(3)])
    fix n clock sig
    assume claim: "origin_claim f = Some (n, clock, caps, sig)" "claim_valid (ne_ed V) secs (nm_announcement_mgr m) (n, clock, caps, sig)"
      and result: "\<And>clock sig. origin_claim f = Some (origin, clock, caps, sig) \<Longrightarrow>
        node_id_verify (ne_ed V) origin (origin_signing_bytes_for origin clock caps) sig \<Longrightarrow> thesis"
    have "n = origin" using claim(1) *(1,2) by (auto simp: origin_claim_def split: option.splits)
    then show thesis using claim result [of clock sig] by (simp add: claim_valid_def)
  qed
  have "reachable_node m \<union> {origin} \<subseteq> reachable_node m'" unfolding *(4) by (auto simp: reachable_node_def)
  moreover have "provides (nm_semantic_router m') \<subseteq> {(n, c) \<in> provides (nm_semantic_router m). n \<noteq> origin} \<union>
      {(origin, c) |c. frame_announces V f origin c}"
  proof -
    have "router_inv (nm_semantic_router m)" using ok by (simp add: node_ok_def)
    then show ?thesis
      using provides_replace [of "nm_semantic_router m" "ne_blake3 V" origin caps] cl
      unfolding *(4) by (force simp: frame_announces_def semantic_new_def)
  qed
  ultimately show ?thesis using reg unfolding registry_ok_def by blast
qed

text \<open>Effects that neither name a peer nor spawn a purge.\<close>

fun quiet :: "node_effect \<Rightarrow> bool" where
  "quiet (ConnectAnswered _ _ _) = False"
| "quiet (PeerDiscovered _ _ _) = False"
| "quiet (SpawnPurge _ _) = False"
| "quiet _ = True"

lemma quiet_send [simp]: "quiet (send_via d a b)"
  by (simp add: send_via_def)

lemma forward_quiet:
  assumes "try_forward_routed_frame now f addr local_id m = (b, m', es)"
  shows "list_all quiet es"
  using assms
proof (cases rule: forward_cases)
  case (relayed routing tid hop)
  then show ?thesis by (simp add: forwarded_def split: option.splits)
qed simp_all

lemma regossip_quiet: "list_all quiet (regossip V sender fwd m)"
  by (auto simp: regossip_def list_all_iff split: result.split option.split prod.split)

lemma announce_quiet: "list_all quiet (snd (handle_announce V secs now f m))"
  by (simp add: handle_announce_def Let_def case_prod_unfold regossip_quiet split: option.split)

lemma forward_keeps_registry:
  assumes "try_forward_routed_frame now f addr local_id m = (b, m', es)"
  shows "nm_semantic_router m' = nm_semantic_router m" "nm_known_peers m' = nm_known_peers m"
    "nm_reachable_via m' = nm_reachable_via m" "nm_peers m' = nm_peers m" "nm_identity m' = nm_identity m"
    "nm_discovery m' = nm_discovery m" "nm_pending_intents m' = nm_pending_intents m" "nm_peer_addrs m' = nm_peer_addrs m"
  using assms by (cases rule: forward_cases; simp add: forwarded_def)+

lemma frame_arms:
  assumes "try_forward_routed_frame now f addr (keypair_node_id (ne_ed V) (nm_identity m)) m = (False, m1, sent)"
    and "handle_axiom_frame V secs now f addr m = (m', es)"
  shows "(m', es) = handle_announce V secs now f m1 \<or>
    list_all quiet es \<and> (m' = m1 \<or> (\<exists>p. m' = m1\<lparr>nm_pending_pings := p\<rparr>) \<or> (\<exists>p. m' = m1\<lparr>nm_pending_intents := p\<rparr>))"
proof -
  have "list_all quiet (handle_intent f addr m1)" by (simp add: handle_intent_def Let_def split: option.split)
  then show ?thesis
    using assms
    by (cases "fh_frame_type (fr_header f)")
      (auto simp: handle_axiom_frame_def Let_def case_prod_unfold split: if_splits option.splits)
qed

lemma frame_quiet:
  assumes "handle_axiom_frame V secs now f addr m = (m', es)"
  shows "list_all quiet es"
proof -
  obtain b m1 sent where fwd: "try_forward_routed_frame now f addr (keypair_node_id (ne_ed V) (nm_identity m)) m = (b, m1, sent)"
    by (metis surj_pair)
  show ?thesis
  proof (cases b)
    case True
    then show ?thesis using assms fwd forward_quiet [OF fwd] by (simp add: handle_axiom_frame_def)
  next
    case False
    then show ?thesis using frame_arms [OF _ assms] fwd announce_quiet [of V secs now f m1] by (metis snd_conv)
  qed
qed

lemma registry_ok_frame:
  assumes ok: "node_ok m" and reg: "registry_ok said doomed m" and h: "handle_axiom_frame V secs now f addr m = (m', es)"
  shows "registry_ok (\<lambda>n c. said n c \<or> frame_announces V f n c) doomed m'"
proof -
  obtain b m1 sent where fwd: "try_forward_routed_frame now f addr (keypair_node_id (ne_ed V) (nm_identity m)) m = (b, m1, sent)"
    by (metis surj_pair)
  have reg1: "registry_ok said doomed m1"
    using forward_keeps_registry [OF fwd] by (intro registry_ok_same [OF reg]) simp_all
  have same: "registry_ok (\<lambda>n c. said n c \<or> frame_announces V f n c) doomed m2"
    if "nm_semantic_router m2 = nm_semantic_router m1" "nm_known_peers m2 = nm_known_peers m1"
      "nm_reachable_via m2 = nm_reachable_via m1" for m2
    by (rule registry_ok_same [OF reg1 _ _ that]) simp_all
  show ?thesis
  proof (cases b)
    case True
    then have "m' = m1" using h fwd by (simp add: handle_axiom_frame_def)
    then show ?thesis by (simp add: same)
  next
    case False
    then have "try_forward_routed_frame now f addr (keypair_node_id (ne_ed V) (nm_identity m)) m = (False, m1, sent)"
      using fwd by simp
    from frame_arms [OF this h] show ?thesis
    proof (elim disjE conjE exE)
      assume "(m', es) = handle_announce V secs now f m1"
      then show ?thesis by (intro registry_ok_announce [OF node_ok_forward [OF ok fwd] reg1]) (rule sym)
    qed (simp_all add: same)
  qed
qed

lemma registry_ok_add_peer: "registry_ok said doomed m \<Longrightarrow> registry_ok said doomed (add_peer n conn m)"
  by (rule registry_okI) (auto simp: add_peer_def reachable_node_def)

lemma registry_ok_evict:
  assumes "registry_ok said doomed m" "evict gone m = (m', [SpawnPurge g orphaned])"
  shows "registry_ok said (doomed \<union> insert g (set orphaned)) m'"
proof -
  have "g = gone" "orphaned = map fst (filter (\<lambda>(_, relay, _). relay = gone) (nm_reachable_via m))"
    using assms(2) by (auto simp: evict_def Let_def)
  then show ?thesis
    using assms(2)
    by (intro registry_okI [OF assms(1)]) (auto simp: evict_def Let_def reachable_node_def fold_remove_keys)
qed

lemma registry_ok_register_peer:
  assumes "registry_ok said doomed m" "register_peer now n addr ts m = (m', es)"
  shows "(es = [] \<and> registry_ok said doomed m') \<or>
     (\<exists>gone orphaned. es = [SpawnPurge gone orphaned] \<and> registry_ok said (doomed \<union> insert gone (set orphaned)) m')"
  using assms(2)
proof (cases rule: register_peer_cases)
  case (refreshed old)
  then show ?thesis by (simp add: registry_ok_same [OF assms(1)])
next
  case (evicted gone)
  let ?o = "map fst (filter (\<lambda>(_, relay, _). relay = gone) (nm_reachable_via m))"
  have "evict gone m = (fst (evict gone m), [SpawnPurge gone ?o])" by (simp add: evict_def Let_def)
  from registry_ok_evict [OF assms(1) this] registry_ok_add_peer evicted(4,5) this show ?thesis by (metis snd_conv)
qed (use assms(1) in \<open>simp_all add: registry_ok_add_peer\<close>)

text \<open>A purge needs its nodes no longer to be doomed: they are gone from the registry or reachable again.\<close>

lemma registry_ok_purge:
  assumes "node_ok m" "registry_ok said doomed m" "doomed \<subseteq> doomed' \<union> insert gone (set orphaned)"
  shows "registry_ok said doomed' (purge_evicted gone orphaned m)"
proof -
  have inv: "router_inv (unregister_node gone (nm_semantic_router m))"
    using assms(1) by (simp add: node_ok_def router_inv_unregister)
  have "provides (nm_semantic_router (purge_evicted gone orphaned m)) =
      {(n, c) \<in> provides (nm_semantic_router m). n \<noteq> gone \<and> (n \<in> set orphaned \<longrightarrow> hm_get (nm_reachable_via m) n \<noteq> None)}"
    using assms(1) by (auto simp: purge_evicted_def fold_unregister_provides [OF inv] provides_unregister node_ok_def)
  then show ?thesis
    using assms(3)
    by (intro registry_okI [OF assms(2)]) (auto simp: reachable_node_def purge_evicted_def hm_get_None_iff)
qed

lemma registry_ok_sweep:
  assumes "node_ok m" "registry_ok said doomed m" "doomed \<subseteq> doomed' \<union> set stale"
  shows "registry_ok said doomed' (maintenance_purge now stale m)"
proof -
  let ?keep = "\<lambda>n. n \<in> set (nm_known_peers m) \<or> hm_get (nm_reachable_via m) n \<noteq> None"
  have inv: "router_inv (nm_semantic_router m)" using assms(1) by (simp add: node_ok_def)
  have "nm_semantic_router (maintenance_purge now stale m) =
      fold (\<lambda>n r. if ?keep n then r else unregister_node n r) stale (nm_semantic_router m)"
    unfolding maintenance_purge_def by (simp, rule fold_cong) auto
  then have "provides (nm_semantic_router (maintenance_purge now stale m)) =
      {(n, c) \<in> provides (nm_semantic_router m). n \<in> set stale \<longrightarrow> n \<in> reachable_node m}"
    by (simp only: fold_unregister_provides [OF inv]) (simp add: reachable_node_def hm_get_None_iff)
  then show ?thesis
    using assms(3) by (intro registry_okI [OF assms(2)]) (auto simp: reachable_node_def maintenance_purge_def)
qed

lemma registry_ok_collect:
  assumes "registry_ok said doomed m" "maintenance_collect now m = (m', stale)"
  shows "registry_ok said (doomed \<union> set stale) m'"
  using assms(2)
  by (intro registry_okI [OF assms(1)])
    (auto simp: maintenance_collect_def Let_def reachable_node_def fold_remove_keys)

lemma registry_ok_finish:
  "registry_ok said doomed m \<Longrightarrow> registry_ok said doomed (fst (finish_request R tid provider ms outcome m))"
  by (simp add: finish_request_def Let_def registry_ok_def reachable_node_def provides_reputation
      split: wait_result.split result.split)

section \<open>A node as a machine\<close>

text \<open>
  The network manager, the discovery loop's memory, all effects so far, the tasks still to run - purges
  after an eviction, and the second halves of maintenance passes - and the datagrams heard. A step is
  one handler; which one comes next, what the clocks read, what arrives and what a send returns are
  left open.
\<close>

record 'r node_run =
  nr_mgr :: "'r network_manager"
  nr_failed :: "(ip_addr, nat) hmap"
  nr_effects :: "node_effect list"
  nr_purges :: "(node_id \<times> node_id list) list"
  nr_sweeps :: "(nat \<times> node_id list) list"
  nr_heard :: "u8 list list"

fun purges_of :: "node_effect list \<Rightarrow> (node_id \<times> node_id list) list" where
  "purges_of [] = []"
| "purges_of (SpawnPurge gone orphaned # es) = (gone, orphaned) # purges_of es"
| "purges_of (_ # es) = purges_of es"

definition emit :: "node_effect list \<Rightarrow> 'r network_manager \<Rightarrow> 'r node_run \<Rightarrow> 'r node_run" where
  "emit es m s = s\<lparr>nr_mgr := m, nr_effects := nr_effects s @ es, nr_purges := nr_purges s @ purges_of es\<rparr>"

definition node_start :: "node_env \<Rightarrow> 'r node_run \<Rightarrow> bool" where
  "node_start V s \<longleftrightarrow>
     (\<exists>identity discovery max_peers capabilities secs.
        s = \<lparr>nr_mgr = network_manager_new V identity discovery max_peers capabilities secs, nr_failed = [],
             nr_effects = [], nr_purges = [], nr_sweeps = [], nr_heard = []\<rparr>)"

inductive node_step :: "node_env \<Rightarrow> 'r f32_ops \<Rightarrow> 'r node_run \<Rightarrow> 'r node_run \<Rightarrow> bool"
  for V :: node_env and R :: "'r f32_ops" where
  ns_datagram: "receive_datagram V secs now data addr (nr_mgr s) = (m, es) \<Longrightarrow>
    node_step V R s (emit es m (s\<lparr>nr_heard := data # nr_heard s\<rparr>))"
| ns_discovery: "discovery_receive V secs now data addr (nr_failed s, nr_mgr s) = ((failed, m), es) \<Longrightarrow>
    node_step V R s (emit es m (s\<lparr>nr_failed := failed, nr_heard := data # nr_heard s\<rparr>))"
| ns_discovered: "PeerDiscovered n addr ts \<in> set (nr_effects s) \<Longrightarrow>
    on_peer_discovered V secs now sent tid tx n addr ts (nr_mgr s) = (m, es) \<Longrightarrow> node_step V R s (emit es m s)"
| ns_connect: "connect_start V secs sent addr tx (nr_mgr s) = (m, es) \<Longrightarrow> node_step V R s (emit es m s)"
| ns_connected: "reply = None \<or> (\<exists>tx n ts. reply = Some (n, ts) \<and> ConnectAnswered tx n ts \<in> set (nr_effects s)) \<Longrightarrow>
    node_step V R s (emit [] (connect_finish now addr len reply (nr_mgr s)) s)"
| ns_request: "request_intent V R sent capability payload tid tx (nr_mgr s) = (m, es, r) \<Longrightarrow> node_step V R s (emit es m s)"
| ns_request_via: "request_intent_via V sent relay dest capability payload tid tx (nr_mgr s) = (m, es, r') \<Longrightarrow>
    node_step V R s (emit es m s)"
| ns_finish: "finish_request R tid provider ms outcome (nr_mgr s) = (m, r'') \<Longrightarrow> node_step V R s (emit [] m s)"
| ns_ping_timeout: "node_step V R s (emit [] (ping_timed_out tid (nr_mgr s)) s)"
| ns_purge: "(gone, orphaned) \<in> set (nr_purges s) \<Longrightarrow>
    node_step V R s (s\<lparr>nr_mgr := purge_evicted gone orphaned (nr_mgr s), nr_purges := remove1 (gone, orphaned) (nr_purges s)\<rparr>)"
| ns_collect: "maintenance_collect now (nr_mgr s) = (m, stale) \<Longrightarrow>
    node_step V R s (s\<lparr>nr_mgr := m, nr_sweeps := (now, stale) # nr_sweeps s\<rparr>)"
| ns_sweep: "(now, stale) \<in> set (nr_sweeps s) \<Longrightarrow>
    node_step V R s (s\<lparr>nr_mgr := maintenance_purge now stale (nr_mgr s), nr_sweeps := remove1 (now, stale) (nr_sweeps s)\<rparr>)"

text \<open>Nodes whose registrations a task is about to remove.\<close>

definition doomed_by :: "(node_id \<times> node_id list) list \<Rightarrow> (nat \<times> node_id list) list \<Rightarrow> node_id set" where
  "doomed_by purges sweeps =
     (\<Union>(gone, orphaned) \<in> set purges. insert gone (set orphaned)) \<union> (\<Union>(_, stale) \<in> set sweeps. set stale)"

fun effect_ok :: "node_effect \<Rightarrow> bool" where
  "effect_ok (ConnectAnswered _ n _) = wf_node_id n"
| "effect_ok (PeerDiscovered n _ _) = wf_node_id n"
| "effect_ok _ = True"

definition node_inv :: "node_env \<Rightarrow> 'r node_run \<Rightarrow> bool" where
  "node_inv V s \<longleftrightarrow>
     node_ok (nr_mgr s) \<and> list_all effect_ok (nr_effects s) \<and>
     registry_ok (\<lambda>n c. \<exists>data \<in> set (nr_heard s). announces V data n c) (doomed_by (nr_purges s) (nr_sweeps s)) (nr_mgr s)"

text \<open>Effects that spawn no purge.\<close>

definition tame :: "node_effect list \<Rightarrow> bool" where
  "tame es \<longleftrightarrow> list_all effect_ok es \<and> purges_of es = []"

lemma quiet_tame: "list_all quiet es \<Longrightarrow> tame es"
proof (induction es)
  case (Cons e es)
  then show ?case by (cases e) (simp_all add: tame_def)
qed (simp add: tame_def)

lemma node_inv_emit:
  assumes "node_inv V s" "node_ok m" "tame es"
    and "registry_ok (\<lambda>n c. \<exists>data \<in> set (nr_heard s). announces V data n c) (doomed_by (nr_purges s) (nr_sweeps s)) m"
  shows "node_inv V (emit es m s)"
  using assms by (simp add: node_inv_def emit_def tame_def)

lemma node_inv_hear:
  assumes "node_inv V s"
  shows "node_inv V (s\<lparr>nr_heard := data # nr_heard s\<rparr>)" "node_inv V (s\<lparr>nr_failed := failed, nr_heard := data # nr_heard s\<rparr>)"
  using assms registry_ok_same [where m = "nr_mgr s" and m' = "nr_mgr s"]
  by (fastforce simp: node_inv_def intro: registry_okI)+

lemma registry_ok_heard_frame:
  assumes "node_ok m" "registry_ok (\<lambda>n c. \<exists>d \<in> set heard. announces V d n c) doomed m"
    and "decode_verified_frame (ne_ed V) data = Some f" "handle_axiom_frame V secs now f addr m = (m', es)"
  shows "registry_ok (\<lambda>n c. \<exists>d \<in> set (data # heard). announces V d n c) doomed m'"
proof -
  have "registry_ok (\<lambda>n c. (\<exists>d \<in> set heard. announces V d n c) \<or> frame_announces V f n c) doomed m'"
    by (rule registry_ok_frame [OF assms(1,2,4)])
  moreover have "announces V data n c" if "frame_announces V f n c" for n c
    using that assms(3) by (auto simp: announces_def)
  ultimately show ?thesis by (auto simp: registry_ok_def)
qed

lemma datagram_ok:
  assumes ok: "node_ok m" and reg: "registry_ok (\<lambda>n c. \<exists>d \<in> set heard. announces V d n c) doomed m"
    and r: "receive_datagram V secs now data addr m = (m', es)"
  shows "tame es" "registry_ok (\<lambda>n c. \<exists>d \<in> set (data # heard). announces V d n c) doomed m'"
proof -
  have "tame es \<and> registry_ok (\<lambda>n c. \<exists>d \<in> set (data # heard). announces V d n c) doomed m'"
  proof (cases "extract_sender_with_timestamp (ne_ed V) data")
    case None
    show ?thesis
    proof (cases "decode_verified_frame (ne_ed V) data")
      case (Some f)
      then have h: "handle_axiom_frame V secs now f addr m = (m', es)" using r None by (simp add: receive_datagram_def)
      show ?thesis
        using registry_ok_heard_frame [OF ok reg Some h] quiet_tame [OF frame_quiet [OF h]] by simp
    next
      case none: None
      then have "m' = m" "es = []" using r None by (simp_all add: receive_datagram_def)
      then show ?thesis using registry_ok_same [OF reg] by (simp add: tame_def)
    qed
  next
    case (Some h)
    then obtain n ts where h: "extract_sender_with_timestamp (ne_ed V) data = Some (n, ts)" by (cases h) simp
    have wf: "wf_node_id n" by (rule extracted_wf [OF h])
    have "m' = m \<or> m' = m\<lparr>nm_pending_connects := hm_remove addr (nm_pending_connects m)\<rparr>"
      using r h by (auto simp: receive_datagram_def Let_def split: if_splits option.splits)
    then have "registry_ok (\<lambda>n c. \<exists>d \<in> set (data # heard). announces V d n c) doomed m'"
      by (intro registry_ok_same [OF reg]) auto
    moreover have "tame es"
      using r h wf by (auto simp: receive_datagram_def Let_def tame_def split: if_splits option.splits)
    ultimately show ?thesis by simp
  qed
  then show "tame es" "registry_ok (\<lambda>n c. \<exists>d \<in> set (data # heard). announces V d n c) doomed m'" by simp_all
qed

lemma discovery_cases:
  assumes "discovery_receive V secs now data addr (failed, m) = ((failed', m'), es)"
  shows "(\<exists>f. decode_verified_frame (ne_ed V) data = Some f \<and> handle_axiom_frame V secs now f addr m = (m', es)) \<or>
     m' = m \<and> (es = [] \<or> (\<exists>n ts. extract_sender_with_timestamp (ne_ed V) data = Some (n, ts) \<and>
        hello_timestamp_is_fresh ts secs \<and> n \<noteq> keypair_node_id (ne_ed V) (nm_identity m) \<and> es = [PeerDiscovered n addr ts]))"
  using assms
  by (auto simp: discovery_receive_def Let_def case_prod_unfold split: if_splits option.splits intro: prod_eqI)

lemma discovery_ok:
  assumes ok: "node_ok m" and reg: "registry_ok (\<lambda>n c. \<exists>d \<in> set heard. announces V d n c) doomed m"
    and r: "discovery_receive V secs now data addr (failed, m) = ((failed', m'), es)"
  shows "tame es" "registry_ok (\<lambda>n c. \<exists>d \<in> set (data # heard). announces V d n c) doomed m'"
proof -
  have same: "registry_ok (\<lambda>n c. \<exists>d \<in> set (data # heard). announces V d n c) doomed m"
    by (intro registry_ok_same [OF reg]) auto
  show "tame es"
    using discovery_cases [OF r] quiet_tame frame_quiet extracted_wf by (fastforce simp: tame_def)
  show "registry_ok (\<lambda>n c. \<exists>d \<in> set (data # heard). announces V d n c) doomed m'"
    using discovery_cases [OF r] registry_ok_heard_frame [OF ok reg] same by blast
qed

text \<open>The node's own requests touch neither the registry nor the routes.\<close>

definition keeps :: "'r network_manager \<Rightarrow> 'r network_manager \<Rightarrow> bool" where
  "keeps m m' \<longleftrightarrow>
     nm_semantic_router m' = nm_semantic_router m \<and> nm_known_peers m' = nm_known_peers m \<and>
     nm_reachable_via m' = nm_reachable_via m"

lemma registry_ok_keeps: "registry_ok said doomed m \<Longrightarrow> keeps m m' \<Longrightarrow> registry_ok said doomed m'"
  by (auto simp: keeps_def intro: registry_ok_same)

lemma keeps_refl [simp]: "keeps m m"
  by (simp add: keeps_def)

lemma send_request_keeps:
  "keeps m (fst (send_request V sent capability payload tid tx provider addr routing m)) \<and>
   tame (fst (snd (send_request V sent capability payload tid tx provider addr routing m)))"
  by (simp add: send_request_def Let_def keeps_def tame_def send_via_def)

lemma request_via_keeps:
  "keeps m (fst (request_intent_via V sent relay dest capability payload tid tx m)) \<and>
   tame (fst (snd (request_intent_via V sent relay dest capability payload tid tx m)))"
  by (simp add: request_intent_via_def send_request_keeps tame_def [of "[]"] split: option.split)

lemma request_keeps:
  "keeps m (fst (request_intent V R sent capability payload tid tx m)) \<and>
   tame (fst (snd (request_intent V R sent capability payload tid tx m)))"
  by (simp add: request_intent_def Let_def case_prod_unfold send_request_keeps request_via_keeps tame_def [of "[]"]
      split: option.split list.split)

lemma connect_start_keeps:
  "keeps m (fst (connect_start V secs sent addr tx m)) \<and> tame (snd (connect_start V secs sent addr tx m))"
  by (simp add: connect_start_def Let_def keeps_def tame_def send_via_def)

lemma ping_keeps: "keeps m (fst (spawn_ping V sent tid tx n addr m)) \<and> tame (snd (spawn_ping V sent tid tx n addr m))"
  by (simp add: spawn_ping_def Let_def keeps_def tame_def send_via_def)

lemma spawn_announce_keeps: "keeps m (fst (spawn_announce V secs addr m)) \<and> tame (snd (spawn_announce V secs addr m))"
  by (simp add: spawn_announce_def Let_def case_prod_unfold keeps_def tame_def send_via_def)

lemma keeps_trans: "keeps m m1 \<Longrightarrow> keeps m1 m2 \<Longrightarrow> keeps m m2"
  by (simp add: keeps_def)

lemma purges_of_append [simp]: "purges_of (es @ es') = purges_of es @ purges_of es'"
  by (induction es rule: purges_of.induct) simp_all

lemma discovered_parts:
  assumes "on_peer_discovered V secs now sent tid tx n addr ts m = (m', es)"
  obtains m1 es1 es2 where "register_peer now n addr ts m = (m1, es1)" "keeps m1 m'" "es = es1 @ es2" "tame es2"
proof -
  obtain m1 es1 where reg: "register_peer now n addr ts m = (m1, es1)" by force
  let ?p = "spawn_ping V sent tid tx n addr m1" and ?a = "spawn_announce V secs addr (fst (spawn_ping V sent tid tx n addr m1))"
  have "m' = fst ?a" "es = es1 @ (snd ?p @ snd ?a)"
    using assms by (simp_all add: on_peer_discovered_def Let_def case_prod_unfold reg)
  moreover have "keeps m1 (fst ?a)"
    using ping_keeps [of m1 V sent tid tx n addr] spawn_announce_keeps [of "fst ?p" V secs addr] keeps_trans by blast
  moreover have "tame (snd ?p @ snd ?a)"
    using ping_keeps [of m1 V sent tid tx n addr] spawn_announce_keeps [of "fst ?p" V secs addr] by (simp add: tame_def)
  ultimately show thesis using that reg by blast
qed

lemma doomed_by_append: "doomed_by (ps @ qs) sweeps = doomed_by ps sweeps \<union> doomed_by qs []"
  by (auto simp: doomed_by_def)

lemma node_inv_discovered:
  assumes inv: "node_inv V s" and ev: "PeerDiscovered n addr ts \<in> set (nr_effects s)"
    and d: "on_peer_discovered V secs now sent tid tx n addr ts (nr_mgr s) = (m, es)"
  shows "node_inv V (emit es m s)"
proof -
  let ?said = "\<lambda>n c. \<exists>data \<in> set (nr_heard s). announces V data n c" and ?d = "doomed_by (nr_purges s) (nr_sweeps s)"
  have ok: "node_ok (nr_mgr s)" and eff: "list_all effect_ok (nr_effects s)" and reg: "registry_ok ?said ?d (nr_mgr s)"
    using inv by (simp_all add: node_inv_def)
  have "wf_node_id n" using eff ev by (force simp: list_all_iff)
  then have ok': "node_ok m" using node_ok_discovered [OF ok, where n = n] d by (metis fst_conv)
  obtain m1 es1 es2 where parts: "register_peer now n addr ts (nr_mgr s) = (m1, es1)" "keeps m1 m" "es = es1 @ es2" "tame es2"
    by (rule discovered_parts [OF d])
  have "list_all effect_ok es1 \<and> registry_ok ?said (?d \<union> doomed_by (purges_of es1) []) m1"
    using registry_ok_register_peer [OF reg parts(1)] by (auto simp: doomed_by_def)
  then have "list_all effect_ok es" "registry_ok ?said (?d \<union> doomed_by (purges_of es1) []) m"
    using parts registry_ok_keeps [OF _ parts(2)] by (simp_all add: tame_def)
  then show ?thesis
    using ok' eff parts(3,4) by (simp add: node_inv_def emit_def tame_def doomed_by_append)
qed

lemma set_remove1_insert: "set xs \<subseteq> insert x (set (remove1 x xs))"
  by (induction xs) auto

lemma doomed_after:
  "doomed_by ps sweeps \<subseteq> doomed_by (remove1 (gone, orphaned) ps) sweeps \<union> insert gone (set orphaned)"
  "doomed_by ps sweeps \<subseteq> doomed_by ps (remove1 (now, stale) sweeps) \<union> set stale"
proof -
  have *: "set ps \<subseteq> insert (gone, orphaned) (set (remove1 (gone, orphaned) ps))"
      "set sweeps \<subseteq> insert (now, stale) (set (remove1 (now, stale) sweeps))"
    by (rule set_remove1_insert)+
  show "doomed_by ps sweeps \<subseteq> doomed_by (remove1 (gone, orphaned) ps) sweeps \<union> insert gone (set orphaned)"
    using UN_mono [OF *(1), of "\<lambda>(g, os). insert g (set os)" "\<lambda>(g, os). insert g (set os)"] by (auto simp: doomed_by_def)
  show "doomed_by ps sweeps \<subseteq> doomed_by ps (remove1 (now, stale) sweeps) \<union> set stale"
    using UN_mono [OF *(2), of "\<lambda>(_, st). set st" "\<lambda>(_, st). set st"] by (auto simp: doomed_by_def)
qed

lemma node_inv_step:
  assumes inv: "node_inv V s" and step: "node_step V R s t"
  shows "node_inv V t"
proof -
  let ?said = "\<lambda>n c. \<exists>data \<in> set (nr_heard s). announces V data n c" and ?d = "doomed_by (nr_purges s) (nr_sweeps s)"
  have ok: "node_ok (nr_mgr s)" and eff: "list_all effect_ok (nr_effects s)" and reg: "registry_ok ?said ?d (nr_mgr s)"
    using inv by (simp_all add: node_inv_def)
  have own: "node_inv V (emit es m s)" if "node_ok m" "keeps (nr_mgr s) m" "tame es" for es m
    using inv that registry_ok_keeps [OF reg that(2)] by (intro node_inv_emit) simp_all
  from step show ?thesis
  proof cases
    case (ns_datagram secs now data addr m es)
    then show ?thesis
      using node_inv_emit [OF node_inv_hear(1) [OF inv, where data = data], of m es] node_ok_datagram [OF ok] datagram_ok [OF ok reg] by simp
  next
    case (ns_discovery secs now data addr failed m es)
    then show ?thesis
      using node_inv_emit [OF node_inv_hear(2) [OF inv, where data = data and failed = failed], of m es] node_ok_discovery [OF ok] discovery_ok [OF ok reg] by simp
  next
    case (ns_discovered n addr ts secs now sent tid tx m es)
    then show ?thesis using node_inv_discovered [OF inv] by simp
  next
    case (ns_connect secs sent addr tx m es)
    then show ?thesis
      using own node_ok_connect(1) [OF ok, of V secs sent addr tx] connect_start_keeps [of "nr_mgr s" V secs sent addr tx] by simp
  next
    case (ns_connected reply now addr len)
    have "node_ok (connect_finish now addr len reply (nr_mgr s))"
      using ns_connected(2) eff by (intro node_ok_connect(2) [OF ok]) (force simp: list_all_iff)
    moreover have "registry_ok ?said ?d (connect_finish now addr len reply (nr_mgr s))"
      using reg by (auto simp: connect_finish_def registry_ok_add_peer split: option.split intro: registry_ok_same)
    ultimately show ?thesis unfolding ns_connected(1) by (intro node_inv_emit [OF inv]) (simp_all add: tame_def)
  next
    case (ns_request sent capability payload tid tx m es r)
    then show ?thesis
      using own node_ok_request [OF ok, of V R sent capability payload tid tx]
        request_keeps [of "nr_mgr s" V R sent capability payload tid tx] by simp
  next
    case (ns_request_via sent relay dest capability payload tid tx m es r)
    then show ?thesis
      using own node_ok_request_via [OF ok, of V sent relay dest capability payload tid tx]
        request_via_keeps [of "nr_mgr s" V sent relay dest capability payload tid tx] by simp
  next
    case (ns_finish tid provider ms outcome m r)
    have "m = fst (finish_request R tid provider ms outcome (nr_mgr s))" using ns_finish(2) by simp
    then show ?thesis unfolding ns_finish(1)
      using node_ok_finish [OF ok] registry_ok_finish [OF reg] by (intro node_inv_emit [OF inv]) (simp_all add: tame_def)
  next
    case (ns_ping_timeout tid)
    have "node_ok (ping_timed_out tid (nr_mgr s))" "keeps (nr_mgr s) (ping_timed_out tid (nr_mgr s))"
      using ok by (simp_all add: ping_timed_out_def node_ok_def keeps_def)
    then show ?thesis unfolding ns_ping_timeout by (rule own) (simp add: tame_def)
  next
    case (ns_purge gone orphaned)
    show ?thesis
      using registry_ok_purge [OF ok reg doomed_after(1) [of _ _ gone orphaned]]
        eff node_ok_purge [OF ok] by (simp add: ns_purge(1) node_inv_def)
  next
    case (ns_collect now m stale)
    have "node_ok m" using node_ok_collect [OF ok, of now] ns_collect(2) by simp
    moreover have "registry_ok ?said (doomed_by (nr_purges s) ((now, stale) # nr_sweeps s)) m"
      using registry_ok_collect [OF reg ns_collect(2)] by (simp add: doomed_by_def Un_ac)
    ultimately show ?thesis using eff by (simp add: ns_collect(1) node_inv_def)
  next
    case (ns_sweep now stale)
    show ?thesis
      using registry_ok_sweep [OF ok reg doomed_after(2) [of _ _ now stale]] eff node_ok_maintenance_purge [OF ok] by (simp add: ns_sweep(1) node_inv_def)
  qed
qed

lemma node_inv_start:
  assumes "node_start V s"
  shows "node_inv V s"
proof -
  obtain identity discovery max_peers capabilities secs where
      s: "s = \<lparr>nr_mgr = network_manager_new V identity discovery max_peers capabilities secs, nr_failed = [],
        nr_effects = [], nr_purges = [], nr_sweeps = [], nr_heard = []\<rparr>"
    using assms by (auto simp: node_start_def)
  have "provides (nm_semantic_router (nr_mgr s)) = {}"
    by (simp add: s network_manager_new_def router_new_def provides_def)
  moreover have "node_ok (nr_mgr s)" by (simp add: s node_ok_new)
  ultimately show ?thesis by (simp add: node_inv_def registry_ok_def s)
qed

interpretation node: state_machine "node_start V" "node_step V R" "node_inv V"
  for V :: node_env and R :: "'r f32_ops"
  by unfold_locales (blast intro: node_inv_start node_inv_step)+

end
