(* ===== verification/Mesh.thy ===== *)
theory Mesh
  imports NodeRun Service
begin

text \<open>
  What nodes do for each other. The sections follow a request: which frames a node relays and how
  often, whose reply it believes, which peers it keeps, what its registry may hold, whom it asks for a
  capability, how an announcement makes a node known, and how a request and its reply pass through a
  relay. Where two nodes take part, the datagrams one handler returns are given to the handler
  of the other. The last section is a mesh of three nodes on which every property is applied.
\<close>

section \<open>Relaying\<close>

lemma receive_frame:
  "decode_verified_frame (ne_ed V) data = Some f \<Longrightarrow> receive_datagram V secs now data addr m = handle_axiom_frame V secs now f addr m"
  using not_both_kinds [of "ne_ed V" data] by (simp add: receive_datagram_def)

abbreviation hop_frame :: "frame \<Rightarrow> routing_ext \<Rightarrow> frame" where
  "hop_frame f routing \<equiv> f\<lparr>fr_routing := Some (routing\<lparr>re_ttl := re_ttl routing - 1\<rparr>)\<rparr>"

lemma hop_frame_accepted:
  assumes "decode_verified_frame E data = Some f" "fr_routing f = Some routing"
  obtains bytes where "encode_vec (hop_frame f routing) = Some bytes" "decode_verified_frame E bytes = Some (hop_frame f routing)"
proof -
  have wf: "wf_frame (hop_frame f routing)"
    using decode_verified_wf [OF assms(1)] assms(2) by (simp add: wf_frame_def)
  have "frame_verify E (hop_frame f routing) = Ok True"
    using assms by (simp add: decode_verified_iff frame_verify_ttl)
  then show thesis using that encode_vec_wf [OF wf] decode_verified_frame_bytes [OF wf] by blast
qed

lemma hop_known:
  assumes "next_hop ft tid dest m = Some hop"
  shows "hop \<in> hm_vals (nm_peer_addrs m) \<or> (ft \<in> {FtFulfill, FtError} \<and> (\<exists>t. hm_get (nm_reverse_routes m) tid = Some (hop, t)))"
proof -
  have "hm_get (nm_peer_addrs m) n = Some hop \<Longrightarrow> hop \<in> hm_vals (nm_peer_addrs m)" for n by (rule hm_get_vals)
  then show ?thesis using assms by (force simp: next_hop_def split: option.splits if_splits)
qed

lemma from_known_peer_iff: "from_known_peer addr m \<longleftrightarrow> addr \<in> hm_vals (nm_peer_addrs m)"
  by (force simp: from_known_peer_def list_ex_iff hm_vals_def)

text \<open>The cache remembers a key for as long as fewer than its capacity of others come after it.\<close>

lemma fc_insert_order:
  "fc_order (fc_insert key c) =
     (if key \<in> set (fc_seen c) then fc_order c
      else if length (fc_order c) < FORWARD_DEDUP_CAPACITY then fc_order c @ [key]
      else tl (fc_order c @ [key]))"
  by (cases "fc_order c") (simp_all add: fc_insert_def Let_def)

lemma fc_remembers_step:
  assumes "cache_ok c" "fc_order c = xs @ key # ys" "Suc (length ys) < FORWARD_DEDUP_CAPACITY"
  shows "\<exists>xs' ys'. fc_order (fc_insert k c) = xs' @ key # ys' \<and> length ys' \<le> Suc (length ys)"
proof -
  consider "k \<in> set (fc_seen c)" | "k \<notin> set (fc_seen c)" "length (fc_order c) < FORWARD_DEDUP_CAPACITY"
    | x zs where "k \<notin> set (fc_seen c)" "\<not> length (fc_order c) < FORWARD_DEDUP_CAPACITY" "xs = x # zs"
    using assms(2,3) by (cases xs) auto
  then show ?thesis
  proof cases
    case 1
    then show ?thesis using assms(2) by (intro exI [of _ xs] exI [of _ ys]) (simp add: fc_insert_order)
  next
    case 2
    then have "fc_order (fc_insert k c) = xs @ key # (ys @ [k])" using assms(2) by (simp add: fc_insert_order)
    then show ?thesis by (metis length_append_singleton order_refl)
  next
    case (3 x zs)
    then have "fc_order (fc_insert k c) = zs @ key # (ys @ [k])" using assms(2) by (simp add: fc_insert_order)
    then show ?thesis by (metis length_append_singleton order_refl)
  qed
qed

lemma fc_insert_last:
  assumes "\<not> fc_contains key c"
  shows "\<exists>xs. fc_order (fc_insert key c) = xs @ [key]"
proof (cases "fc_order c")
  case Nil
  have "FORWARD_DEDUP_CAPACITY > 0" by (simp add: FORWARD_DEDUP_CAPACITY_def)
  then show ?thesis using assms Nil by (simp add: fc_insert_order fc_contains_def)
next
  case (Cons x xs)
  then show ?thesis
    using assms by (cases "length (fc_order c) < FORWARD_DEDUP_CAPACITY") (simp_all add: fc_insert_order fc_contains_def)
qed

lemma fc_contains_insert:
  assumes "cache_ok c" "\<not> fc_contains key c"
  shows "fc_contains key (fc_insert key c)"
proof -
  have "key \<in> set (fc_order (fc_insert key c))" using fc_insert_last [OF assms(2)] by auto
  then show ?thesis using fc_insert_ok [OF assms(1), of key] by (simp add: fc_contains_def cache_ok_def)
qed

text \<open>
  C12: A node relays only what it should. Whatever verified frame arrives from whatever address: if the
  forwarding step sends anything, it is one datagram; it came from a peer, for another node, with
  hops left, and was not relayed before; it goes to a peer, or along the path its request came, never
  back to where it came from; and the next node will read from it the same verified frame with one hop
  less. A frame that is relayed is not also handled here.
\<close>

theorem relay_safe:
  assumes "decode_verified_frame E data = Some f" and ok: "node_ok m"
    and "try_forward_routed_frame now f addr local_id m = (handled, m', es)" and "es \<noteq> []"
  shows "handled \<and> (\<exists>hop bytes routing tid.
     es = [send_via (nm_discovery m) hop bytes] \<and> fr_routing f = Some routing \<and> fr_trace_id f = Some tid \<and>
     re_destination routing \<noteq> local_id \<and> re_ttl routing > 0 \<and>
     \<not> fc_contains (tid, fh_frame_type (fr_header f)) (nm_forwarded_frames m) \<and>
     fc_contains (tid, fh_frame_type (fr_header f)) (nm_forwarded_frames m') \<and>
     addr \<in> hm_vals (nm_peer_addrs m) \<and> hop \<noteq> addr \<and>
     (hop \<in> hm_vals (nm_peer_addrs m) \<or>
      fh_frame_type (fr_header f) \<in> {FtFulfill, FtError} \<and> (\<exists>t. hm_get (nm_reverse_routes m) tid = Some (hop, t))) \<and>
     decode_verified_frame E bytes = Some (f\<lparr>fr_routing := Some (routing\<lparr>re_ttl := re_ttl routing - 1\<rparr>)\<rparr>))"
  using assms(3)
proof (cases rule: forward_cases)
  case (relayed routing tid hop)
  let ?key = "(tid, fh_frame_type (fr_header f))"
  have f: "fr_routing f = Some routing" "fr_trace_id f = Some tid" "re_ttl routing > 0" "hop \<noteq> addr"
    "\<not> fc_contains ?key (nm_forwarded_frames m)" "addr \<in> hm_vals (nm_peer_addrs m)"
    "next_hop (fh_frame_type (fr_header f)) tid (re_destination routing) m = Some hop"
    "nm_forwarded_frames m' = fc_insert ?key (nm_forwarded_frames m)"
    "es = (case encode_vec (hop_frame f routing) of Some bytes \<Rightarrow> [send_via (nm_discovery m) hop bytes] | None \<Rightarrow> [])"
    using relayed(3) by (simp_all add: forwarded_def from_known_peer_iff)
  obtain bytes where bytes: "encode_vec (hop_frame f routing) = Some bytes" "decode_verified_frame E bytes = Some (hop_frame f routing)"
    by (rule hop_frame_accepted [OF assms(1) f(1)])
  have "fc_contains ?key (nm_forwarded_frames m')"
    using ok f(5) unfolding f(8) by (intro fc_contains_insert) (simp_all add: node_ok_def)
  then show ?thesis
    using relayed(1,2) f bytes hop_known [OF f(7)] by (intro conjI exI [of _ hop] exI [of _ bytes] exI [of _ routing] exI [of _ tid]) simp_all
qed (use assms(4) in simp_all)

lemma frame_cache:
  assumes "handle_axiom_frame V secs now f addr m = (m', es)"
  shows "nm_forwarded_frames m' = nm_forwarded_frames m \<or> (\<exists>k. nm_forwarded_frames m' = fc_insert k (nm_forwarded_frames m))"
proof -
  obtain b m1 sent where fwd: "try_forward_routed_frame now f addr (keypair_node_id (ne_ed V) (nm_identity m)) m = (b, m1, sent)"
    by (metis surj_pair)
  have m1: "nm_forwarded_frames m1 = nm_forwarded_frames m \<or> (\<exists>k. nm_forwarded_frames m1 = fc_insert k (nm_forwarded_frames m))"
    using fwd by (cases rule: forward_cases) (auto simp: forwarded_def)
  show ?thesis
  proof (cases b)
    case True
    then show ?thesis using m1 assms fwd by (simp add: handle_axiom_frame_def)
  next
    case False
    then have fwd': "try_forward_routed_frame now f addr (keypair_node_id (ne_ed V) (nm_identity m)) m = (False, m1, sent)"
      using fwd by simp
    have "nm_forwarded_frames m' = nm_forwarded_frames m1"
      using frame_arms [OF fwd' assms]
    proof (elim disjE conjE exE)
      assume "(m', es) = handle_announce V secs now f m1"
      then show ?thesis
        using announce_cases [of V secs now f m1 m' es] by (auto simp: announce_dropped_def announce_accepted_def Let_def)
    qed simp_all
    then show ?thesis using m1 by simp
  qed
qed

lemma fc_remembers:
  assumes "cache_ok c" "fc_order c = xs @ key # ys" "length ys + length ks < FORWARD_DEDUP_CAPACITY"
  shows "fc_contains key (fold fc_insert ks c)"
  using assms
proof (induction ks arbitrary: c xs ys)
  case Nil
  then show ?case by (auto simp: fc_contains_def cache_ok_def)
next
  case (Cons k ks)
  obtain xs' ys' where "fc_order (fc_insert k c) = xs' @ key # ys'" "length ys' \<le> Suc (length ys)"
    using fc_remembers_step [OF Cons.prems(1,2), of k] Cons.prems(3) by auto
  then show ?case using Cons.IH [OF fc_insert_ok [OF Cons.prems(1)]] Cons.prems(3) by simp
qed

text \<open>The frames a node handles in a row, with the clocks and the sender's address.\<close>

definition handle_all ::
    "node_env \<Rightarrow> (u64 \<times> nat \<times> frame \<times> socket_addr) list \<Rightarrow> 'r network_manager \<Rightarrow> 'r network_manager" where
  "handle_all V = fold (\<lambda>(secs, now, f, addr) m. fst (handle_axiom_frame V secs now f addr m))"

lemma handle_all_cache:
  "\<exists>ks. length ks \<le> length fs \<and> nm_forwarded_frames (handle_all V fs m) = fold fc_insert ks (nm_forwarded_frames m)"
proof (induction fs arbitrary: m)
  case Nil
  show ?case by (simp add: handle_all_def)
next
  case (Cons x fs)
  obtain secs now f addr where x: "x = (secs, now, f, addr)" by (cases x)
  obtain m1 es where h: "handle_axiom_frame V secs now f addr m = (m1, es)" by force
  obtain ks where ks: "length ks \<le> length fs" "nm_forwarded_frames (handle_all V fs m1) = fold fc_insert ks (nm_forwarded_frames m1)"
    using Cons by blast
  have "handle_all V (x # fs) m = handle_all V fs m1" by (simp add: handle_all_def x h)
  then show ?case
    using frame_cache [OF h]
  proof (elim disjE exE)
    fix k
    assume "handle_all V (x # fs) m = handle_all V fs m1" "nm_forwarded_frames m1 = fc_insert k (nm_forwarded_frames m)"
    then show ?thesis using ks by (intro exI [of _ "k # ks"]) simp
  qed (use ks in \<open>auto intro: exI [of _ ks]\<close>)
qed

text \<open>
  C15: A node relays a message once. After it has relayed a frame, no frame with the same trace id and
  type is relayed again before as many other frames have been handled as the cache holds, whatever
  they are, whoever sends it and however it is routed.
\<close>

theorem relayed_once:
  assumes "node_ok m" and "try_forward_routed_frame now f addr local_id m = (b, m1, es)" and "es \<noteq> []"
    and "length fs < FORWARD_DEDUP_CAPACITY"
    and "fr_trace_id f' = fr_trace_id f" "fh_frame_type (fr_header f') = fh_frame_type (fr_header f)"
    and "fr_routing f' = Some routing'" "re_destination routing' \<noteq> local_id'"
  shows "try_forward_routed_frame now' f' addr' local_id' (handle_all V fs m1) = (True, handle_all V fs m1, [])"
  using assms(2)
proof (cases rule: forward_cases)
  case (relayed routing tid hop)
  let ?key = "(tid, fh_frame_type (fr_header f))" and ?c = "nm_forwarded_frames m"
  have f: "fr_trace_id f = Some tid" "\<not> fc_contains ?key ?c" "nm_forwarded_frames m1 = fc_insert ?key ?c"
    using relayed(3) by (simp_all add: forwarded_def)
  have ok: "cache_ok (fc_insert ?key ?c)" using assms(1) by (simp add: node_ok_def fc_insert_ok)
  obtain xs where "fc_order (fc_insert ?key ?c) = xs @ ?key # []"
    using fc_insert_last [OF f(2)] by blast
  moreover obtain ks where "length ks \<le> length fs" "nm_forwarded_frames (handle_all V fs m1) = fold fc_insert ks (fc_insert ?key ?c)"
    using handle_all_cache [of fs V m1] f(3) by auto
  ultimately have "fc_contains ?key (nm_forwarded_frames (handle_all V fs m1))"
    using fc_remembers [OF ok, of xs ?key "[]" ks] assms(4) by simp
  then show ?thesis
    using forward_refused(3) [OF assms(7,8), where tid = tid and m = "handle_all V fs m1" and now = now' and addr = addr']
      f(1) assms(5,6) by simp
qed (use assms(3) in simp_all)

section \<open>Replies\<close>

lemma not_forwarded:
  assumes "try_forward_routed_frame now f addr local_id m = (False, m1, sent)"
  shows "m1 = m" "\<And>routing. fr_routing f = Some routing \<Longrightarrow> re_destination routing = local_id"
proof -
  show "m1 = m" using assms by (cases rule: forward_cases) simp_all
  fix routing
  assume r: "fr_routing f = Some routing"
  show "re_destination routing = local_id"
  proof (rule ccontr)
    assume n: "re_destination routing \<noteq> local_id"
    have "fst (try_forward_routed_frame now f addr local_id m)"
      using r n by (simp add: try_forward_routed_frame_def Let_def split: option.split)
    then show False using assms by simp
  qed
qed

lemma forward_sends:
  assumes "try_forward_routed_frame now f addr local_id m = (b, m1, es)"
  shows "IntentAnswered tx r \<notin> set es"
  using assms
proof (cases rule: forward_cases)
  case (relayed routing tid hop)
  then show ?thesis by (auto simp: forwarded_def send_via_def split: option.splits)
qed simp_all

lemma regossip_sends: "IntentAnswered tx r \<notin> set (regossip V sender fwd m)"
  by (auto simp: regossip_def send_via_def split: result.split option.split prod.split)

lemma announce_sends: "IntentAnswered tx r \<notin> set (snd (handle_announce V secs now f m))"
  by (simp add: handle_announce_def Let_def case_prod_unfold regossip_sends split: option.split)

lemma take_pending_Some:
  assumes "take_pending tid sender pending = (Some tx, pending')"
  obtains t where "tid = Some t" "hm_get pending t = Some \<lparr>pd_expected_sender = sender, pd_tx = tx\<rparr>" "pending' = hm_remove t pending"
  using assms by (auto simp: take_pending_def split: option.splits if_splits)

text \<open>
  C13: A reply is believed only from the node that was asked. If a datagram resolves a pending request
  of this node, then it is a verified frame, addressed to this node, whose sender is the provider
  recorded for the frame's trace id; the answer is its payload; and the pending entry is gone, so that
  nothing can resolve the request twice.
\<close>

theorem reply_authentic:
  assumes r: "receive_datagram V secs now data addr m = (m', es)" and a: "IntentAnswered tx answer \<in> set es"
  shows "\<exists>f tid. decode_verified_frame (ne_ed V) data = Some f \<and>
     (\<forall>routing. fr_routing f = Some routing \<longrightarrow> re_destination routing = keypair_node_id (ne_ed V) (nm_identity m)) \<and>
     fr_trace_id f = Some tid \<and>
     hm_get (nm_pending_intents m) tid = Some \<lparr>pd_expected_sender = fh_sender_id (fr_header f), pd_tx = tx\<rparr> \<and>
     m' = m\<lparr>nm_pending_intents := hm_remove tid (nm_pending_intents m)\<rparr> \<and> es = [IntentAnswered tx answer] \<and>
     (fh_frame_type (fr_header f) = FtFulfill \<and> answer = Ok (fr_payload f) \<or>
      fh_frame_type (fr_header f) = FtError \<and> answer = Err (from_utf8_lossy (fr_payload f)))"
proof -
  have "extract_sender_with_timestamp (ne_ed V) data = None"
  proof (rule ccontr)
    assume "extract_sender_with_timestamp (ne_ed V) data \<noteq> None"
    then obtain n ts where "extract_sender_with_timestamp (ne_ed V) data = Some (n, ts)" by auto
    then show False using r a by (auto simp: receive_datagram_def Let_def split: if_splits option.splits)
  qed
  then obtain f where f: "decode_verified_frame (ne_ed V) data = Some f"
    using r a by (cases "decode_verified_frame (ne_ed V) data") (auto simp: receive_datagram_def)
  have h: "handle_axiom_frame V secs now f addr m = (m', es)" using r by (simp add: receive_frame [OF f])
  obtain b m1 sent where fwd: "try_forward_routed_frame now f addr (keypair_node_id (ne_ed V) (nm_identity m)) m = (b, m1, sent)"
    by (metis surj_pair)
  have "\<not> b" using h a fwd forward_sends [OF fwd] by (auto simp: handle_axiom_frame_def)
  then have fwd: "try_forward_routed_frame now f addr (keypair_node_id (ne_ed V) (nm_identity m)) m = (False, m, sent)"
    using fwd not_forwarded(1) by simp
  obtain tx' pending where p: "take_pending (fr_trace_id f) (fh_sender_id (fr_header f)) (nm_pending_intents m) = (tx', pending)"
    by force
  have "IntentAnswered tx answer \<notin> set (handle_intent f addr m)" by (auto simp: handle_intent_def Let_def split: option.splits if_splits)
  then have "tx' = Some tx \<and> m' = m\<lparr>nm_pending_intents := pending\<rparr> \<and> es = [IntentAnswered tx answer] \<and>
     (fh_frame_type (fr_header f) = FtFulfill \<and> answer = Ok (fr_payload f) \<or>
      fh_frame_type (fr_header f) = FtError \<and> answer = Err (from_utf8_lossy (fr_payload f)))"
    using h a fwd p announce_sends [of tx answer V secs now f m]
    by (cases "fh_frame_type (fr_header f)")
      (auto simp: handle_axiom_frame_def Let_def case_prod_unfold send_via_def split: if_splits option.splits)
  moreover from this p obtain tid where "fr_trace_id f = Some tid" "pending = hm_remove tid (nm_pending_intents m)"
      "hm_get (nm_pending_intents m) tid = Some \<lparr>pd_expected_sender = fh_sender_id (fr_header f), pd_tx = tx\<rparr>"
    using take_pending_Some by metis
  ultimately show ?thesis using f not_forwarded(2) [OF fwd] by blast
qed

section \<open>Peers\<close>

lemma min_by_mem: "min_by f xs = Some x \<Longrightarrow> x \<in> set xs"
  by (induction xs arbitrary: x) (auto split: option.splits if_splits)

lemma min_by_least: "min_by f xs = Some x \<Longrightarrow> y \<in> set xs \<Longrightarrow> f x \<le> f y"
proof (induction xs arbitrary: x)
  case (Cons a xs)
  show ?case
  proof (cases "min_by f xs")
    case None
    then have "xs = []" by (cases xs) (auto split: option.splits if_splits)
    then show ?thesis using Cons.prems by simp
  next
    case (Some z)
    then have "y \<in> set xs \<Longrightarrow> f z \<le> f y" by (rule Cons.IH)
    then show ?thesis using Cons.prems Some by (auto split: if_splits)
  qed
qed simp

lemma length_hm_keys: "hm_wf m \<Longrightarrow> length m = card (hm_keys m)"
  using distinct_card [of "map fst m"] by (simp add: hm_wf_def hm_keys_def)

lemma length_hm_remove:
  assumes "hm_wf m" "hm_get m k = Some v"
  shows "Suc (length (hm_remove k m)) = length m"
proof -
  have "k \<in> hm_keys m" using assms(2) hm_get_None_iff [of m k] by simp
  then show ?thesis
    using length_hm_keys [OF assms(1)] length_hm_keys [OF hm_wf_remove [OF assms(1)], of k]
      card_Suc_Diff1 [of "hm_keys m" k] by simp
qed

lemma lru_least:
  assumes "hm_wf peers" "lru_discovered peers = Some gone"
  obtains p where "hm_get peers gone = Some p" "pc_discovered p"
    "\<And>n q. hm_get peers n = Some q \<Longrightarrow> pc_discovered q \<Longrightarrow> pc_last_seen p \<le> pc_last_seen q"
proof -
  let ?ps = "filter (\<lambda>(_, p). pc_discovered p) peers"
  obtain p where p: "min_by (\<lambda>(_, p). pc_last_seen p) ?ps = Some (gone, p)"
    using assms(2) by (auto simp: lru_discovered_def)
  then have "(gone, p) \<in> set peers" "pc_discovered p" using min_by_mem [OF p] by auto
  moreover have "pc_last_seen p \<le> pc_last_seen q" if "hm_get peers n = Some q" "pc_discovered q" for n q
    using min_by_least [OF p, of "(n, q)"] hm_get_mem [OF that(1)] that(2) by auto
  ultimately show thesis using that assms(1) by (simp add: hm_get_def hm_wf_def)
qed

text \<open>
  C16: Registration of a discovered peer. The table never grows beyond its limit this way, and no peer
  the operator connected to is dropped: a peer that disappears was a discovered one, no discovered
  peer was heard from longer ago, and its place goes to the new peer. A peer that stays keeps how it was
  learned, and its address changes only with a HELLO that carries a later time than any before.
\<close>

theorem registration_protects_peers:
  assumes "node_ok m" and "register_peer now n addr ts m = (m', es)"
  shows "length (nm_peers m') \<le> max (nm_max_peers m) (length (nm_peers m)) \<and>
     (\<forall>i p. hm_get (nm_peers m) i = Some p \<longrightarrow>
        (case hm_get (nm_peers m') i of
           None \<Rightarrow> pc_discovered p \<and> i \<noteq> n \<and> length (nm_peers m') = length (nm_peers m) \<and>
             (\<forall>j q. hm_get (nm_peers m) j = Some q \<longrightarrow> pc_discovered q \<longrightarrow> pc_last_seen p \<le> pc_last_seen q)
         | Some p' \<Rightarrow> p' = p \<or>
             i = n \<and> pc_last_hello_ts p < ts \<and>
             p' = p\<lparr>pc_addr := addr, pc_last_hello_ts := ts, pc_last_seen := now\<rparr>))"
  using assms(2)
proof (cases rule: register_peer_cases)
  case ignored
  then show ?thesis by (simp split: option.split)
next
  case (refreshed old)
  then show ?thesis by (simp add: length_hm_insert split: option.split)
next
  case added
  then show ?thesis by (auto simp: add_peer_def length_hm_insert split: option.split)
next
  case (evicted gone)
  have wf: "hm_wf (nm_peers m)" using assms(1) by (simp add: node_ok_def peers_ok_def)
  obtain p where p: "hm_get (nm_peers m) gone = Some p" "pc_discovered p"
    "\<And>n q. hm_get (nm_peers m) n = Some q \<Longrightarrow> pc_discovered q \<Longrightarrow> pc_last_seen p \<le> pc_last_seen q"
    using lru_least [OF wf evicted(3)] by blast
  have peers: "nm_peers m' = hm_insert n (discovered_peer now n addr ts) (hm_remove gone (nm_peers m))"
    by (simp add: evicted(5) add_peer_def evict_def Let_def)
  have "length (nm_peers m') = length (nm_peers m)"
    using length_hm_remove [OF wf p(1)] evicted(1) by (simp add: peers length_hm_insert)
  then show ?thesis using p evicted(1) by (auto simp: peers split: option.split)
qed

section \<open>Providers\<close>


text \<open>
  C9: The registry holds only what was announced. In every reachable state, each registered
  capability of a node stands in a claim that this node signed, carried by a verified frame among
  the datagrams heard; relays can pass claims on but not make any.
\<close>

theorem registrations_signed:
  assumes "reaches (node_start V) (node_step V R) s" and "(n, c) \<in> provides (nm_semantic_router (nr_mgr s))"
  shows "\<exists>data \<in> set (nr_heard s). \<exists>f clock caps sig.
     decode_verified_frame (ne_ed V) data = Some f \<and> origin_claim f = Some (n, clock, caps, sig) \<and>
     node_id_verify (ne_ed V) n (origin_signing_bytes_for n clock caps) sig \<and>
     sc_intent_hash c \<in> ac_intent_hash ` set caps"
proof -
  have "registry_ok (\<lambda>n c. \<exists>data \<in> set (nr_heard s). announces V data n c) (doomed_by (nr_purges s) (nr_sweeps s)) (nr_mgr s)"
    using node.inv_reaches [OF assms(1)] by (simp add: node_inv_def)
  then have "\<exists>data \<in> set (nr_heard s). announces V data n c" using assms(2) by (auto simp: registry_ok_def)
  then show ?thesis by (fastforce simp: announces_def frame_announces_def)
qed

lemma discover_head:
  assumes "router_inv r" "discover R (ai_intent_from_str B name) r = d # ds"
  shows "\<exists>c. (dr_agent d, c) \<in> provides r \<and> sc_intent_hash c = ai_hash (ai_intent_from_str B name)"
proof -
  let ?h = "ai_hash (ai_intent_from_str B name)"
  have "dr_agent d \<in> set (map dr_agent (discover R (ai_intent_from_str B name) r))" by (simp add: assms(2))
  then have "dr_agent d \<in> set_mset (mset (map dr_agent (discover R (ai_intent_from_str B name) r)))" by (simp only: set_mset_mset)
  then have "dr_agent d \<in> fst ` set (or_empty (hm_get (sr_capabilities r) ?h))"
    unfolding discover_agents by auto
  then show ?thesis using provides_hash [OF assms(1)] by force
qed

lemma discover_empty:
  assumes "router_inv r" "discover R (ai_intent_from_str B name) r = []"
  shows "(n, c) \<in> provides r \<Longrightarrow> sc_intent_hash c \<noteq> ai_hash (ai_intent_from_str B name)"
proof -
  have "mset (map dr_agent (discover R (ai_intent_from_str B name) r)) = {#}" by (simp add: assms(2))
  then have "or_empty (hm_get (sr_capabilities r) (ai_hash (ai_intent_from_str B name))) = []"
    unfolding discover_agents by (simp add: ai_intent_from_str_def)
  then show "(n, c) \<in> provides r \<Longrightarrow> sc_intent_hash c \<noteq> ai_hash (ai_intent_from_str B name)"
    using provides_hash [OF assms(1), of n c "ai_hash (ai_intent_from_str B name)"] by auto
qed

text \<open>A request that is sent: its frame and its pending entry.\<close>

definition request_sent ::
    "node_env \<Rightarrow> rstring \<Rightarrow> u8 list \<Rightarrow> trace_id \<Rightarrow> nat \<Rightarrow> node_id \<Rightarrow> socket_addr \<Rightarrow> routing_ext option
       \<Rightarrow> 'r network_manager \<Rightarrow> 'r network_manager \<times> node_effect list \<Rightarrow> bool" where
  "request_sent V capability payload tid tx provider addr routing m res \<longleftrightarrow>
     fst res = m\<lparr>nm_pending_intents := hm_insert tid \<lparr>pd_expected_sender = provider, pd_tx = tx\<rparr> (nm_pending_intents m)\<rparr> \<and>
     (\<exists>bytes f. snd res = [send_via (nm_discovery m) addr bytes] \<and> decode_verified_frame (ne_ed V) bytes = Some f \<and>
        fh_sender_id (fr_header f) = keypair_node_id (ne_ed V) (nm_identity m) \<and> fh_frame_type (fr_header f) = FtIntent \<and>
        fh_intent_hash (fr_header f) = ai_hash (ai_intent_from_str (ne_blake3 V) capability) \<and>
        fr_trace_id f = Some tid \<and> fr_payload f = payload \<and> fr_routing f = routing)"

definition can_send :: "node_env \<Rightarrow> u8 list \<Rightarrow> trace_id \<Rightarrow> 'r network_manager \<Rightarrow> bool" where
  "can_send V payload tid m \<longleftrightarrow>
     ed25519_correct (ne_ed V) \<and> (\<forall>x. length (ne_blake3 V x) = 32) \<and> wf_keypair (nm_identity m) \<and>
     wf_trace_id tid \<and> length payload \<le> MAX_PAYLOAD_SIZE"

lemma decode_empty: "decode_verified_frame E [] = None"
proof (cases "decode_verified_frame E []")
  case (Some f)
  then show ?thesis using decode_first_byte [of "[]"] by (simp add: decode_verified_iff)
qed

lemma send_request_ok:
  assumes "can_send V payload tid m" "wf_routing_opt routing"
  shows "\<exists>m' es. send_request V True capability payload tid tx provider addr routing m = (m', es, Ok ()) \<and>
     request_sent V capability payload tid tx provider addr routing m (m', es)"
proof -
  let ?h = "ai_hash (ai_intent_from_str (ne_blake3 V) capability)"
  have h: "wf_intent_hash ?h" using assms(1) by (simp add: can_send_def ai_intent_from_str_def wf_id_defs size_defs)
  obtain f where f: "decode_verified_frame (ne_ed V) (build_simple_frame (ne_ed V) (nm_identity m) FtIntent tid ?h payload routing) = Some f"
      "fh_sender_id (fr_header f) = keypair_node_id (ne_ed V) (nm_identity m)" "fh_frame_type (fr_header f) = FtIntent"
      "fh_intent_hash (fr_header f) = ?h" "fr_trace_id f = Some tid" "fr_payload f = payload" "fr_routing f = routing"
    by (rule build_simple_frame_accepted [of "ne_ed V" "nm_identity m" FtIntent tid ?h payload routing])
      (use assms h in \<open>simp_all add: can_send_def wf_frame_type_def\<close>)
  moreover from this have "build_simple_frame (ne_ed V) (nm_identity m) FtIntent tid ?h payload routing \<noteq> []"
    by (auto simp: decode_empty)
  ultimately show ?thesis
    by (auto simp: send_request_def Let_def build_intent_frame_def request_sent_def)
qed


definition offers :: "node_id \<Rightarrow> intent_hash \<Rightarrow> 'r semantic_router \<Rightarrow> bool" where
  "offers n h r \<longleftrightarrow> (\<exists>c. (n, c) \<in> provides r \<and> sc_intent_hash c = h)"

lemma offers_register:
  assumes "router_inv r"
  shows "offers n h r \<Longrightarrow> offers n h (register n cap r)" "sc_intent_hash cap = h \<Longrightarrow> offers n h (register n cap r)"
proof -
  have p: "provides (register n cap r) = {(m, c) \<in> provides r. m \<noteq> n \<or> sc_intent_hash c \<noteq> sc_intent_hash cap} \<union> {(n, cap)}"
    by (rule provides_register [OF assms])
  show "sc_intent_hash cap = h \<Longrightarrow> offers n h (register n cap r)" by (auto simp: offers_def p)
  then show "offers n h r \<Longrightarrow> offers n h (register n cap r)"
    by (cases "sc_intent_hash cap = h") (auto simp: offers_def p)
qed

lemma offers_fold_register:
  fixes r :: "'r semantic_router"
  assumes "router_inv r"
  shows "offers n h r \<Longrightarrow> offers n h (fold (\<lambda>x r. if P x then register n (c x) r else r) xs r)"
    and "x \<in> set xs \<Longrightarrow> P x \<Longrightarrow> sc_intent_hash (c x) = h \<Longrightarrow> offers n h (fold (\<lambda>x r. if P x then register n (c x) r else r) xs r)"
proof -
  have keep: "router_inv r \<Longrightarrow> offers n h r \<Longrightarrow> offers n h (fold (\<lambda>x r. if P x then register n (c x) r else r) xs r)"
    for r :: "'r semantic_router" and xs
    by (induction xs arbitrary: r) (simp_all add: offers_register(1) router_inv_register)
  then show "offers n h r \<Longrightarrow> offers n h (fold (\<lambda>x r. if P x then register n (c x) r else r) xs r)" using assms by (simp add: keep)
  show "x \<in> set xs \<Longrightarrow> P x \<Longrightarrow> sc_intent_hash (c x) = h \<Longrightarrow> offers n h (fold (\<lambda>x r. if P x then register n (c x) r else r) xs r)"
    using assms
  proof (induction xs arbitrary: r)
    case (Cons y xs)
    show ?case
    proof (cases "x = y")
      case True
      then have "offers n h (register n (c x) r)" by (intro offers_register(2) Cons.prems)
      then show ?thesis using True Cons.prems by (simp add: keep router_inv_register)
    next
      case False
      then show ?thesis using Cons by (simp add: router_inv_register)
    qed
  qed simp
qed

lemma replace_offers:
  assumes "router_inv r" "name \<in> set KNOWN_CAPABILITY_NAMES"
    and "ai_hash (ai_intent_from_str B name) \<in> ac_intent_hash ` set caps"
  shows "offers origin (ai_hash (ai_intent_from_str B name)) (replace_registrations B origin caps r)"
proof -
  let ?h = "ai_hash (ai_intent_from_str B name)"
  let ?reg = "\<lambda>cap. fold (\<lambda>name r. if ai_hash (ai_intent_from_str B name) = ac_intent_hash cap
             then register origin (semantic_new B name) r else r) KNOWN_CAPABILITY_NAMES"
  have keep: "router_inv r \<Longrightarrow> offers origin ?h r \<Longrightarrow> offers origin ?h (fold ?reg caps r)" for r :: "'a semantic_router" and caps
    by (induction caps arbitrary: r) (simp_all add: offers_fold_register(1) fold_register_inv)
  have "router_inv r \<Longrightarrow> offers origin ?h (fold ?reg caps r)" for r :: "'a semantic_router"
    using assms(3)
  proof (induction caps arbitrary: r)
    case (Cons cap caps)
    have inv: "router_inv (?reg cap r)" using Cons.prems(1) by (rule fold_register_inv)
    show ?case
    proof (cases "?h = ac_intent_hash cap")
      case True
      have "offers origin ?h (?reg cap r)"
        by (rule offers_fold_register(2) [OF Cons.prems(1) assms(2)]) (simp_all add: True semantic_new_def)
      then show ?thesis using keep [OF inv] by simp
    next
      case False
      then show ?thesis using Cons.IH [OF inv] Cons.prems(2) by simp
    qed
  qed simp
  then show ?thesis by (simp add: replace_registrations_def router_inv_unregister [OF assms(1)])
qed

text \<open>When node \<open>a\<close> can take an announcement of node \<open>b\<close>: both are sound, \<open>b\<close> is a peer, and nothing holds it up.\<close>

definition hears :: "node_env \<Rightarrow> u64 \<Rightarrow> u64 \<Rightarrow> nat \<Rightarrow> 'r network_manager \<Rightarrow> 'r network_manager \<Rightarrow> bool" where
  "hears V secs secs' now b a \<longleftrightarrow>
     (let n = keypair_node_id (ne_ed V) (nm_identity b); mgr = nm_announcement_mgr b; clock = announcement_clock secs mgr in
      ed25519_correct (ne_ed V) \<and> wf_keypair (nm_identity b) \<and> am_identity mgr = nm_identity b \<and>
      length (am_local_capabilities mgr) < 65536 \<and> list_all wf_announced (am_local_capabilities mgr) \<and>
      physical clock \<le> MAX_PHYSICAL \<and> within_skew secs' (physical clock) \<and>
      node_ok a \<and> n \<in> set (nm_known_peers a) \<and> n \<noteq> keypair_node_id (ne_ed V) (nm_identity a) \<and>
      fst (admit_origin now n n (nm_origin_admission a)) \<and> fst (announce_rate_ok now (n, n) (nm_last_announce_from a)) \<and>
      list_ex (\<lambda>cap. is_new n clock (ac_intent_hash cap) (am_seen (nm_announcement_mgr a))) (am_local_capabilities mgr))"

lemma handle_announce_accepts:
  assumes "fh_sender_id (fr_header f) \<in> set (nm_known_peers m)"
    and "origin_claim f = Some (origin, clock, caps, sig)"
    and "node_id_verify (ne_ed V) origin (origin_signing_bytes_for origin clock caps) sig" "within_skew secs (physical clock)"
    and "fst (admit_origin now (fh_sender_id (fr_header f)) origin (nm_origin_admission m))"
    and "fst (announce_rate_ok now (fh_sender_id (fr_header f), origin) (nm_last_announce_from m))"
    and "process_announcement (ne_ed V) secs now f (nm_announcement_mgr m) = (mgr, Some (caps, fwd))"
  shows "nm_semantic_router (fst (handle_announce V secs now f m)) = replace_registrations (ne_blake3 V) origin caps (nm_semantic_router m)"
proof -
  obtain p where p: "payload_decode (fr_payload f) = Some p" "ap_origin p = Some origin" "ap_origin_clock p = Some clock"
      "ap_origin_signature p = Some sig" "ap_capabilities p = caps"
    using assms(2) by (auto simp: origin_claim_def split: option.splits)
  have "origin_clock_is_fresh (physical clock) secs" using assms(4) by (simp add: within_skew_def origin_clock_is_fresh_def)
  then show ?thesis
    using assms p by (simp add: handle_announce_def Let_def case_prod_unfold)
qed

lemma announcement_sent:
  assumes "hears V secs secs' now b a"
  obtains b' bytes where "spawn_announce V secs to_addr b = (b', [send_via (nm_discovery b) to_addr bytes])"
    "bytes = sign_and_encode_frame (ne_ed V) (nm_identity b) (snd (create_announcement (ne_ed V) secs MAX_ROUTE_INDIRECTION (nm_announcement_mgr b)))"
    "nm_semantic_router (fst (receive_datagram V secs' now bytes from_addr a)) =
       replace_registrations (ne_blake3 V) (keypair_node_id (ne_ed V) (nm_identity b))
         (am_local_capabilities (nm_announcement_mgr b)) (nm_semantic_router a)"
proof -
  let ?E = "ne_ed V" and ?mgr = "nm_announcement_mgr b" and ?n = "keypair_node_id (ne_ed V) (nm_identity b)"
  have h: "ed25519_correct ?E" "wf_keypair (am_identity ?mgr)" "am_identity ?mgr = nm_identity b"
      "length (am_local_capabilities ?mgr) < 65536" "list_all wf_announced (am_local_capabilities ?mgr)"
      "physical (announcement_clock secs ?mgr) \<le> MAX_PHYSICAL" "within_skew secs' (physical (announcement_clock secs ?mgr))"
      "node_ok a" "?n \<in> set (nm_known_peers a)" "?n \<noteq> keypair_node_id ?E (nm_identity a)"
      "fst (admit_origin now ?n ?n (nm_origin_admission a))" "fst (announce_rate_ok now (?n, ?n) (nm_last_announce_from a))"
    and "list_ex (\<lambda>cap. is_new ?n (announcement_clock secs ?mgr) (ac_intent_hash cap) (am_seen (nm_announcement_mgr a)))
      (am_local_capabilities ?mgr)"
    using assms(1) by (simp_all add: hears_def Let_def)
  then obtain cap where cap: "cap \<in> set (am_local_capabilities ?mgr)"
      "is_new ?n (announcement_clock secs ?mgr) (ac_intent_hash cap) (am_seen (nm_announcement_mgr a))"
    by (auto simp: list_ex_iff)
  have id_a: "am_identity (nm_announcement_mgr a) = nm_identity a" using h(8) by (simp add: node_ok_def)
  obtain mgr' f where f: "create_announcement ?E secs MAX_ROUTE_INDIRECTION ?mgr = (mgr', f)" by force
  let ?bytes = "sign_and_encode_frame ?E (nm_identity b) f"
    and ?g = "f\<lparr>fr_auth := AuthSignature (keypair_sign ?E (am_identity ?mgr) (signature_data f))\<rparr>"
  note v = announcement_verified [OF h(1,2) f h(4-6)]
  have g: "decode_verified_frame ?E ?bytes = Some ?g" using v(1) h(3) by simp
  then have "?bytes \<noteq> []" using decode_empty by fastforce
  then have sent: "spawn_announce V secs to_addr b = (b\<lparr>nm_announcement_mgr := mgr'\<rparr>, [send_via (nm_discovery b) to_addr ?bytes])"
    by (simp add: spawn_announce_def f)
  obtain sig where claim: "origin_claim ?g = Some (?n, announcement_clock secs ?mgr, am_local_capabilities ?mgr, sig)"
      "node_id_verify ?E ?n (origin_signing_bytes_for ?n (announcement_clock secs ?mgr) (am_local_capabilities ?mgr)) sig"
    using create_claim(1) [OF h(1,2) f h(4-6)] h(3) by (auto simp: origin_claim_def)
  obtain r' fwd where pr: "process_announcement ?E secs' now ?g (nm_announcement_mgr a) = (r', Some (am_local_capabilities ?mgr, fwd))"
    using created_accepted [OF h(1,2) f h(4-6), of "nm_announcement_mgr a" secs' cap ?g now] cap h(3,7,10) id_a by auto
  have "try_forward_routed_frame now ?g from_addr (keypair_node_id ?E (nm_identity a)) a = (False, a, [])"
    using v(3) by (intro forward_here(1)) simp
  then have "receive_datagram V secs' now ?bytes from_addr a = handle_announce V secs' now ?g a"
    using v(2) by (simp add: receive_frame [OF g] handle_axiom_frame_def)
  moreover have "nm_semantic_router (fst (handle_announce V secs' now ?g a))
      = replace_registrations (ne_blake3 V) ?n (am_local_capabilities ?mgr) (nm_semantic_router a)"
    using h v(4) claim pr by (intro handle_announce_accepts) simp_all
  ultimately show thesis using that sent f by simp
qed

text \<open>
  C17: An announcement makes its sender a provider. What a node sends with its announcement, a
  peer for which it is new and timely takes from the wire, and from then on the peer's
  registry has the node as a provider of every capability it announced that the peer knows by name.
\<close>

theorem announcement_registers:
  assumes "hears V secs secs' now b a"
    and "name \<in> set KNOWN_CAPABILITY_NAMES"
    and "ai_hash (ai_intent_from_str (ne_blake3 V) name) \<in> ac_intent_hash ` set (am_local_capabilities (nm_announcement_mgr b))"
  shows "\<exists>b' bytes c. spawn_announce V secs to_addr b = (b', [send_via (nm_discovery b) to_addr bytes]) \<and>
     (keypair_node_id (ne_ed V) (nm_identity b), c)
       \<in> provides (nm_semantic_router (fst (receive_datagram V secs' now bytes from_addr a))) \<and>
     sc_intent_hash c = ai_hash (ai_intent_from_str (ne_blake3 V) name)"
proof -
  let ?n = "keypair_node_id (ne_ed V) (nm_identity b)"
  obtain b' bytes where sent: "spawn_announce V secs to_addr b = (b', [send_via (nm_discovery b) to_addr bytes])"
      "nm_semantic_router (fst (receive_datagram V secs' now bytes from_addr a)) =
         replace_registrations (ne_blake3 V) ?n (am_local_capabilities (nm_announcement_mgr b)) (nm_semantic_router a)"
    using announcement_sent [OF assms(1), of to_addr from_addr] by metis
  have "router_inv (nm_semantic_router a)" using assms(1) by (simp add: hears_def Let_def node_ok_def)
  from replace_offers [OF this assms(2,3), of ?n] sent(2)
  obtain c where "(?n, c) \<in> provides (nm_semantic_router (fst (receive_datagram V secs' now bytes from_addr a)))"
      "sc_intent_hash c = ai_hash (ai_intent_from_str (ne_blake3 V) name)"
    by (auto simp: offers_def)
  then show ?thesis using sent(1) by blast
qed

section \<open>Requests through a relay\<close>

lemma fc_insert_contains: "fc_contains k (fc_insert k' c) \<Longrightarrow> k = k' \<or> fc_contains k c"
  by (auto simp: fc_contains_def fc_insert_def Let_def split: if_splits list.splits)

lemma relays_directly:
  assumes f: "decode_verified_frame (ne_ed V) data = Some f" "fr_routing f = Some routing" "fr_trace_id f = Some tid"
    and r: "re_destination routing \<noteq> keypair_node_id (ne_ed V) (nm_identity m)" "re_ttl routing > 0"
    and a: "addr \<in> hm_vals (nm_peer_addrs m)" "hm_get (nm_peer_addrs m) (re_destination routing) = Some hop" "hop \<noteq> addr"
    and k: "\<not> fc_contains (tid, fh_frame_type (fr_header f)) (nm_forwarded_frames m)"
  shows "\<exists>m' bytes. receive_datagram V secs now data addr m = (m', [send_via (nm_discovery m) hop bytes]) \<and>
     decode_verified_frame (ne_ed V) bytes = Some (hop_frame f routing) \<and>
     nm_peer_addrs m' = nm_peer_addrs m \<and> nm_identity m' = nm_identity m \<and> nm_discovery m' = nm_discovery m \<and>
     nm_forwarded_frames m' = fc_insert (tid, fh_frame_type (fr_header f)) (nm_forwarded_frames m)"
proof -
  have n: "next_hop (fh_frame_type (fr_header f)) tid (re_destination routing) m = Some hop" using a(2) by (simp add: next_hop_def)
  have "re_ttl routing \<noteq> 0" "from_known_peer addr m" using r(2) a(1) by (auto simp: from_known_peer_iff)
  then obtain m' es where fwd: "try_forward_routed_frame now f addr (keypair_node_id (ne_ed V) (nm_identity m)) m = (True, m', es)"
      "forwarded now f addr routing tid hop m (m', es)"
    using forward_rest(4) [OF f(2) r(1) _ f(3) k _ a(3) n, where now = now] by auto
  obtain bytes where "encode_vec (hop_frame f routing) = Some bytes" "decode_verified_frame (ne_ed V) bytes = Some (hop_frame f routing)"
    by (rule hop_frame_accepted [OF f(1,2)])
  then show ?thesis
    using fwd by (auto simp: receive_frame [OF f(1)] handle_axiom_frame_def forwarded_def)
qed

abbreviation self :: "node_env \<Rightarrow> 'r network_manager \<Rightarrow> node_id" where
  "self V m \<equiv> keypair_node_id (ne_ed V) (nm_identity m)"

abbreviation route_to :: "node_id \<Rightarrow> routing_ext" where
  "route_to n \<equiv> routing_ext_new n DEFAULT_ROUTING_TTL"

lemma route_to_simps [simp]:
  "re_destination (route_to n) = n" "re_ttl (route_to n) > 0" "wf_routing_opt (Some (route_to n)) = wf_node_id n"
  by (simp_all add: routing_ext_new_def DEFAULT_ROUTING_TTL_def wf_routing_opt_def)

lemma request_via_ok:
  assumes "can_send V payload tid m" "hm_get (nm_peers m) relay = Some p" "wf_node_id dest"
  obtains m' bytes f where "request_intent_via V True relay dest capability payload tid tx m
        = (m', [send_via (nm_discovery m) (pc_addr p) bytes], Ok ())"
    "nm_pending_intents m' = hm_insert tid \<lparr>pd_expected_sender = dest, pd_tx = tx\<rparr> (nm_pending_intents m)"
    "nm_identity m' = nm_identity m" "decode_verified_frame (ne_ed V) bytes = Some f"
    "fh_sender_id (fr_header f) = keypair_node_id (ne_ed V) (nm_identity m)" "fh_frame_type (fr_header f) = FtIntent"
    "fh_intent_hash (fr_header f) = ai_hash (ai_intent_from_str (ne_blake3 V) capability)" "fr_trace_id f = Some tid"
    "fr_payload f = payload" "fr_routing f = Some (route_to dest)"
proof -
  obtain m' es where r: "send_request V True capability payload tid tx dest (pc_addr p) (Some (route_to dest)) m = (m', es, Ok ())"
      "request_sent V capability payload tid tx dest (pc_addr p) (Some (route_to dest)) m (m', es)"
    using send_request_ok [OF assms(1), of "Some (route_to dest)"] assms(3) by (metis route_to_simps(3))
  obtain bytes f where "es = [send_via (nm_discovery m) (pc_addr p) bytes]" "decode_verified_frame (ne_ed V) bytes = Some f"
      "fh_sender_id (fr_header f) = keypair_node_id (ne_ed V) (nm_identity m)" "fh_frame_type (fr_header f) = FtIntent"
      "fh_intent_hash (fr_header f) = ai_hash (ai_intent_from_str (ne_blake3 V) capability)" "fr_trace_id f = Some tid"
      "fr_payload f = payload" "fr_routing f = Some (route_to dest)"
    using r(2) by (auto simp: request_sent_def)
  moreover have "m' = m\<lparr>nm_pending_intents := hm_insert tid \<lparr>pd_expected_sender = dest, pd_tx = tx\<rparr> (nm_pending_intents m)\<rparr>"
    using r(2) by (simp add: request_sent_def)
  ultimately show thesis
    using that [of m' bytes f] r(1) assms(2) by (simp add: request_intent_via_def)
qed

lemma intent_spawns:
  assumes "decode_verified_frame (ne_ed V) bytes = Some f" "fr_routing f = Some routing" "fr_trace_id f = Some tid"
    and "re_destination routing = keypair_node_id (ne_ed V) (nm_identity m)" "fh_frame_type (fr_header f) = FtIntent"
    and "addr \<in> hm_vals (nm_peer_addrs m)"
  shows "receive_datagram V secs now bytes addr m = (m, [SpawnDispatch addr
     \<lparr>rt_intent_hash = fh_intent_hash (fr_header f), rt_trace_id = tid, rt_routing = Some (route_to (fh_sender_id (fr_header f)))\<rparr>
     (fr_payload f) (fh_sender_id (fr_header f))])"
  using assms(2-) forward_here(2) [OF assms(2,4), where now = now and addr = addr and m = m]
  by (simp add: receive_frame [OF assms(1)] handle_axiom_frame_def handle_intent_def from_known_peer_iff)

lemma task_reply:
  assumes "fst (intent_task V L C d secs now later new_id addr q payload sender st) = [send_via d addr bytes]"
    and "ed25519_correct (ne_ed V)" "wf_keypair (dc_identity C)" "wf_reply_to q"
  obtains f where "decode_verified_frame (ne_ed V) bytes = Some f"
    "fh_sender_id (fr_header f) = keypair_node_id (ne_ed V) (dc_identity C)" "fh_frame_type (fr_header f) \<in> {FtFulfill, FtError}"
    "fr_trace_id f = Some (rt_trace_id q)" "fr_routing f = rt_routing q"
proof -
  let ?reply = "fst (dispatch_intent V L C secs now later new_id q payload sender st)"
  have "(if ?reply = [] then [] else [send_via d addr ?reply]) = [send_via d addr bytes]"
    using assms(1) by (simp add: intent_task_def case_prod_unfold Let_def)
  then have "?reply = bytes" "bytes \<noteq> []" by (simp_all add: send_via_def split: if_splits)
  then have "verified_reply V C q bytes" "bytes \<noteq> []"
    using dispatch_reply_verified [OF assms(2-4), of L secs now later new_id payload sender st] by simp_all
  then show thesis using that unfolding verified_reply_def by blast
qed

lemma reply_resolves:
  assumes "decode_verified_frame (ne_ed V) bytes = Some f" "fr_routing f = Some routing" "fr_trace_id f = Some tid"
    and "re_destination routing = keypair_node_id (ne_ed V) (nm_identity m)" "fh_frame_type (fr_header f) \<in> {FtFulfill, FtError}"
    and "hm_get (nm_pending_intents m) tid = Some \<lparr>pd_expected_sender = fh_sender_id (fr_header f), pd_tx = tx\<rparr>"
  shows "\<exists>m' answer. receive_datagram V secs now bytes addr m = (m', [IntentAnswered tx answer]) \<and>
     hm_get (nm_pending_intents m') tid = None"
proof -
  have t: "take_pending (fr_trace_id f) (fh_sender_id (fr_header f)) (nm_pending_intents m) = (Some tx, hm_remove tid (nm_pending_intents m))"
    using assms(3,6) by (simp add: take_pending_def)
  have "fh_frame_type (fr_header f) = FtFulfill \<or> fh_frame_type (fr_header f) = FtError" using assms(5) by simp
  then show ?thesis
    using forward_here(2) [OF assms(2,4), where now = now and addr = addr and m = m]
    by (elim disjE) (simp_all add: receive_frame [OF assms(1)] handle_axiom_frame_def t)
qed

text \<open>
  C11: A request through a relay is answered. Node \<open>a\<close> asks \<open>b\<close> through their common peer \<open>r\<close>. The relay
  sends the request on to \<open>b\<close>; \<open>b\<close> dispatches it as coming from \<open>a\<close>; and if the dispatched task produces a
  reply at all, which goes back to the relay, the relay sends it on to \<open>a\<close>, where it resolves the
  request - whatever the clocks say, the payload is, and the capability answers.
\<close>

theorem relayed_request_answered:
  assumes send: "can_send V payload tid a" and kb: "wf_keypair (nm_identity b)" "dc_identity C = nm_identity b"
    and ids: "self V a \<noteq> self V r" "self V b \<noteq> self V r"
    and at_a: "hm_get (nm_peers a) (self V r) = Some p" "pc_addr p = addr_r"
    and at_r: "hm_get (nm_peer_addrs r) (self V a) = Some addr_a" "hm_get (nm_peer_addrs r) (self V b) = Some addr_b" "addr_a \<noteq> addr_b"
    and new: "\<forall>ft \<in> {FtIntent, FtFulfill, FtError}. \<not> fc_contains (tid, ft) (nm_forwarded_frames r)"
    and at_b: "addr_r \<in> hm_vals (nm_peer_addrs b)"
  shows "\<exists>a1 bytes1 r1 bytes2 q.
     request_intent_via V True (self V r) (self V b) capability payload tid tx a = (a1, [send_via (nm_discovery a) addr_r bytes1], Ok ()) \<and>
     receive_datagram V secs_r now_r bytes1 addr_a r = (r1, [send_via (nm_discovery r) addr_b bytes2]) \<and>
     receive_datagram V secs_b now_b bytes2 addr_r b = (b, [SpawnDispatch addr_r q payload (self V a)]) \<and>
     rt_intent_hash q = ai_hash (ai_intent_from_str (ne_blake3 V) capability) \<and>
     (\<forall>bytes3. fst (intent_task V L C (nm_discovery b) secs_d now_d later_d new_id addr_r q payload (self V a) st)
          = [send_via (nm_discovery b) addr_r bytes3] \<longrightarrow>
        (\<exists>r2 bytes4 a2 answer.
           receive_datagram V secs_r' now_r' bytes3 addr_b r1 = (r2, [send_via (nm_discovery r) addr_a bytes4]) \<and>
           receive_datagram V secs_a now_a bytes4 addr_r a1 = (a2, [IntentAnswered tx answer]) \<and>
           hm_get (nm_pending_intents a2) tid = None))"
proof -
  let ?E = "ne_ed V" and ?A = "self V a" and ?B = "self V b" and ?relay = "self V r"
  have E: "ed25519_correct ?E" and wf: "wf_node_id ?A" "wf_node_id ?B"
    using send kb(1) keypair_node_id_wf by (auto simp: can_send_def)
  obtain a1 bytes1 f1 where req: "request_intent_via V True ?relay ?B capability payload tid tx a
        = (a1, [send_via (nm_discovery a) addr_r bytes1], Ok ())"
      "nm_pending_intents a1 = hm_insert tid \<lparr>pd_expected_sender = ?B, pd_tx = tx\<rparr> (nm_pending_intents a)"
      "nm_identity a1 = nm_identity a"
    and f1: "decode_verified_frame ?E bytes1 = Some f1" "fh_sender_id (fr_header f1) = ?A" "fh_frame_type (fr_header f1) = FtIntent"
      "fh_intent_hash (fr_header f1) = ai_hash (ai_intent_from_str (ne_blake3 V) capability)" "fr_trace_id f1 = Some tid"
      "fr_payload f1 = payload" "fr_routing f1 = Some (route_to ?B)"
    using request_via_ok [OF send at_a(1) wf(2), of capability tx] unfolding at_a(2) by blast
  have known: "addr_a \<in> hm_vals (nm_peer_addrs r)" "addr_b \<in> hm_vals (nm_peer_addrs r)"
    using at_r(1,2) by (auto intro: hm_get_vals)
  obtain r1 bytes2 where hop1: "receive_datagram V secs_r now_r bytes1 addr_a r = (r1, [send_via (nm_discovery r) addr_b bytes2])"
      "decode_verified_frame ?E bytes2 = Some (hop_frame f1 (route_to ?B))" "nm_peer_addrs r1 = nm_peer_addrs r"
      "nm_identity r1 = nm_identity r" "nm_discovery r1 = nm_discovery r"
      "nm_forwarded_frames r1 = fc_insert (tid, fh_frame_type (fr_header f1)) (nm_forwarded_frames r)"
    using relays_directly [OF f1(1,7,5), of r addr_a addr_b secs_r now_r] ids(2) known(1) at_r(2,3) new route_to_simps(2) [of ?B]
    unfolding f1(3) route_to_simps(1) by blast
  let ?q = "\<lparr>rt_intent_hash = fh_intent_hash (fr_header f1), rt_trace_id = tid, rt_routing = Some (route_to ?A)\<rparr>"
  have spawn: "receive_datagram V secs_b now_b bytes2 addr_r b = (b, [SpawnDispatch addr_r ?q payload ?A])"
    using intent_spawns [OF hop1(2), where m = b and addr = addr_r and tid = tid and secs = secs_b and now = now_b] f1 at_b
    by (simp add: routing_ext_new_def)
  have q: "wf_reply_to ?q"
    using decode_verified_wf [OF f1(1)] wf(1) send
    by (simp add: wf_reply_to_def can_send_def wf_frame_def wf_header_def)
  have "\<exists>r2 bytes4 a2 answer. receive_datagram V secs_r' now_r' bytes3 addr_b r1 = (r2, [send_via (nm_discovery r) addr_a bytes4]) \<and>
         receive_datagram V secs_a now_a bytes4 addr_r a1 = (a2, [IntentAnswered tx answer]) \<and> hm_get (nm_pending_intents a2) tid = None"
    if task: "fst (intent_task V L C (nm_discovery b) secs_d now_d later_d new_id addr_r ?q payload ?A st) = [send_via (nm_discovery b) addr_r bytes3]"
    for bytes3
  proof -
    obtain f3 where f3: "decode_verified_frame ?E bytes3 = Some f3" "fh_sender_id (fr_header f3) = ?B"
        "fh_frame_type (fr_header f3) \<in> {FtFulfill, FtError}" "fr_trace_id f3 = Some tid" "fr_routing f3 = Some (route_to ?A)"
      by (rule task_reply [OF task E]) (use kb q in simp_all)
    have fresh: "\<not> fc_contains (tid, fh_frame_type (fr_header f3)) (nm_forwarded_frames r1)"
      using f3(3) f1(3) new fc_insert_contains unfolding hop1(6) by fastforce
    obtain r2 bytes4 where hop2: "receive_datagram V secs_r' now_r' bytes3 addr_b r1 = (r2, [send_via (nm_discovery r) addr_a bytes4])"
        "decode_verified_frame ?E bytes4 = Some (hop_frame f3 (route_to ?A))"
      using relays_directly [OF f3(1,5,4), of r1 addr_b addr_a secs_r' now_r'] ids(1) known(2) at_r(1,3) fresh
        route_to_simps(2) [of ?A] unfolding hop1(3-5) route_to_simps(1) by blast
    have "\<exists>a2 answer. receive_datagram V secs_a now_a bytes4 addr_r a1 = (a2, [IntentAnswered tx answer]) \<and> hm_get (nm_pending_intents a2) tid = None"
      using f3 req(2,3) 
      by (intro reply_resolves [OF hop2(2), where routing = "(route_to ?A)\<lparr>re_ttl := re_ttl (route_to ?A) - 1\<rparr>"]) (simp_all add: routing_ext_new_def)
    then show ?thesis using hop2(1) by blast
  qed
  then show ?thesis using req(1) hop1(1) spawn f1(4)
    by (intro exI [of _ a1] exI [of _ bytes1] exI [of _ r1] exI [of _ bytes2] exI [of _ ?q]) simp
qed

section \<open>What an eviction takes along\<close>

text \<open>
  C36: An eviction makes a node forget what a direct peer offers. Suppose a peer was first known
  through a relay and has since become a peer itself, so that the route through the relay is still
  recorded. When the relay is evicted to admit another peer, the cleanup task also removes the
  registrations of that peer, although it stays a peer with its address; the periodic maintenance, in
  the same situation, keeps them.
\<close>

theorem eviction_forgets_direct_peer:
  assumes "node_ok m" and "register_peer now n addr ts m = (m', es)" and "SpawnPurge gone orphaned \<in> set es"
    and "hm_get (nm_reachable_via m) peer = Some (gone, t)"
    and "hm_get (nm_peer_addrs m) peer = Some a" "peer \<noteq> gone" "peer \<noteq> n"
  shows "hm_get (nm_peer_addrs (purge_evicted gone orphaned m')) peer = Some a \<and>
     peer \<in> set (nm_known_peers (purge_evicted gone orphaned m')) \<and>
     (\<forall>c. (peer, c) \<notin> provides (nm_semantic_router (purge_evicted gone orphaned m'))) \<and>
     provides (nm_semantic_router (maintenance_purge now [peer] m')) = provides (nm_semantic_router m')"
  using assms(2)
proof (cases rule: register_peer_cases)
  case (evicted gone')
  have g: "gone' = gone" "orphaned = map fst (filter (\<lambda>(_, relay, _). relay = gone) (nm_reachable_via m))"
    using assms(3) evicted(4) by (auto simp: evict_def Let_def)
  have m': "nm_semantic_router m' = nm_semantic_router m" "nm_reachable_via m' = fold hm_remove orphaned (nm_reachable_via m)"
      "hm_get (nm_peer_addrs m') peer = Some a" "set (nm_known_peers m') = insert n (set (nm_known_peers m) - {gone})"
    using assms(5-7) unfolding evicted(5) g by (auto simp: add_peer_def evict_def Let_def)
  have "hm_get (nm_peers m) peer \<noteq> None" using assms(1,5) by (auto simp: node_ok_def peers_ok_def)
  then have known: "peer \<in> set (nm_known_peers m')"
    using assms(1,6) hm_get_None_iff [of "nm_peers m" peer] by (simp add: m'(4) node_ok_def peers_ok_def)
  have wf: "hm_wf (nm_reachable_via m)" and inv: "router_inv (nm_semantic_router m)"
    using assms(1) by (simp_all add: node_ok_def via_ok_def)
  have "peer \<in> set orphaned" unfolding g(2) orphaned_iff [OF wf] using assms(4) by blast
  then have "(peer, c) \<notin> provides (nm_semantic_router (purge_evicted gone orphaned m'))" for c
    by (simp add: purge_evicted_def m'(1,2) fold_remove_get fold_unregister_provides [OF router_inv_unregister [OF inv]])
  then show ?thesis
    using known m'(3) by (simp add: purge_evicted_def maintenance_purge_def)
qed (use assms(3) in simp_all)

section \<open>A small mesh\<close>

text \<open>Nodes with the keys 1, 2 and 3, a hash that pads or cuts to 32 bytes, and whole numbers as reputations.\<close>

definition mesh_env :: node_env where
  "mesh_env = run_env\<lparr>ne_blake3 := \<lambda>b. take 32 (b @ replicate 32 0)\<rparr>"

definition mesh_f32 :: "nat f32_ops" where
  "mesh_f32 =
     \<lparr>f_lit = (\<lambda>n d. n div d), f_of_u32 = unat, f_to_u32 = of_nat, f_add = (+), f_sub = (-), f_mul = (*), f_div = (div),
      f_min = min, f_clamp = (\<lambda>x lo hi. max lo (min x hi))\<rparr>"

definition mesh_key :: "u8 \<Rightarrow> keypair" where
  "mesh_key k = Keypair (replicate 32 k)"

definition mesh_id :: "u8 \<Rightarrow> node_id" where
  "mesh_id k = NodeId (replicate 32 k)"

definition mesh_addr :: "u8 \<Rightarrow> socket_addr" where
  "mesh_addr k = SockV4 [10, 0, 0, k] 7777"

definition mesh_peer :: "u8 \<Rightarrow> bool \<Rightarrow> nat \<Rightarrow> peer_connection" where
  "mesh_peer k discovered seen =
     \<lparr>pc_node_id = mesh_id k, pc_addr = mesh_addr k, pc_established_at = 0, pc_bytes_sent = 0, pc_bytes_received = 0,
      pc_discovered = discovered, pc_last_hello_ts = 1000, pc_last_seen = seen\<rparr>"

definition mesh_node :: "u8 \<Rightarrow> nat \<Rightarrow> nat network_manager" where
  "mesh_node k max_peers = network_manager_new mesh_env (mesh_key k) False max_peers [str ''echo''] 1000"

definition mesh_trace :: trace_id where
  "mesh_trace = TraceId (replicate TRACE_ID_SIZE 5)"

lemma mesh_env_simps [simp]:
  "ne_ed mesh_env = plain_ed" "length (ne_blake3 mesh_env x) = 32"
  by (simp_all add: mesh_env_def run_env_def)

lemma mesh_key_simps [simp]:
  "wf_keypair (mesh_key k)" "keypair_node_id plain_ed (mesh_key k) = mesh_id k" "wf_node_id (mesh_id k)"
  "mesh_id j = mesh_id k \<longleftrightarrow> j = k" "mesh_addr j = mesh_addr k \<longleftrightarrow> j = k" "wf_trace_id mesh_trace"
  by (simp_all add: mesh_key_def mesh_id_def mesh_addr_def mesh_trace_def wf_keypair_def keypair_node_id_def plain_ed_def
      wf_id_defs size_defs)

lemma mesh_node_simps [simp]:
  "nm_identity (mesh_node k n) = mesh_key k" "nm_peers (mesh_node k n) = []" "nm_known_peers (mesh_node k n) = []"
  "nm_peer_addrs (mesh_node k n) = []" "nm_origin_admission (mesh_node k n) = []" "nm_last_announce_from (mesh_node k n) = []"
  "nm_reachable_via (mesh_node k n) = []" "nm_max_peers (mesh_node k n) = n" "nm_discovery (mesh_node k n) = False"
  "nm_pending_intents (mesh_node k n) = []" "fc_seen (nm_forwarded_frames (mesh_node k n)) = []"
  "am_seen (nm_announcement_mgr (mesh_node k n)) = []" "node_ok (mesh_node k n)"
  by (simp_all add: mesh_node_def node_ok_new) (simp_all add: network_manager_new_def register_capability_def manager_new_def)

lemma mesh_can_send: "nm_identity m = mesh_key k \<Longrightarrow> can_send mesh_env [1, 2] mesh_trace m"
  by (simp add: can_send_def plain_ed_correct MAX_PAYLOAD_SIZE_def)

text \<open>The peers of a node, added as discovered.\<close>

definition with_peer :: "u8 \<Rightarrow> nat network_manager \<Rightarrow> nat network_manager" where
  "with_peer k m = add_peer (mesh_id k) (mesh_peer k True 1) m"

lemma with_peer_simps [simp]:
  "nm_identity (with_peer k m) = nm_identity m" "hm_get (nm_peers (with_peer k m)) (mesh_id j) =
     (if j = k then Some (mesh_peer k True 1) else hm_get (nm_peers m) (mesh_id j))"
  "hm_get (nm_peer_addrs (with_peer k m)) (mesh_id j) = (if j = k then Some (mesh_addr k) else hm_get (nm_peer_addrs m) (mesh_id j))"
  "nm_forwarded_frames (with_peer k m) = nm_forwarded_frames m" "pc_addr (mesh_peer k d t) = mesh_addr k"
  "nm_pending_intents (with_peer k m) = nm_pending_intents m" "nm_discovery (with_peer k m) = nm_discovery m"
  "set (nm_known_peers (with_peer k m)) = insert (mesh_id k) (set (nm_known_peers m))"
  "nm_origin_admission (with_peer k m) = nm_origin_admission m" "nm_last_announce_from (with_peer k m) = nm_last_announce_from m"
  "nm_announcement_mgr (with_peer k m) = nm_announcement_mgr m"
  by (simp_all add: with_peer_def add_peer_def mesh_peer_def)

lemma with_peer_ok [simp]: "node_ok m \<Longrightarrow> node_ok (with_peer k m)"
  unfolding with_peer_def by (intro node_ok_add_peer) (simp_all add: mesh_peer_def)

lemma mesh_capabilities:
  "am_local_capabilities (nm_announcement_mgr (mesh_node k n)) =
     [announced_new (ai_hash (ai_intent_from_str (ne_blake3 mesh_env) (str ''echo''))) (as_bytes (str ''capa''))]"
  "am_identity (nm_announcement_mgr (mesh_node k n)) = mesh_key k"
  "announcement_clock 1000 (nm_announcement_mgr (mesh_node k n)) = HybridClock 1000 1"
  by (simp_all add: mesh_node_def network_manager_new_def register_capability_def manager_new_def announcement_clock_def
      cm_sync_physical_def cm_tick_def clock_now_def clock_tick_def sat_add_def Let_def)

lemma mesh_hears:
  assumes "node_ok a" "nm_identity a = mesh_key 1" "mesh_id 2 \<in> set (nm_known_peers a)" "nm_origin_admission a = []"
    "nm_last_announce_from a = []" "am_seen (nm_announcement_mgr a) = []"
  shows "hears mesh_env 1000 1010 7 (mesh_node 2 4) a"
proof -
  have "wf_announced (announced_new (ai_hash (ai_intent_from_str (ne_blake3 mesh_env) (str ''echo''))) (as_bytes (str ''capa'')))"
    by (simp add: wf_announced_def announced_new_def ai_intent_from_str_def wf_id_defs size_defs as_bytes_def str_def utf8_char_def)
  then show ?thesis
    using assms
    by (simp add: hears_def Let_def mesh_capabilities plain_ed_correct MAX_PHYSICAL_def within_skew_def abs_diff_def
        MAX_ANNOUNCE_CLOCK_SKEW_def admit_origin_def announce_rate_ok_def MAX_DISTINCT_ORIGINS_PER_SENDER_PER_WINDOW_def
        ORIGIN_ADMISSION_WINDOW_def is_new_def)
qed

lemma mesh_echo: "str ''echo'' \<in> set KNOWN_CAPABILITY_NAMES"
  by (simp add: KNOWN_CAPABILITY_NAMES_def)

lemma frame_identity:
  assumes "handle_axiom_frame V secs now f addr m = (m', es)"
  shows "nm_identity m' = nm_identity m"
proof -
  obtain b m1 sent where fwd: "try_forward_routed_frame now f addr (keypair_node_id (ne_ed V) (nm_identity m)) m = (b, m1, sent)"
    by (metis surj_pair)
  show ?thesis
  proof (cases b)
    case True
    then show ?thesis using assms fwd forward_keeps_registry(5) [OF fwd] by (simp add: handle_axiom_frame_def)
  next
    case False
    then have fwd': "try_forward_routed_frame now f addr (keypair_node_id (ne_ed V) (nm_identity m)) m = (False, m1, sent)"
      using fwd by simp
    from frame_arms [OF fwd' assms] have "nm_identity m' = nm_identity m1"
    proof (elim disjE conjE exE)
      assume "(m', es) = handle_announce V secs now f m1"
      then show ?thesis
        using announce_cases [of V secs now f m1 m' es] by (auto simp: announce_dropped_def announce_accepted_def Let_def)
    qed simp_all
    then show ?thesis using not_forwarded(1) [OF fwd'] by simp
  qed
qed

lemma datagram_identity:
  assumes "receive_datagram V secs now data addr m = (m', es)"
  shows "nm_identity m' = nm_identity m"
proof (cases "decode_verified_frame (ne_ed V) data")
  case (Some f)
  then show ?thesis using assms frame_identity receive_frame by metis
next
  case None
  then show ?thesis using assms by (auto simp: receive_datagram_def Let_def split: option.splits if_splits)
qed

lemma mesh_hello:
  "receive_datagram mesh_env 1000 5 (build_hello_frame plain_ed (mesh_key 2) 1000) (mesh_addr 2) m
     = (m, [SendTo MainSocket (mesh_addr 2) (build_hello_reply_frame plain_ed (nm_identity m) 1000),
            PeerDiscovered (mesh_id 2) (mesh_addr 2) 1000,
            MessageReceived (mesh_id 2) (build_hello_frame plain_ed (mesh_key 2) 1000)])"
proof -
  have "extract_sender_with_timestamp plain_ed (build_hello_frame plain_ed (mesh_key 2) 1000) = Some (mesh_id 2, 1000)"
    "frame_msg_type (build_hello_frame plain_ed (mesh_key 2) 1000) = Some HELLO_MSG_TYPE"
    using extract_hello [OF plain_ed_correct, of "mesh_key 2" HELLO_MSG_TYPE 1000 "[]"] by (simp_all add: build_hello_frame_def)
  then show ?thesis by (simp add: receive_datagram_def HELLO_MSG_TYPE_def HELLO_ACK_MSG_TYPE_def)
qed

lemma spawn_fields:
  "nm_identity (fst (spawn_ping V sent tid tx n addr m)) = nm_identity m"
  "nm_known_peers (fst (spawn_ping V sent tid tx n addr m)) = nm_known_peers m"
  "nm_origin_admission (fst (spawn_ping V sent tid tx n addr m)) = nm_origin_admission m"
  "nm_last_announce_from (fst (spawn_ping V sent tid tx n addr m)) = nm_last_announce_from m"
  "nm_announcement_mgr (fst (spawn_ping V sent tid tx n addr m)) = nm_announcement_mgr m"
  "nm_identity (fst (spawn_announce V secs addr m)) = nm_identity m"
  "nm_known_peers (fst (spawn_announce V secs addr m)) = nm_known_peers m"
  "nm_origin_admission (fst (spawn_announce V secs addr m)) = nm_origin_admission m"
  "nm_last_announce_from (fst (spawn_announce V secs addr m)) = nm_last_announce_from m"
  "am_seen (nm_announcement_mgr (fst (spawn_announce V secs addr m))) = am_seen (nm_announcement_mgr m)"
  by (simp_all add: spawn_ping_def spawn_announce_def Let_def case_prod_unfold create_announcement_def)

lemma spawn_purges:
  "purges_of (snd (spawn_ping V sent tid tx n addr m)) = []"
  "purges_of (snd (spawn_announce V secs addr m)) = []"
  using ping_keeps spawn_announce_keeps unfolding tame_def by blast+

text \<open>Node 1 hears the HELLO of node 2, takes it as a peer, and hears its announcement.\<close>

lemma mesh_run:
  obtains s :: "nat node_run" and c where "reaches (node_start mesh_env) (node_step mesh_env mesh_f32) s"
    "nr_purges s = []" "nr_sweeps s = []" "can_send mesh_env [1, 2] mesh_trace (nr_mgr s)"
    "(mesh_id 2, c) \<in> provides (nm_semantic_router (nr_mgr s))"
    "sc_intent_hash c = ai_hash (ai_intent_from_str (ne_blake3 mesh_env) (str ''echo''))"
proof -
  let ?step = "node_step mesh_env mesh_f32" and ?reach = "reaches (node_start mesh_env) (node_step mesh_env mesh_f32)"
  define s0 :: "nat node_run" where "s0 = \<lparr>nr_mgr = mesh_node 1 4, nr_failed = [], nr_effects = [], nr_purges = [], nr_sweeps = [], nr_heard = []\<rparr>"
  have r0: "?reach s0" by (rule reaches_start) (unfold node_start_def s0_def mesh_node_def, blast)
  have mgr0: "nr_mgr s0 = mesh_node 1 4" by (simp add: s0_def)
  let ?hello = "build_hello_frame plain_ed (mesh_key 2) 1000"
  let ?es = "[SendTo MainSocket (mesh_addr 2) (build_hello_reply_frame plain_ed (nm_identity (mesh_node 1 4)) 1000),
            PeerDiscovered (mesh_id 2) (mesh_addr 2) 1000, MessageReceived (mesh_id 2) ?hello]"
  define s1 where "s1 = emit ?es (mesh_node 1 4) (s0\<lparr>nr_heard := ?hello # nr_heard s0\<rparr>)"
  have r1: "?reach s1"
    unfolding s1_def by (rule reaches_step [OF r0], rule ns_datagram) (unfold mgr0, rule mesh_hello)
  obtain m2 es2 where d: "on_peer_discovered mesh_env 1000 6 True mesh_trace 0 (mesh_id 2) (mesh_addr 2) 1000 (mesh_node 1 4) = (m2, es2)"
    by force
  define s2 where "s2 = emit es2 m2 s1"
  have r2: "?reach s2"
    unfolding s2_def
    by (rule reaches_step [OF r1], rule ns_discovered [of "mesh_id 2" "mesh_addr 2" 1000]) (use d in \<open>simp_all add: s1_def emit_def\<close>)
  have m2: "node_ok m2" using node.inv_reaches [OF r2] by (simp add: node_inv_def s2_def emit_def)
  have m2': "nm_identity m2 = mesh_key 1" "mesh_id 2 \<in> set (nm_known_peers m2)" "nm_origin_admission m2 = []"
      "nm_last_announce_from m2 = []" "am_seen (nm_announcement_mgr m2) = []" and es2: "purges_of es2 = []"
    using d
    by (auto simp: on_peer_discovered_def register_peer_def Let_def case_prod_unfold spawn_fields spawn_purges add_peer_def)
  obtain bytes where heard: "nm_semantic_router (fst (receive_datagram mesh_env 1010 7 bytes (mesh_addr 2) m2)) =
       replace_registrations (ne_blake3 mesh_env) (mesh_id 2) (am_local_capabilities (nm_announcement_mgr (mesh_node 2 4))) (nm_semantic_router m2)"
    using announcement_sent [OF mesh_hears [OF m2 m2'], of "mesh_addr 1" "mesh_addr 2"] by auto
  obtain m3 es3 where m3: "receive_datagram mesh_env 1010 7 bytes (mesh_addr 2) m2 = (m3, es3)" by force
  define s3 where "s3 = emit es3 m3 (s2\<lparr>nr_heard := bytes # nr_heard s2\<rparr>)"
  have mgr2: "nr_mgr s2 = m2" by (simp add: s2_def emit_def)
  have r3: "?reach s3"
    unfolding s3_def by (rule reaches_step [OF r2], rule ns_datagram) (unfold mgr2, rule m3)
  have "offers (mesh_id 2) (ai_hash (ai_intent_from_str (ne_blake3 mesh_env) (str ''echo''))) (nm_semantic_router m3)"
    using heard m3 m2 by (simp add: node_ok_def mesh_capabilities announced_new_def replace_offers [OF _ mesh_echo])
  moreover have "purges_of es3 = []"
    using datagram_ok(1) [OF m2 _ m3] node.inv_reaches [OF r2] by (auto simp: node_inv_def mgr2 tame_def)
  moreover have "nm_identity m3 = mesh_key 1" using datagram_identity [OF m3] m2' by simp
  ultimately show thesis using that r3 by (auto simp: offers_def s3_def s2_def s1_def s0_def emit_def es2 mesh_can_send)
qed


theorem registrations_signed_witness:
  "\<exists>(s :: nat node_run) c. reaches (node_start mesh_env) (node_step mesh_env mesh_f32) s \<and>
     (mesh_id 2, c) \<in> provides (nm_semantic_router (nr_mgr s)) \<and>
     (\<exists>data \<in> set (nr_heard s). \<exists>f clock caps sig.
        decode_verified_frame plain_ed data = Some f \<and> origin_claim f = Some (mesh_id 2, clock, caps, sig) \<and>
        node_id_verify plain_ed (mesh_id 2) (origin_signing_bytes_for (mesh_id 2) clock caps) sig)"
proof -
  obtain s c where s: "reaches (node_start mesh_env) (node_step mesh_env mesh_f32) s"
      "(mesh_id 2, c) \<in> provides (nm_semantic_router (nr_mgr s))"
    by (rule mesh_run)
  from registrations_signed [OF s] s show ?thesis unfolding mesh_env_simps by blast
qed


theorem announcement_registers_witness:
  "\<exists>b' bytes c. spawn_announce mesh_env 1000 (mesh_addr 1) (mesh_node 2 4) = (b', [send_via False (mesh_addr 1) bytes]) \<and>
     (mesh_id 2, c) \<in> provides (nm_semantic_router
       (fst (receive_datagram mesh_env 1010 7 bytes (mesh_addr 2) (with_peer 2 (mesh_node 1 4)))))"
proof -
  have "hears mesh_env 1000 1010 7 (mesh_node 2 4) (with_peer 2 (mesh_node 1 4))" by (rule mesh_hears) simp_all
  from announcement_registers [OF this mesh_echo, of "mesh_addr 1" "mesh_addr 2"] show ?thesis
    by (auto simp: mesh_capabilities announced_new_def)
qed

text \<open>Node 2 knows nodes 1 and 3; a request of node 1 to node 3 comes by.\<close>

lemma mesh_relays:
  obtains data f m' es where "decode_verified_frame plain_ed data = Some f" "fr_trace_id f = Some mesh_trace"
    "fh_frame_type (fr_header f) = FtIntent" "fr_routing f = Some (route_to (mesh_id 3))"
    "try_forward_routed_frame 7 f (mesh_addr 1) (mesh_id 2) (with_peer 1 (with_peer 3 (mesh_node 2 4))) = (True, m', es)" "es \<noteq> []"
proof -
  let ?m = "with_peer 1 (with_peer 3 (mesh_node 2 4))" and ?a = "with_peer 2 (mesh_node 1 4)"
  have pre: "can_send mesh_env [1, 2] mesh_trace ?a" "hm_get (nm_peers ?a) (mesh_id 2) = Some (mesh_peer 2 True 1)"
    by (simp_all add: mesh_can_send [of _ 1])
  obtain data f where f: "decode_verified_frame plain_ed data = Some f" "fh_frame_type (fr_header f) = FtIntent"
      "fr_trace_id f = Some mesh_trace" "fr_routing f = Some (route_to (mesh_id 3))"
    using request_via_ok [OF pre mesh_key_simps(3) [of 3], of "str ''echo''" 9] unfolding mesh_env_simps by blast
  have a: "mesh_addr 1 \<in> hm_vals (nm_peer_addrs ?m)" by (rule hm_get_vals [of _ "mesh_id 1"]) simp
  have n: "next_hop FtIntent mesh_trace (mesh_id 3) ?m = Some (mesh_addr 3)" by (simp add: next_hop_def)
  have c: "\<not> fc_contains (mesh_trace, fh_frame_type (fr_header f)) (nm_forwarded_frames ?m)" by (simp add: fc_contains_def)
  have nz: "re_ttl (route_to (mesh_id 3)) \<noteq> 0" by (simp add: routing_ext_new_def DEFAULT_ROUTING_TTL_def)
  obtain m' es where "try_forward_routed_frame 7 f (mesh_addr 1) (mesh_id 2) ?m = (True, m', es)"
      "forwarded 7 f (mesh_addr 1) (route_to (mesh_id 3)) mesh_trace (mesh_addr 3) ?m (m', es)"
    using forward_rest(4) [OF f(4) _ _ f(3) c, where now = 7 and local_id = "mesh_id 2" and addr = "mesh_addr 1" and hop = "mesh_addr 3"]
      a n f(2) nz by (auto simp: from_known_peer_iff)
  moreover obtain bytes where "encode_vec (hop_frame f (route_to (mesh_id 3))) = Some bytes"
    by (rule hop_frame_accepted [OF f(1,4)])
  ultimately show thesis using that f by (simp add: forwarded_def)
qed

theorem relay_safe_witness:
  "\<exists>data f m' hop bytes. decode_verified_frame plain_ed data = Some f \<and>
     try_forward_routed_frame 7 f (mesh_addr 1) (mesh_id 2) (with_peer 1 (with_peer 3 (mesh_node 2 4)))
       = (True, m', [send_via False hop bytes]) \<and> hop \<noteq> mesh_addr 1"
proof -
  obtain data f m' es where f: "decode_verified_frame plain_ed data = Some f"
      "try_forward_routed_frame 7 f (mesh_addr 1) (mesh_id 2) (with_peer 1 (with_peer 3 (mesh_node 2 4))) = (True, m', es)" "es \<noteq> []"
    by (rule mesh_relays)
  have "node_ok (with_peer 1 (with_peer 3 (mesh_node 2 4)))" by simp
  from relay_safe [OF f(1) this f(2,3)] obtain hop bytes where "es = [send_via False hop bytes]" "hop \<noteq> mesh_addr 1"
    by auto
  then show ?thesis using f(1,2) by blast
qed

theorem relayed_once_witness:
  "\<exists>f m1 es. es \<noteq> [] \<and>
     try_forward_routed_frame 7 f (mesh_addr 1) (mesh_id 2) (with_peer 1 (with_peer 3 (mesh_node 2 4))) = (True, m1, es) \<and>
     try_forward_routed_frame 9 f (mesh_addr 1) (mesh_id 2) (handle_all mesh_env [(1000, 8, f, mesh_addr 3)] m1)
       = (True, handle_all mesh_env [(1000, 8, f, mesh_addr 3)] m1, [])"
proof -
  obtain data f m' es where f: "fr_routing f = Some (route_to (mesh_id 3))"
      "try_forward_routed_frame 7 f (mesh_addr 1) (mesh_id 2) (with_peer 1 (with_peer 3 (mesh_node 2 4))) = (True, m', es)" "es \<noteq> []"
    by (rule mesh_relays)
  have "length [(1000 :: u64, 8 :: nat, f, mesh_addr 3)] < FORWARD_DEDUP_CAPACITY" by (simp add: FORWARD_DEDUP_CAPACITY_def)
  from relayed_once [OF _ f(2,3) this refl refl f(1), where local_id' = "mesh_id 2" and now' = 9 and addr' = "mesh_addr 1" and V = mesh_env]
    f(2,3) show ?thesis by auto
qed

theorem relayed_request_answered_witness:
  "let a = with_peer 2 (mesh_node 1 4); r = with_peer 1 (with_peer 3 (mesh_node 2 4)); b = with_peer 2 (mesh_node 3 4);
       C = run_context\<lparr>dc_identity := mesh_key 3\<rparr> in
   \<exists>a1 bytes1 r1 bytes2 q.
     request_intent_via mesh_env True (mesh_id 2) (mesh_id 3) (str ''echo'') [1, 2] mesh_trace 9 a
       = (a1, [send_via False (mesh_addr 2) bytes1], Ok ()) \<and>
     receive_datagram mesh_env 1000 1 bytes1 (mesh_addr 1) r = (r1, [send_via False (mesh_addr 3) bytes2]) \<and>
     receive_datagram mesh_env 1000 2 bytes2 (mesh_addr 2) b = (b, [SpawnDispatch (mesh_addr 2) q [1, 2] (mesh_id 1)]) \<and>
     rt_intent_hash q = ai_hash (ai_intent_from_str (ne_blake3 mesh_env) (str ''echo'')) \<and>
     (\<forall>bytes3. fst (intent_task mesh_env run_libs C False 1000 3 4 (IntentId [7]) (mesh_addr 2) q [1, 2] (mesh_id 1)
          (run_policy 1 [], \<lparr>io_calls = [], io_flow = flow_new, io_tasks = []\<rparr>)) = [send_via False (mesh_addr 2) bytes3] \<longrightarrow>
        (\<exists>r2 bytes4 a2 answer. receive_datagram mesh_env 1000 5 bytes3 (mesh_addr 3) r1 = (r2, [send_via False (mesh_addr 1) bytes4]) \<and>
           receive_datagram mesh_env 1000 6 bytes4 (mesh_addr 2) a1 = (a2, [IntentAnswered 9 answer]) \<and>
           hm_get (nm_pending_intents a2) mesh_trace = None))"
proof -
  let ?a = "with_peer 2 (mesh_node 1 4)" and ?r = "with_peer 1 (with_peer 3 (mesh_node 2 4))" and ?b = "with_peer 2 (mesh_node 3 4)"
    and ?C = "run_context\<lparr>dc_identity := mesh_key 3\<rparr>"
  have "mesh_addr 2 \<in> hm_vals (nm_peer_addrs ?b)" by (rule hm_get_vals [of _ "mesh_id 2"]) simp
  from relayed_request_answered [where V = mesh_env and a = ?a and r = ?r and b = ?b and C = ?C and payload = "[1, 2]" and tid = mesh_trace
      and p = "mesh_peer 2 True 1" and addr_r = "mesh_addr 2" and addr_a = "mesh_addr 1" and addr_b = "mesh_addr 3"
      and capability = "str ''echo''" and tx = 9 and L = run_libs and new_id = "IntentId [7]"
      and st = "(run_policy 1 [], \<lparr>io_calls = [], io_flow = flow_new, io_tasks = []\<rparr>)"
      and secs_r = 1000 and now_r = 1 and secs_b = 1000 and now_b = 2 and secs_d = 1000 and now_d = 3 and later_d = 4 and secs_r' = 1000 and now_r' = 5
      and secs_a = 1000 and now_a = 6] this
  show ?thesis unfolding Let_def by (simp add: mesh_can_send [of _ 1] fc_contains_def)
qed

theorem reply_authentic_witness:
  "let m = (mesh_node 1 4)\<lparr>nm_pending_intents := [(mesh_trace, \<lparr>pd_expected_sender = mesh_id 2, pd_tx = 9\<rparr>)]\<rparr> in
   \<exists>data m' answer f. receive_datagram mesh_env 1000 1 data (mesh_addr 2) m = (m', [IntentAnswered 9 answer]) \<and>
     decode_verified_frame plain_ed data = Some f \<and> fh_sender_id (fr_header f) = mesh_id 2"
proof -
  let ?m = "(mesh_node 1 4)\<lparr>nm_pending_intents := [(mesh_trace, \<lparr>pd_expected_sender = mesh_id 2, pd_tx = 9\<rparr>)]\<rparr>"
  let ?data = "build_simple_frame plain_ed (mesh_key 2) FtFulfill mesh_trace (IntentHash (replicate 16 0)) [1] (Some (route_to (mesh_id 1)))"
  have h: "wf_intent_hash (IntentHash (replicate 16 0))" by (simp add: wf_id_defs size_defs)
  obtain f where f: "decode_verified_frame plain_ed ?data = Some f" "fh_sender_id (fr_header f) = mesh_id 2"
      "fh_frame_type (fr_header f) = FtFulfill" "fr_trace_id f = Some mesh_trace" "fr_routing f = Some (route_to (mesh_id 1))"
    by (rule build_simple_frame_accepted [OF plain_ed_correct, of "mesh_key 2" FtFulfill mesh_trace "IntentHash (replicate 16 0)" "[1]"
        "Some (route_to (mesh_id 1))"]) (use h in \<open>simp_all add: wf_frame_type_def MAX_PAYLOAD_SIZE_def\<close>)
  obtain m' answer where r: "receive_datagram mesh_env 1000 1 ?data (mesh_addr 2) ?m = (m', [IntentAnswered 9 answer])"
    using reply_resolves [of mesh_env ?data f "route_to (mesh_id 1)" mesh_trace ?m 9 1000 1 "mesh_addr 2"] f by (auto simp: hm_get_def)
  from reply_authentic [OF r, of 9 answer] r show ?thesis using f unfolding Let_def by auto
qed

text \<open>A full table: node 2 was discovered and is a relay to node 3, node 3 was discovered later, node 4 is new.\<close>

definition mesh_full :: "nat network_manager" where
  "mesh_full = (add_peer (mesh_id 3) (mesh_peer 3 True 5) (with_peer 2 (mesh_node 1 2)))
     \<lparr>nm_reachable_via := [(mesh_id 3, mesh_id 2, 3)]\<rparr>"

lemma mesh_full_ok: "node_ok mesh_full"
proof -
  have "node_ok (add_peer (mesh_id 3) (mesh_peer 3 True 5) (with_peer 2 (mesh_node 1 2)))"
    by (intro node_ok_add_peer) (simp_all add: mesh_peer_def)
  then show ?thesis
    by (simp add: mesh_full_def node_ok_def via_ok_def hm_wf_def hm_get_def add_peer_def)
qed

lemma mesh_full_evicts:
  "\<exists>m'. register_peer 9 (mesh_id 4) (mesh_addr 4) 1000 mesh_full = (m', [SpawnPurge (mesh_id 2) [mesh_id 3]])"
  by (simp add: register_peer_def mesh_full_def add_peer_def with_peer_def mesh_peer_def lru_discovered_def evict_def
      hm_insert_def hm_get_def Let_def)

theorem registration_protects_peers_witness:
  "length (nm_peers (fst (register_peer 9 (mesh_id 4) (mesh_addr 4) 1000 mesh_full))) \<le> 2"
proof -
  obtain m' es where r: "register_peer 9 (mesh_id 4) (mesh_addr 4) 1000 mesh_full = (m', es)" by force
  have "nm_max_peers mesh_full = 2" "length (nm_peers mesh_full) = 2"
    by (simp_all add: mesh_full_def add_peer_def with_peer_def hm_insert_def)
  with registration_protects_peers [OF mesh_full_ok r] r show ?thesis by simp
qed

theorem eviction_forgets_direct_peer_witness:
  "\<exists>m'. register_peer 9 (mesh_id 4) (mesh_addr 4) 1000 mesh_full = (m', [SpawnPurge (mesh_id 2) [mesh_id 3]]) \<and>
     mesh_id 3 \<in> set (nm_known_peers (purge_evicted (mesh_id 2) [mesh_id 3] m')) \<and>
     (\<forall>c. (mesh_id 3, c) \<notin> provides (nm_semantic_router (purge_evicted (mesh_id 2) [mesh_id 3] m')))"
proof -
  obtain m' where r: "register_peer 9 (mesh_id 4) (mesh_addr 4) 1000 mesh_full = (m', [SpawnPurge (mesh_id 2) [mesh_id 3]])"
    using mesh_full_evicts by blast
  have "hm_get (nm_reachable_via mesh_full) (mesh_id 3) = Some (mesh_id 2, 3)" "hm_get (nm_peer_addrs mesh_full) (mesh_id 3) = Some (mesh_addr 3)"
    by (simp_all add: mesh_full_def add_peer_def hm_get_def)
      (simp add: with_peer_def add_peer_def hm_insert_def mesh_peer_def)
  from eviction_forgets_direct_peer [OF mesh_full_ok r _ this, where orphaned = "[mesh_id 3]"] r show ?thesis by auto
qed

end
