(* ===== verification/Spec2Isabelle.thy ===== *)
theory Spec2Isabelle
  imports Clock Codec Intent FrameSign Fragment Scan Policy Approval AuditLog Sanitize Targets Service Mesh
begin

text \<open>
  A verification development for AXIOM: the frame protocol by which nodes exchange signed intents,
  and the gateway that decides which intents may act.

  \<^bold>\<open>The program.\<close> A node holds an Ed25519 identity. It speaks in frames: a header, optional trace,
  routing and fragment extensions, a payload, and an authentication block (crates axiom-types and
  axiom-codec). Frames are signed over a canonical encoding (axiom-crypto) and cut to the size of the
  link (axiom-transport). A request names a capability; the gateway (axiom-gateway) checks the
  policy file's allow list, rate limit, concurrency limit and kill switch, scans arguments for
  protected addresses, asks a human for the most dangerous tier, records every decision in a
  hash-chained log, and cleans text that comes back from devices. The node itself (forge-node) keeps
  tables of its peers, announces its capabilities and passes on the announcements of others, relays
  requests and replies between nodes that do not see each other, and dispatches requests to the
  handlers of its capabilities, which act through a broker outside the repository.

  \<^bold>\<open>Conventions.\<close> \<open>Prelude\<close> holds them. The model is of the release build: sums wrap or saturate as
  the source writes. A fallible function returns \<open>result\<close> with \<open>Ok\<close>, \<open>Err\<close> and \<open>Panic\<close>, the last for
  slices and indices out of range. Machine integers are words; \<open>usize\<close> is \<open>nat\<close>. A string is the
  list of its code points and \<open>as_bytes\<close> is its UTF-8 form. A \<open>HashMap\<close> is an association list behind
  the \<open>keyed_store\<close> laws. Locks become the atomic sections they guard; what happens between them is an
  interleaving of steps, and \<open>reaches\<close> with the locale \<open>state_machine\<close> carries invariants over every
  run. A handler of the network manager, and a request's section between two waits, is one such step; a
  handler that locks several tables in turn is taken to see them at one moment, while spawned tasks and
  the two halves of the maintenance interleave with everything. Sends, messages on channels and
  spawned tasks are values a handler returns. Time is an argument. Code outside the repository (Ed25519, BLAKE3, the TOML and JSON libraries,
  hex, Unicode lower-casing, the semaphore, single-precision arithmetic, the UAI broker) is a record of functions passed to the definitions; what
  a theorem needs of it is a named hypothesis, shown satisfiable by the theorem's witness.

  \<^bold>\<open>Theories and sources.\<close>
  \<^item> \<open>Clock\<close>: axiom-types/src/clock.rs, axiom-clock. Hybrid clocks, their order and their manager.
  \<^item> \<open>Types\<close>, \<open>Frame\<close>: axiom-types (lib, crypto, trust, error, payload, frame). Data and code tables.
  \<^item> \<open>Codec\<close>: axiom-codec. Encoder, decoder and the bytes a signature covers. Round trips both ways,
    freedom from panics on arbitrary input, the error paths.
  \<^item> \<open>Intent\<close>: axiom-types/src/intent.rs and axiom-crypto/src/hash.rs. Constraints and the intent hash.
  \<^item> \<open>FrameSign\<close>: axiom-crypto (identity, frame signing). Signing, verifying, session tokens.
  \<^item> \<open>Fragment\<close>: axiom-transport/src/fragment.rs. Cutting, reassembly in any order, buffer limits.
  \<^item> \<open>Scan\<close>, \<open>Policy\<close>: axiom-gateway/src/policy.rs. Address scanners, loading, admission, kill switch.
  \<^item> \<open>Approval\<close>: axiom-gateway/src/approval.rs. Proposals, the terminal prompt, the claim and finish
    sections of a decision under every interleaving of callers.
  \<^item> \<open>Utf8\<close>, \<open>AuditLog\<close>: axiom-gateway/src/audit.rs. Entries, redaction, the chain and its check
    from the bytes of a file, appends that fail half way.
  \<^item> \<open>Sanitize\<close>: axiom-gateway/src/sanitize.rs. Escape sequences, control characters, JSON leaves.
  \<^item> \<open>Strings\<close>, \<open>Targets\<close>: the string methods of Rust and, from forge-node/src/network.rs, the parsers of
    capability payloads and their deny lists.
  \<^item> \<open>Wire\<close>: building, signing and checking frames and HELLO messages (forge-node/src/network.rs).
  \<^item> \<open>Announce\<close>: axiom-router/src/announce.rs. Announcements, their origin signature, gossip with a
    hop limit. Only the origin speaks for itself, a claim is accepted once, gossip dies out.
  \<^item> \<open>Semantic\<close>: axiom-router/src/semantic.rs. The registry refines a set of provisions; discovery
    returns exactly the providers that meet the constraints, ranked.
  \<^item> \<open>Dispatch\<close>, \<open>Service\<close>: dispatch of an intent with every handler, the broker calls, the background
    task of a WireGuard change (forge-node/src/network.rs). \<open>Service\<close> runs many requests against one policy,
    approval flow and audit log, and shows that every call to the broker was authorised and every change approved.
  \<^item> \<open>Node\<close>, \<open>NodeRun\<close>, \<open>Mesh\<close>: the network manager (forge-node/src/network.rs), the receive loop of
    discovery.rs and the handling of a discovered peer in node.rs. \<open>Node\<close> has the tables and the handlers,
    \<open>NodeRun\<close> the invariants of the tables and of the registry over all runs, \<open>Mesh\<close> the properties: safe and
    unrepeated relaying, authentic replies, protected peers, signed registrations, and that providers are
    found, asked and heard, also through a relay.
  \<^item> This theory: what holds across components.

  \<^bold>\<open>Bounds.\<close> No definition uses fuel: every recursion terminates by a measure or structurally. The
  limits in the statements (payload size, fragment count, 40 bits of clock time, the capacities of the
  relay cache and of the breadcrumbs) are the code's own.

  \<^bold>\<open>Not modelled.\<close> Sockets, files other than the audit log, processes and terminals; the text of log
  messages; random generation of keys and identifiers (their values are arguments). Of the node, the
  connection over the wide-area network, the Telegram channel, the control socket and the loading of
  the configuration are left out, as are the raw sessions of axiom-crypto and the queues of
  axiom-transport. The runtime,
  hardware, kernel and network-defence crates are not part of the shipped binaries and are left out.
\<close>

section \<open>Signing, cutting, sending and checking a frame\<close>

definition wire_of :: "frame \<Rightarrow> u8 list" where
  "wire_of f = fst (encode f (replicate (frame_wire_size f) 0))"

lemma decode_wire_of: "wf_frame f \<Longrightarrow> decode (wire_of f) = Ok (of_frame f)"
proof -
  assume f: "wf_frame f"
  have t: "typed_frame f" by (rule wf_frame_typed [OF f])
  have "encode f (replicate (frame_wire_size f) 0) = (frame_bytes f @ [], Ok (frame_wire_size f))"
    using f encode_writes [OF t, of "replicate (frame_wire_size f) 0"] by (simp add: wf_frame_def)
  then show ?thesis using decode_frame_bytes [OF f, of "[]"] by (simp add: wire_of_def)
qed

text \<open>
  C6: a frame that its sender signed, cut into fragments, sent over the wire fragment by fragment in any order and
  put together again arrives exactly as signed, and its signature verifies: encoding, decoding, fragmentation and reassembly
  together keep everything a signature covers.
\<close>

theorem signed_frame_survives:
  assumes "ed25519_correct E" "wf_keypair k" "wf_frame f" "fr_fragment_info f = None"
    and "uses_signature (fh_trust_level (fr_header f))" "fh_sender_id (fr_header f) = keypair_node_id E k"
    and "frame_sign E k f = (g, res)" "length (fragment mtu g) \<noteq> 1"
    and "mset sent = mset (fragment mtu g)" "0 < n"
    and "length ts = length sent" "\<forall>t \<in> set ts. sat_sub t (hd ts) < timeout"
  shows "\<exists>received. map decode (map wire_of sent) = map Ok received \<and>
    snd (ra_run (zip (map as_frame received) ts) (reassembler_new n timeout))
      = replicate (length sent - 1) (Ok None) @ [Ok (Some g)] \<and>
    frame_verify E g = Ok True"
proof -
  obtain g' where g': "frame_sign E k f = (g', Ok ())" "wf_frame g'" "frame_verify E g' = Ok True"
      "g' = f\<lparr>fr_auth := AuthSignature (keypair_sign E k (signature_data f))\<rparr>"
    using frame_sign_ok [OF assms(1-3,5,6)] by blast
  have "g' = g" using g'(1) assms(7) by simp
  then have g: "wf_frame g" "frame_verify E g = Ok True" using g'(2,3) by simp_all
  have w: "whole g" using g(1) g'(4) \<open>g' = g\<close> assms(4) by (simp add: whole_def wf_frame_def)
  obtain m t ns where "fragment mtu g = map (make_fragment g m t) ns"
    using fragment_cases [OF assms(8)] by metis
  then have "\<forall>h \<in> set (fragment mtu g). wf_frame h" using wf_make_fragment [OF g(1)] by simp
  then have "\<forall>h \<in> set sent. wf_frame h" using mset_eq_setD [OF assms(9)] by simp
  then have "map decode (map wire_of sent) = map Ok (map of_frame sent)" by (simp add: decode_wire_of)
  moreover have "map as_frame (map of_frame sent) = sent" by (simp add: comp_def)
  moreover have "ra_inv (reassembler_new n timeout)" by (rule ra.inv_start) blast
  then have "snd (ra_run (zip sent ts) (reassembler_new n timeout))
      = replicate (length sent - 1) (Ok None) @ [Ok (Some g)]"
    using assms(10-12)
    by (intro fragment_reassembles [OF w assms(8,9)]) (simp_all add: reassembler_new_def)
  ultimately show ?thesis using g(2) by metis
qed

lemma fragments_of_signed:
  "length (fragment 132 (signed_example\<lparr>fr_auth := AuthSignature s\<rparr>)) = 2"
  by (simp add: fragment_def signed_example_def with_routing_def frame_new_def max_payload_per_fragment_def
      Let_def size_defs numeral_2_eq_2 [symmetric])

theorem signed_frame_survives_witness:
  "\<exists>g sent received. frame_sign plain_ed (Keypair (replicate 32 7)) signed_example = (g, Ok ()) \<and>
     sent = fragment 132 g \<and> length sent = 2 \<and> map decode (map wire_of sent) = map Ok received \<and>
     snd (ra_run (zip (map as_frame received) [0, 5]) (reassembler_new 1 10)) = [Ok None, Ok (Some g)] \<and>
     frame_verify plain_ed g = Ok True"
proof -
  have pre: "uses_signature (fh_trust_level (fr_header signed_example))"
    "fh_sender_id (fr_header signed_example) = keypair_node_id plain_ed (Keypair (replicate 32 7))"
    "fr_fragment_info signed_example = None" "wf_keypair (Keypair (replicate 32 7))"
    by (simp_all add: signed_example_def with_routing_def frame_new_def frame_header_new_def
        tl_default_def uses_signature_def keypair_node_id_def plain_ed_def wf_keypair_def)
  obtain g where g: "frame_sign plain_ed (Keypair (replicate 32 7)) signed_example = (g, Ok ())"
      "g = signed_example\<lparr>fr_auth := AuthSignature (keypair_sign plain_ed (Keypair (replicate 32 7)) (signature_data signed_example))\<rparr>"
    using frame_sign_ok [OF plain_ed_correct pre(4) wf_signed_example pre(1,2)] by blast
  have l: "length (fragment 132 g) = 2" unfolding g(2) by (rule fragments_of_signed)
  obtain received where "map decode (map wire_of (fragment 132 g)) = map Ok received"
    "snd (ra_run (zip (map as_frame received) [0, 5]) (reassembler_new 1 10))
      = replicate (length (fragment 132 g) - 1) (Ok None) @ [Ok (Some g)]"
    "frame_verify plain_ed g = Ok True"
    using signed_frame_survives [OF plain_ed_correct pre(4) wf_signed_example pre(3,1,2) g(1), of 132 "fragment 132 g" 1 "[0, 5]" 10] l
    by (auto simp: sat_sub_def)
  then show ?thesis using g(1) l by auto
qed

section \<open>The audit log tells what the approval flow did\<close>

text \<open>
  C5: logging an intent of the approval flow tells the truth about it. Whatever the callers did, a
  record that has reached a terminal status is appended as one entry that names the intent and its capability,
  says allowed exactly when the capability was executed for it, and carries an outcome exactly then. A
  record that is still pending or in progress is refused and the log is left alone.
\<close>

theorem audit_tells_execution:
  assumes "reaches world_start (world_step L blake3 p) w" "flow_record (aw_flow w) iid = Some r"
  shows "if terminal_status (lr_status r)
     then \<exists>e lg'. log_tier2_linked_record A WriteOk now_ms now r lg = (lg', Ok ()) \<and>
       lg_file lg' = lg_file lg @ entry_line A e @ [10] \<and>
       ae_intent_id e = Some (al_hex_enc A (intent_id_bytes iid)) \<and>
       ae_capability e = in_capability (lr_intent r) \<and> ae_tier e = str ''tier2'' \<and>
       (au_allowed (ae_decision e) \<longleftrightarrow> iid \<in> fst ` set (aw_executed w)) \<and>
       (ae_outcome e \<noteq> None \<longleftrightarrow> iid \<in> fst ` set (aw_executed w))
     else log_tier2_linked_record A WriteOk now_ms now r lg = (lg, Err NotTerminal)"
proof (cases "terminal_status (lr_status r)")
  case True
  have inv: "world_inv L blake3 p w" "recorded_inv w" using recd.inv_reaches [OF assms(1)] by auto
  then have ok: "in_id (lr_intent r) = iid"
    using assms(2) by (auto simp: world_inv_def records_inv_def intent_ok_def)
  have ex: "executed_status (lr_status r) \<longleftrightarrow> iid \<in> fst ` set (aw_executed w)"
    "executed_status (lr_status r) \<longrightarrow> lr_execution r \<noteq> None"
    using inv(2) assms(2) by (auto simp: recorded_inv_def)
  obtain d out dur where s: "tier2_summary now r = Ok (d, out, dur)"
      "au_allowed d \<longleftrightarrow> executed_status (lr_status r)" "out \<noteq> None \<longleftrightarrow> executed_status (lr_status r)"
    using tier2_summary_terminal [OF True] ex(2) by blast
  let ?e = "build_entry A now_ms (al_hex_enc A (node_id_bytes (in_proposer (lr_intent r))))
      (in_capability (lr_intent r)) (tier_as_str Tier2) (in_parameters (lr_intent r)) d out dur
      (Some (al_hex_enc A (intent_id_bytes (in_id (lr_intent r))))) lg"
  have fields: "ae_intent_id ?e = Some (al_hex_enc A (intent_id_bytes iid))"
      "ae_capability ?e = in_capability (lr_intent r)" "ae_tier ?e = str ''tier2''"
      "ae_decision ?e = d" "ae_outcome ?e = out"
    by (simp_all add: build_entry_def Let_def ok)
  obtain lg' where lg': "append_entry A WriteOk ?e lg = (lg', Ok ())"
      "lg_file lg' = lg_file lg @ entry_line A ?e @ [10]"
    using append_entry_ok by blast
  have "log_tier2_linked_record A WriteOk now_ms now r lg = (lg', Ok ())"
    using lg'(1) by (simp add: log_tier2_linked_record_def s(1) log_record_def)
  then show ?thesis
    unfolding if_P [OF True] using lg'(2) fields s(2,3) ex(1)
    by (intro exI [of _ ?e] exI [of _ lg']) simp
next
  case False
  then show ?thesis by (simp add: log_tier2_linked_record_def tier2_summary_open)
qed

theorem audit_tells_execution_witness:
  "\<exists>r e lg'. flow_record (aw_flow world_3) (IntentId [7]) = Some r \<and>
     log_tier2_linked_record sample_libs WriteOk 0 20 r sample_log_0 = (lg', Ok ()) \<and>
     lg_file lg' = entry_line sample_libs e @ [10] \<and> au_allowed (ae_decision e)"
proof -
  obtain r where r: "flow_record (aw_flow world_3) (IntentId [7]) = Some r" "terminal_status (lr_status r)"
    using world_3_record by (auto simp: terminal_status_def)
  show ?thesis
    using audit_tells_execution [OF world_3_reached r(1), of sample_libs 0 20 sample_log_0] r
    by (auto simp: world_3_def sample_log_0_def)
qed

end
